(* ===== verification/Runsolver_Prelude.thy ===== *)
theory Runsolver_Prelude
  imports Complex_Main "HOL-Library.Word" "HOL-Library.Monad_Syntax"
begin

text \<open>
  Shared vocabulary of the development: the abnormal outcomes of the C++ code, loops over
  vectors whose body may fail, character classes of the C locale, and decimal numbers as
  iostreams and printf write them.
\<close>

section \<open>Automation\<close>

named_theorems return_iff \<comment> \<open>when a step of the option monad returns\<close>
named_theorems os_simps \<comment> \<open>frame facts of operating system calls\<close>

section \<open>Machine words\<close>

type_synonym u16 = "16 word"
type_synonym u32 = "32 word"
type_synonym u64 = "64 word"
type_synonym i32 = "32 word" \<comment> \<open>int, read with sint\<close>

lemma unat_of_nat_u32: "n < 2 ^ 32 \<Longrightarrow> unat (of_nat n :: u32) = n"
  by (simp add: unsigned_of_nat take_bit_nat_eq_self)

lemma unat_of_nat_u64: "n < 2 ^ 64 \<Longrightarrow> unat (of_nat n :: u64) = n"
  by (simp add: unsigned_of_nat take_bit_nat_eq_self)

lemma unat_ucast_u64: "unat (ucast (x :: u32) :: u64) = unat x"
  proof -
  have "unat x < 2 ^ LENGTH(32)" by (rule unsigned_less)
  then have "unat x < 2 ^ 64" by simp
  then show ?thesis by (simp add: unsigned_ucast_eq take_bit_nat_eq_self)
qed

lemma unat_ucast_u32: "unat (x :: u64) < 2 ^ 32 \<Longrightarrow> unat (ucast x :: u32) = unat x"
  by (simp add: unsigned_ucast_eq take_bit_nat_eq_self)

lemma unat_minus_le: "(b :: 'a::len word) \<le> a \<Longrightarrow> unat (a - b) = unat a - unat b"
  by (rule unat_sub)

lemma sint_of_int_u64: "- (2 ^ 63) \<le> n \<Longrightarrow> n < 2 ^ 63 \<Longrightarrow> sint (of_int n :: u64) = n"
  by (simp add: signed_of_int signed_take_bit_int_eq_self)

lemma sint_of_int_i32: "- (2 ^ 31) \<le> n \<Longrightarrow> n < 2 ^ 31 \<Longrightarrow> sint (of_int n :: i32) = n"
  by (simp add: signed_of_int signed_take_bit_int_eq_self)

lemmas word_nat = unat_of_nat_u32 unat_of_nat_u64 unat_ucast_u64 unat_ucast_u32

section \<open>Abnormal outcomes\<close>

text \<open>
  What ends a function of the source without a normal return: an exception of type
  runtime_error with its message, a call of exit, or an access whose behaviour C++ leaves
  undefined (an index outside a vector).
\<close>

datatype fault = Runtime_error string | Exit int | Undefined string

type_synonym 'a result = "fault + 'a"

fun and_then :: "'a result \<Rightarrow> ('a \<Rightarrow> 'b result) \<Rightarrow> 'b result" where
  "and_then (Inl e) k = Inl e"
| "and_then (Inr x) k = k x"

lemma and_then_Inr [return_iff]:
  "and_then m k = Inr y \<longleftrightarrow> (\<exists>x. m = Inr x \<and> k x = Inr y)"
  by (cases m) auto

text \<open>
  A run of code that may also never return: None; otherwise a fault or a value.
\<close>

type_synonym 'a run = "'a result option"

fun run_then :: "'a run \<Rightarrow> ('a \<Rightarrow> 'b run) \<Rightarrow> 'b run" where
  "run_then None k = None"
| "run_then (Some (Inl e)) k = Some (Inl e)"
| "run_then (Some (Inr x)) k = k x"

definition returns :: "'a \<Rightarrow> 'a run" where
  "returns x = Some (Inr x)"

definition lift_option :: "'a option \<Rightarrow> 'a run" where
  "lift_option m = (case m of None \<Rightarrow> None | Some x \<Rightarrow> returns x)"

lemma run_then_returns [simp]: "run_then (returns x) k = k x"
  by (simp add: returns_def)

lemma returns_eq [simp]:
  "returns x = returns y \<longleftrightarrow> x = y" "returns x \<noteq> None" "returns x \<noteq> Some (Inl e)"
  "None \<noteq> returns x" "Some (Inl e) \<noteq> returns x"
  by (simp_all add: returns_def)

lemma lift_option_simps [simp]:
  "lift_option None = None" "lift_option (Some x) = returns x"
  by (simp_all add: lift_option_def)

lemma run_then_iff [return_iff]:
  "run_then m k = returns y \<longleftrightarrow> (\<exists>x. m = returns x \<and> k x = returns y)"
  by (cases "(m, k)" rule: run_then.cases) (auto simp: returns_def)

section \<open>Events\<close>

text \<open>What the operations do besides computing: texts on cout, signals, pauses (in ns).\<close>

datatype event = Print string | Kill int int | Pause nat

section \<open>Safe runs\<close>

text \<open>
  A run is safe for P when it never reaches undefined behaviour, and P holds of its value if
  it has one. The rules follow the structure of a run.
\<close>

named_theorems safe_rules

fun safe :: "('a \<Rightarrow> bool) \<Rightarrow> 'a run \<Rightarrow> bool" where
  "safe P None \<longleftrightarrow> True"
| "safe P (Some (Inl (Undefined e))) \<longleftrightarrow> False"
| "safe P (Some (Inl e)) \<longleftrightarrow> True"
| "safe P (Some (Inr x)) \<longleftrightarrow> P x"

lemma safe_returns [simp]: "safe P (returns x) \<longleftrightarrow> P x"
  by (simp add: returns_def)

lemma safe_fault: "safe P (Some (Inl e)) \<longleftrightarrow> (\<forall>t. e \<noteq> Undefined t)"
  by (cases e) auto

lemma safe_lift_option [simp]: "safe P (lift_option m) \<longleftrightarrow> (\<forall>x. m = Some x \<longrightarrow> P x)"
  by (cases m) auto

lemma safe_returnsI [safe_rules]: "P x \<Longrightarrow> safe P (returns x)"
  by simp

lemma safe_liftI [safe_rules]: "(\<And>x. m = Some x \<Longrightarrow> P x) \<Longrightarrow> safe P (lift_option m)"
  by simp

lemma safe_then [safe_rules]: "safe (\<lambda>x. safe P (k x)) m \<Longrightarrow> safe P (run_then m k)"
  by (cases "(\<lambda>x. safe P (k x), m)" rule: safe.cases) auto

lemma safe_mono: "safe P m \<Longrightarrow> (\<And>x. P x \<Longrightarrow> Q x) \<Longrightarrow> safe Q m"
  by (cases "(P, m)" rule: safe.cases) auto

lemma safe_conj: "safe P m \<Longrightarrow> safe Q m \<Longrightarrow> safe (\<lambda>x. P x \<and> Q x) m"
  by (cases "(P, m)" rule: safe.cases) auto

lemma safe_if [safe_rules]: "(b \<Longrightarrow> safe P m) \<Longrightarrow> (\<not> b \<Longrightarrow> safe P n) \<Longrightarrow> safe P (if b then m else n)"
  by simp

lemma safe_value: "safe P m \<Longrightarrow> m = returns x \<Longrightarrow> P x"
  by simp

section \<open>Loops over a vector\<close>

fun for_each :: "('a \<Rightarrow> 's \<Rightarrow> 's option) \<Rightarrow> 'a list \<Rightarrow> 's \<Rightarrow> 's option" where
  "for_each f [] s = Some s"
| "for_each f (x # xs) s = (case f x s of None \<Rightarrow> None | Some s' \<Rightarrow> for_each f xs s')"

fun for_each_result :: "('a \<Rightarrow> 's \<Rightarrow> 's result) \<Rightarrow> 'a list \<Rightarrow> 's \<Rightarrow> 's result" where
  "for_each_result f [] s = Inr s"
| "for_each_result f (x # xs) s = and_then (f x s) (for_each_result f xs)"

lemma for_each_cong [fundef_cong]:
  "xs = ys \<Longrightarrow> s = t \<Longrightarrow> (\<And>x s. x \<in> set ys \<Longrightarrow> f x s = g x s) \<Longrightarrow>
   for_each f xs s = for_each g ys t"
  by (induction xs arbitrary: ys s t) (auto split: option.splits)

lemma for_each_append:
  "for_each f (xs @ ys) s = Option.bind (for_each f xs s) (for_each f ys)"
  by (induction xs arbitrary: s) (auto split: option.splits)

lemma for_each_inv:
  assumes "for_each f xs s = Some s'" and "P s"
    and "\<And>x u u'. x \<in> set xs \<Longrightarrow> P u \<Longrightarrow> f x u = Some u' \<Longrightarrow> P u'"
  shows "P s'"
  using assms
proof (induction xs arbitrary: s)
  case Nil
  then show ?case by simp
next
  case (Cons x xs)
  from Cons.prems(1) obtain u where u: "f x s = Some u" "for_each f xs u = Some s'"
    by (auto split: option.splits)
  from u(1) Cons.prems(2) have "P u" using Cons.prems(3) [of x s u] by simp
  with u(2) show ?case
    using Cons.IH [of u] Cons.prems(3) by (meson list.set_intros(2))
qed

lemma for_each_total:
  "(\<And>x s. x \<in> set xs \<Longrightarrow> f x s \<noteq> None) \<Longrightarrow> for_each f xs s \<noteq> None"
  by (induction xs arbitrary: s) (auto split: option.splits)

lemma for_each_mono:
  assumes "for_each f xs s = Some s'"
    and "\<And>x u u'. x \<in> set xs \<Longrightarrow> f x u = Some u' \<Longrightarrow> g x u = Some u'"
  shows "for_each g xs s = Some s'"
  using assms
proof (induction xs arbitrary: s)
  case Nil
  then show ?case by simp
next
  case (Cons x xs)
  from Cons.prems(1) obtain u where u: "f x s = Some u" "for_each f xs u = Some s'"
    by (auto split: option.splits)
  from u(1) have "g x s = Some u" using Cons.prems(2) by simp
  with u(2) show ?case using Cons.IH Cons.prems(2) by simp
qed

lemma for_each_bind: "for_each f (x # xs) s = Option.bind (f x s) (for_each f xs)"
  by (cases "f x s") simp_all

lemma for_each_fold:
  "(\<And>x s. x \<in> set xs \<Longrightarrow> f x s = Some (g x s)) \<Longrightarrow> for_each f xs s = Some (fold g xs s)"
  by (induction xs arbitrary: s) simp_all

lemma for_each_ok:
  assumes "P s" and "\<And>x u. x \<in> set xs \<Longrightarrow> P u \<Longrightarrow> \<exists>u'. f x u = Some u' \<and> P u'"
  shows "\<exists>s'. for_each f xs s = Some s' \<and> P s'"
  using assms
proof (induction xs arbitrary: s)
  case (Cons x xs)
  from Cons.prems obtain u where "f x s = Some u" "P u" by (metis list.set_intros(1))
  with Cons.IH [of u] Cons.prems(2) show ?case by (metis for_each.simps(2) list.set_intros(2) option.simps(5))
qed simp

lemma fold_append_filter:
  "fold (\<lambda>x l. if P x then l @ g x else l) xs l = l @ concat (map g (filter P xs))"
  by (induction xs arbitrary: l) simp_all

lemma fold_add_filter:
  "fold (\<lambda>x (a :: int). if P x then a + g x else a) xs a = a + sum_list (map g (filter P xs))"
  by (induction xs arbitrary: a) simp_all

lemma fold_fold_filter:
  "fold (\<lambda>x s. if P x then fold f (g x) s else s) xs s = fold f (concat (map g (filter P xs))) s"
  by (induction xs arbitrary: s) simp_all

text \<open>Recursive calls may stand in the body of a loop.\<close>

lemma for_each_mono_option [partial_function_mono]:
  assumes "\<And>x s. mono_option (\<lambda>f. B f x s)"
  shows "mono_option (\<lambda>f. for_each (\<lambda>x s. B f x s) xs s)"
proof (induction xs arbitrary: s)
  case Nil
  show ?case by (simp add: option.const_mono)
next
  case (Cons x xs)
  show ?case unfolding for_each_bind by (intro bind_mono assms Cons.IH)
qed

section \<open>Characters\<close>

text \<open>Character codes, and the classes isspace and isdigit in the C locale.\<close>

abbreviation code_of :: "char \<Rightarrow> nat" where
  "code_of c \<equiv> of_char c"

definition newline :: char where
  "newline = CHR 0x0A"

definition tab :: char where
  "tab = CHR 0x09"

definition isspace :: "char \<Rightarrow> bool" where
  "isspace c \<longleftrightarrow> code_of c = 32 \<or> 9 \<le> code_of c \<and> code_of c \<le> 13"

definition isdigit :: "char \<Rightarrow> bool" where
  "isdigit c \<longleftrightarrow> 48 \<le> code_of c \<and> code_of c \<le> 57"

definition digit_value :: "char \<Rightarrow> nat" where
  "digit_value c = code_of c - 48"

definition digit_char :: "nat \<Rightarrow> char" where
  "digit_char d = char_of (48 + d)"

lemma code_digit_char: "d < 10 \<Longrightarrow> code_of (digit_char d) = 48 + d"
  by (simp add: digit_char_def)

lemma isdigit_digit_char [simp]: "d < 10 \<Longrightarrow> isdigit (digit_char d)"
  by (simp add: isdigit_def code_digit_char)

lemma digit_value_digit_char [simp]: "d < 10 \<Longrightarrow> digit_value (digit_char d) = d"
  by (simp add: digit_value_def code_digit_char)

lemma isspace_blank [simp]: "isspace (CHR '' '')" "isspace tab" "isspace newline"
  by (simp_all add: isspace_def tab_def newline_def)

lemma isdigit_not_space: "isdigit c \<Longrightarrow> \<not> isspace c"
  by (auto simp: isdigit_def isspace_def)

section \<open>Decimal numbers\<close>

fun dec_nat :: "nat \<Rightarrow> string" where
  "dec_nat n =
     (if n < 10 then [digit_char n] else dec_nat (n div 10) @ [digit_char (n mod 10)])"

declare dec_nat.simps [simp del]

definition dec_int :: "int \<Rightarrow> string" where
  "dec_int i = (if i < 0 then ''-'' @ dec_nat (nat (- i)) else dec_nat (nat i))"

definition digits_value :: "string \<Rightarrow> nat" where
  "digits_value cs = foldl (\<lambda>a c. 10 * a + digit_value c) 0 cs"

lemma dec_nat_small: "n < 10 \<Longrightarrow> dec_nat n = [digit_char n]"
  by (simp add: dec_nat.simps)

lemma dec_nat_nonempty [simp]: "dec_nat n \<noteq> []"
  by (subst dec_nat.simps) simp

lemma dec_nat_digits: "list_all isdigit (dec_nat n)"
proof (induction n rule: dec_nat.induct)
  case (1 n)
  show ?case
    by (subst dec_nat.simps) (auto simp: "1.IH")
qed

lemma digits_value_snoc: "digits_value (cs @ [c]) = 10 * digits_value cs + digit_value c"
  by (simp add: digits_value_def)

lemma digits_value_dec_nat [simp]: "digits_value (dec_nat n) = n"
proof (induction n rule: dec_nat.induct)
  case (1 n)
  show ?case
  proof (cases "n < 10")
    case True
    then show ?thesis by (simp add: dec_nat.simps digits_value_def)
  next
    case False
    then have "digits_value (dec_nat n) = 10 * digits_value (dec_nat (n div 10)) + n mod 10"
      by (subst dec_nat.simps) (simp add: digits_value_snoc)
    with False "1.IH" show ?thesis by simp
  qed
qed

lemma length_dec_nat: "n < 10 ^ Suc k \<Longrightarrow> length (dec_nat n) \<le> Suc k"
proof (induction k arbitrary: n)
  case 0
  then show ?case by (simp add: dec_nat_small)
next
  case (Suc k)
  show ?case
  proof (cases "n < 10")
    case True
    then show ?thesis by (simp add: dec_nat_small)
  next
    case False
    from Suc.prems have "n div 10 < 10 ^ Suc k"
      by (simp add: less_mult_imp_div_less mult.commute)
    then have "length (dec_nat (n div 10)) \<le> Suc k" by (rule Suc.IH)
    with False show ?thesis by (subst dec_nat.simps) simp
  qed
qed

lemma length_dec_int:
  assumes "\<bar>i\<bar> < 10 ^ Suc k"
  shows "length (dec_int i) \<le> Suc (Suc k)"
proof -
  have "nat \<bar>i\<bar> < 10 ^ Suc k" using assms by (simp add: nat_less_iff)
  then have "length (dec_nat (nat \<bar>i\<bar>)) \<le> Suc k" by (rule length_dec_nat)
  then show ?thesis by (simp add: dec_int_def abs_if split: if_splits)
qed

lemma newline_dec_int: "newline \<notin> set (dec_int i)"
proof -
  have "newline \<notin> set (dec_nat n)" for n
    using dec_nat_digits [of n] by (auto simp: list_all_iff isdigit_def newline_def)
  then show ?thesis by (simp add: dec_int_def newline_def)
qed

end
