(* ===== verification/Machine_Float.thy ===== *)
theory Machine_Float
  imports Runsolver_Prelude "HOL-Library.Log_Nat"
begin

text \<open>
  The C++ types float and double as the source uses them: exact rationals, rounded to the
  nearest value with 24 (float) or 53 (double) significant bits, ties to even, after every
  operation. The exponent range is not bounded (no infinities, subnormals or NaN: the
  quantities of the program are times in seconds and proportions).
\<close>

section \<open>Rounding\<close>

definition round_even :: "rat \<Rightarrow> int" where
  "round_even x =
     (let f = \<lfloor>x\<rfloor>; r = x - of_int f
      in if r < 1 / 2 then f else if 1 / 2 < r then f + 1
         else if even f then f else f + 1)"

definition exponent :: "rat \<Rightarrow> int" where
  "exponent x =
     (let (n, d) = quotient_of x; e = int (floorlog 2 (nat n)) - int (floorlog 2 (nat d))
      in if 2 powi e \<le> x then e else e - 1)"

definition fl_pos :: "nat \<Rightarrow> rat \<Rightarrow> rat" where
  "fl_pos p x =
     (let u = exponent x - (int p - 1)
      in of_int (round_even (x / 2 powi u)) * 2 powi u)"

definition fl :: "nat \<Rightarrow> rat \<Rightarrow> rat" where
  "fl p x = (if x = 0 then 0 else if x < 0 then - fl_pos p (- x) else fl_pos p x)"

abbreviation flt :: "rat \<Rightarrow> rat" where
  "flt \<equiv> fl 24"

abbreviation dbl :: "rat \<Rightarrow> rat" where
  "dbl \<equiv> fl 53"

section \<open>Rounding to an integer\<close>

lemma round_even_of_int [simp]: "round_even (of_int i) = i"
  by (simp add: round_even_def)

lemma round_even_bounds: "\<lfloor>x\<rfloor> \<le> round_even x" "round_even x \<le> \<lfloor>x\<rfloor> + 1"
  by (simp_all add: round_even_def Let_def)

lemma round_even_mono:
  assumes "x \<le> y"
  shows "round_even x \<le> round_even y"
proof (cases "\<lfloor>x\<rfloor> = \<lfloor>y\<rfloor>")
  case True
  with assms show ?thesis by (auto simp: round_even_def Let_def)
next
  case False
  with assms have "\<lfloor>x\<rfloor> + 1 \<le> \<lfloor>y\<rfloor>"
    using floor_mono [of x y] by linarith
  then show ?thesis
    using round_even_bounds(2) [of x] round_even_bounds(1) [of y] by linarith
qed

section \<open>The binary exponent\<close>

lemma quotient_of_pos:
  assumes "quotient_of x = (n, d)" and "0 < x"
  shows "0 < n" and "0 < d" and "x = of_int n / of_int d"
proof -
  show d: "0 < d" using assms(1) by (rule quotient_of_denom_pos)
  show x: "x = of_int n / of_int d" using assms(1) by (rule quotient_of_div)
  from assms(2) d show "0 < n" unfolding x by (simp add: zero_less_divide_iff)
qed

lemma floorlog_2_bounds:
  assumes "0 < n"
  shows "2 ^ (floorlog 2 n - 1) \<le> n" and "n < 2 ^ floorlog 2 n" and "0 < floorlog 2 n"
  using floorlog_bounds [of n 2] assms by (simp_all add: floorlog_def)

lemma exponent_bounds:
  assumes "0 < x"
  shows "2 powi exponent x \<le> x" and "x < 2 powi (exponent x + 1)"
proof -
  obtain n d where nd: "quotient_of x = (n, d)" by (cases "quotient_of x")
  note q = quotient_of_pos [OF nd assms]
  define a b where "a = floorlog 2 (nat n)" and "b = floorlog 2 (nat d)"
  define e where "e = int a - int b"
  have exp: "exponent x = (if 2 powi e \<le> x then e else e - 1)"
    by (simp add: exponent_def nd a_def b_def e_def)
  from q(1) have a: "2 ^ (a - 1) \<le> nat n" "nat n < 2 ^ a" "0 < a"
    using floorlog_2_bounds [of "nat n"] by (simp_all add: a_def)
  from q(2) have b: "2 ^ (b - 1) \<le> nat d" "nat d < 2 ^ b" "0 < b"
    using floorlog_2_bounds [of "nat d"] by (simp_all add: b_def)
  have rn: "rat_of_nat (nat n) = of_int n" and rd: "rat_of_nat (nat d) = of_int d"
    using q(1,2) by simp_all
  have n1: "(2::rat) ^ (a - 1) \<le> of_int n" and n2: "of_int n < (2::rat) ^ a"
    using a(1,2) unfolding rn [symmetric]
    by (metis of_nat_le_iff of_nat_numeral of_nat_power)
       (metis a(2) of_nat_less_iff of_nat_numeral of_nat_power)
  have d1: "(2::rat) ^ (b - 1) \<le> of_int d" and d2: "of_int d < (2::rat) ^ b"
    using b(1,2) unfolding rd [symmetric]
    by (metis of_nat_le_iff of_nat_numeral of_nat_power)
       (metis b(2) of_nat_less_iff of_nat_numeral of_nat_power)
  have pa: "(2::rat) powi int a = 2 ^ a" and pb: "(2::rat) powi int b = 2 ^ b"
    by simp_all
  have up: "x < 2 powi (e + 1)"
  proof -
    have "x < 2 ^ a / 2 ^ (b - 1)"
      unfolding q(3) using n2 d1 q(1) by (intro frac_less) simp_all
    also have "\<dots> = 2 powi (int a - int (b - 1))"
      by (simp add: power_int_diff)
    also have "int a - int (b - 1) = e + 1" using b(3) by (simp add: e_def)
    finally show ?thesis .
  qed
  have low: "2 powi (e - 1) \<le> x"
  proof -
    have "2 powi (e - 1) = 2 powi (int (a - 1) - int b)"
      using a(3) by (simp add: e_def algebra_simps)
    also have "\<dots> = 2 ^ (a - 1) / (2::rat) ^ b" by (simp add: power_int_diff)
    also have "\<dots> \<le> x"
      unfolding q(3) using n1 d2 q(1,2) by (intro frac_le) simp_all
    finally show ?thesis .
  qed
  show "2 powi exponent x \<le> x" using low by (simp add: exp)
  show "x < 2 powi (exponent x + 1)" using up by (auto simp: exp)
qed

lemma powi_less_iff: "(2::rat) powi m < 2 powi n \<longleftrightarrow> m < n"
proof
  assume *: "(2::rat) powi m < 2 powi n"
  show "m < n"
  proof (rule ccontr)
    assume "\<not> m < n"
    then have "(2::rat) powi n \<le> 2 powi m" by (intro power_int_increasing) simp_all
    with * show False by simp
  qed
qed (simp add: power_int_strict_increasing)

lemma exponent_unique:
  assumes "0 < x" and "2 powi e \<le> x" and "x < 2 powi (e + 1)"
  shows "exponent x = e"
proof -
  have "(2::rat) powi exponent x < 2 powi (e + 1)"
    using exponent_bounds(1) [OF assms(1)] assms(3) by linarith
  moreover have "(2::rat) powi e < 2 powi (exponent x + 1)"
    using exponent_bounds(2) [OF assms(1)] assms(2) by linarith
  ultimately show ?thesis by (simp add: powi_less_iff)
qed

lemma exponent_mono:
  assumes "0 < x" and "x \<le> y"
  shows "exponent x \<le> exponent y"
proof -
  have "(2::rat) powi exponent x < 2 powi (exponent y + 1)"
    using exponent_bounds(1) [OF assms(1)] exponent_bounds(2) [of y] assms by linarith
  then show ?thesis by (simp add: powi_less_iff)
qed

section \<open>Rounding to a float\<close>

lemma fl_pos_binade:
  assumes "0 < x" and "0 < p"
  shows "2 powi exponent x \<le> fl_pos p x" and "fl_pos p x \<le> 2 powi (exponent x + 1)"
proof -
  define u where "u = exponent x - (int p - 1)"
  have u: "0 < (2::rat) powi u" by simp
  have lo: "(2::rat) ^ (p - 1) * 2 powi u = 2 powi exponent x"
    and hi: "(2::rat) ^ p * 2 powi u = 2 powi (exponent x + 1)"
    using assms(2) by (simp_all add: u_def flip: power_int_of_nat power_int_add)
  have "(2::rat) ^ (p - 1) \<le> x / 2 powi u"
    using exponent_bounds(1) [OF assms(1)] u by (simp only: pos_le_divide_eq lo)
  then have "round_even (of_int (2 ^ (p - 1))) \<le> round_even (x / 2 powi u)"
    by (intro round_even_mono) simp
  then have "2 ^ (p - 1) \<le> round_even (x / 2 powi u)" by (simp only: round_even_of_int)
  then have "rat_of_int (2 ^ (p - 1)) \<le> of_int (round_even (x / 2 powi u))"
    by (simp only: of_int_le_iff)
  then show "2 powi exponent x \<le> fl_pos p x"
    using u by (simp add: fl_pos_def Let_def flip: lo u_def)
  have "x / 2 powi u \<le> (2::rat) ^ p"
    using exponent_bounds(2) [OF assms(1)] u by (simp only: pos_divide_le_eq hi less_imp_le)
  then have "round_even (x / 2 powi u) \<le> round_even (of_int (2 ^ p))"
    by (intro round_even_mono) simp
  then have "round_even (x / 2 powi u) \<le> 2 ^ p" by (simp only: round_even_of_int)
  then have "rat_of_int (round_even (x / 2 powi u)) \<le> of_int (2 ^ p)"
    by (simp only: of_int_le_iff)
  then show "fl_pos p x \<le> 2 powi (exponent x + 1)"
    using u by (simp add: fl_pos_def Let_def flip: hi u_def)
qed

lemma fl_pos_mono:
  assumes "0 < x" and "x \<le> y" and "0 < p"
  shows "fl_pos p x \<le> fl_pos p y"
proof (cases "exponent x = exponent y")
  case True
  define u where "u = exponent x - (int p - 1)"
  have "x / 2 powi u \<le> y / 2 powi u" using assms(2) by (simp add: divide_right_mono)
  then have "round_even (x / 2 powi u) \<le> round_even (y / 2 powi u)" by (rule round_even_mono)
  then show ?thesis
    by (simp add: fl_pos_def Let_def True [symmetric] flip: u_def)
next
  case False
  with exponent_mono [OF assms(1,2)] have "exponent x + 1 \<le> exponent y" by simp
  then have "(2::rat) powi (exponent x + 1) \<le> 2 powi exponent y"
    by (intro power_int_increasing) simp_all
  with fl_pos_binade [OF assms(1,3)] fl_pos_binade [of y p] assms show ?thesis by simp
qed

lemma fl_pos_positive: "0 < x \<Longrightarrow> 0 < p \<Longrightarrow> 0 < fl_pos p x"
  using fl_pos_binade(1) [of x p] by (simp add: less_le_trans [rotated])

lemma fl_mono:
  assumes "x \<le> y" and "0 < p"
  shows "fl p x \<le> fl p y"
proof -
  consider "0 < x" | "y < 0" | "x \<le> 0" "0 \<le> y" by linarith
  then show ?thesis
  proof cases
    case 1
    with assms show ?thesis by (simp add: fl_def fl_pos_mono)
  next
    case 2
    with assms show ?thesis by (simp add: fl_def fl_pos_mono)
  next
    case 3
    then have "fl p x \<le> 0"
      using fl_pos_positive [of "- x" p] assms(2) by (cases "x = 0") (simp_all add: fl_def)
    moreover have "0 \<le> fl p y"
      using 3 fl_pos_positive [of y p] assms(2) by (cases "y = 0") (simp_all add: fl_def)
    ultimately show ?thesis by simp
  qed
qed

lemma fl_zero [simp]: "fl p 0 = 0"
  by (simp add: fl_def)

lemma fl_nonneg: "0 \<le> x \<Longrightarrow> 0 < p \<Longrightarrow> 0 \<le> fl p x"
  using fl_mono [of 0 x p] by simp

text \<open>Integers with at most p significant bits are represented exactly.\<close>

lemma fl_of_nat:
  assumes "n < 2 ^ p" and "0 < p"
  shows "fl p (of_nat n) = of_nat n"
proof (cases "n = 0")
  case True
  then show ?thesis by simp
next
  case False
  then have pos: "0 < rat_of_nat n" by simp
  define e where "e = exponent (rat_of_nat n)"
  have "(2::rat) powi e \<le> of_nat n" using exponent_bounds(1) [OF pos] by (simp add: e_def)
  also have "\<dots> < 2 ^ p" using assms(1) by (metis of_nat_less_iff of_nat_numeral of_nat_power)
  finally have "(2::rat) powi e < 2 powi int p" by simp
  then have e: "e < int p" by (simp only: powi_less_iff)
  define k where "k = nat (int p - 1 - e)"
  have k: "e - (int p - 1) = - int k" using e by (simp add: k_def)
  have "fl p (of_nat n) = of_int (round_even (of_nat n * 2 ^ k)) / 2 ^ k"
    using pos by (simp add: fl_def fl_pos_def k power_int_minus divide_inverse flip: e_def)
  also have "rat_of_nat n * 2 ^ k = of_int (int n * 2 ^ k)" by simp
  finally show ?thesis by (simp only: round_even_of_int) simp
qed

corollary fl_of_int:
  assumes "\<bar>i\<bar> < 2 ^ p" and "0 < p"
  shows "fl p (of_int i) = of_int i"
proof (cases "0 \<le> i")
  case True
  with assms show ?thesis using fl_of_nat [of "nat i" p] by (simp add: nat_less_iff)
next
  case False
  with assms have "fl p (of_int (- i)) = of_int (- i)"
    using fl_of_nat [of "nat (- i)" p] by (simp add: nat_less_iff)
  with False show ?thesis by (simp add: fl_def)
qed

section \<open>Rounding twice\<close>

lemma fl_pos_idem:
  assumes "0 < x" and "0 < p"
  shows "fl_pos p (fl_pos p x) = fl_pos p x"
proof -
  define e u where "e = exponent x" and "u = e - (int p - 1)"
  define k where "k = round_even (x / 2 powi u)"
  have y: "fl_pos p x = of_int k * 2 powi u" by (simp add: fl_pos_def Let_def k_def u_def e_def)
  note b = fl_pos_binade [OF assms, folded e_def]
  have pos: "0 < fl_pos p x" using assms by (rule fl_pos_positive)
  show ?thesis
  proof (cases "fl_pos p x = 2 powi (e + 1)")
    case False
    with b pos have "exponent (fl_pos p x) = e" by (intro exponent_unique) simp_all
    then have "fl_pos p (fl_pos p x) = of_int (round_even (fl_pos p x / 2 powi u)) * 2 powi u"
      unfolding fl_pos_def [of p "fl_pos p x"] Let_def by (simp add: u_def)
    also have "fl_pos p x / 2 powi u = of_int k" by (simp add: y)
    finally show ?thesis by (simp add: y)
  next
    case True
    have "(2::rat) powi (e + 1) < 2 powi (e + 1 + 1)" by (simp add: powi_less_iff)
    then have e1: "exponent (2 powi (e + 1)) = e + 1" by (intro exponent_unique) simp_all
    have "(2::rat) powi (e + 1) / 2 powi (u + 1) = 2 powi (e - u)"
      by (simp flip: power_int_diff)
    also have "e - u = int (p - 1)" using assms(2) by (simp add: u_def)
    also have "(2::rat) powi int (p - 1) = of_int (2 ^ (p - 1))" by simp
    finally have q: "(2::rat) powi (e + 1) / 2 powi (u + 1) = of_int (2 ^ (p - 1))" .
    have u1: "e + 1 - (int p - 1) = u + 1" by (simp add: u_def)
    have "fl_pos p (2 powi (e + 1)) = of_int (round_even (2 powi (e + 1) / 2 powi (u + 1))) * 2 powi (u + 1)"
      by (simp only: fl_pos_def Let_def e1 u1)
    also have "\<dots> = 2 powi (e + 1)"
      unfolding q round_even_of_int unfolding q [symmetric] by simp
    finally show ?thesis by (simp add: True)
  qed
qed

lemma fl_fl: "0 < p \<Longrightarrow> fl p (fl p x) = fl p x"
  using fl_pos_positive [of x p] fl_pos_positive [of "- x" p] fl_pos_idem [of x p] fl_pos_idem [of "- x" p]
  by (auto simp: fl_def)

section \<open>Doubling\<close>

lemma exponent_double: "0 < x \<Longrightarrow> exponent (2 * x) = exponent x + 1"
  using exponent_bounds [of x] by (intro exponent_unique) (simp_all add: power_int_add)

lemma fl_pos_double:
  assumes "0 < x"
  shows "fl_pos p (2 * x) = 2 * fl_pos p x"
proof -
  define u where "u = exponent x - (int p - 1)"
  have u1: "exponent x + 1 - (int p - 1) = u + 1" by (simp add: u_def)
  have "fl_pos p (2 * x) = of_int (round_even (2 * x / 2 powi (u + 1))) * 2 powi (u + 1)"
    by (simp only: fl_pos_def Let_def exponent_double [OF assms] u1)
  also have "2 * x / 2 powi (u + 1) = x / 2 powi u" by (simp add: power_int_add)
  also have "of_int (round_even (x / 2 powi u)) * 2 powi (u + 1) = 2 * fl_pos p x"
    by (simp add: fl_pos_def Let_def power_int_add flip: u_def)
  finally show ?thesis .
qed

lemma fl_double: "fl p (2 * x) = 2 * fl p x"
  using fl_pos_double [of x p] fl_pos_double [of "- x" p] by (simp add: fl_def)

lemma fl_double_power: "fl p (2 ^ k * x) = 2 ^ k * fl p x"
  using fl_double [of p "2 ^ n * x" for n] by (induction k) (simp_all add: mult.assoc)

end
