(* ===== verification/Streams.thy ===== *)
theory Streams
  imports Machine_Float
begin

text \<open>
  The parts of iostreams and of sscanf that the source reads text with: an input stream over
  a string with its eof and fail bits, the extraction operators, getline, peek and get, and
  a scanner for the conversions of a scanf format.
\<close>

section \<open>Input streams\<close>

record istream =
  rest :: string
  eofbit :: bool
  failbit :: bool

definition open_stream :: "string \<Rightarrow> istream" where
  "open_stream s = \<lparr>rest = s, eofbit = False, failbit = False\<rparr>"

definition good :: "istream \<Rightarrow> bool" where
  "good i \<longleftrightarrow> \<not> eofbit i \<and> \<not> failbit i"

text \<open>
  The sentry of a formatted extraction skips white space; reaching the end of the stream
  there sets both bits. None when the extraction must not go on.
\<close>

definition sentry :: "istream \<Rightarrow> istream \<times> bool" where
  "sentry i =
     (if \<not> good i then (i\<lparr>failbit := True\<rparr>, False)
      else let r = dropWhile isspace (rest i)
           in if r = [] then (i\<lparr>rest := [], eofbit := True, failbit := True\<rparr>, False)
              else (i\<lparr>rest := r\<rparr>, True))"

text \<open>\<open>in >> s\<close>: the old value of s stays when the sentry fails.\<close>

definition in_word :: "string \<Rightarrow> istream \<Rightarrow> string \<times> istream" where
  "in_word old i =
     (case sentry i of
        (i, False) \<Rightarrow> (old, i)
      | (i, True) \<Rightarrow>
          let word = takeWhile (\<lambda>c. \<not> isspace c) (rest i);
              r = dropWhile (\<lambda>c. \<not> isspace c) (rest i)
          in (word, i\<lparr>rest := r, eofbit := (r = [])\<rparr>))"

text \<open>
  An unsigned number: an optional sign and digits. Without digits the value is 0 and the
  extraction fails; a value too large is cut to the largest one and fails; a minus sign
  negates modulo the width.
\<close>

definition in_unsigned :: "nat \<Rightarrow> nat \<Rightarrow> istream \<Rightarrow> nat \<times> istream" where
  "in_unsigned width old i =
     (case sentry i of
        (i, False) \<Rightarrow> (old, i)
      | (i, True) \<Rightarrow>
          let minus = (hd (rest i) = CHR ''-'');
              r = (if minus \<or> hd (rest i) = CHR ''+'' then tl (rest i) else rest i);
              ds = takeWhile isdigit r;
              r = dropWhile isdigit r;
              v = digits_value ds;
              i = i\<lparr>rest := r, eofbit := (r = [])\<rparr>
          in if ds = [] then (0, i\<lparr>failbit := True\<rparr>)
             else if 2 ^ width \<le> v then (2 ^ width - 1, i\<lparr>failbit := True\<rparr>)
             else (if minus \<and> v \<noteq> 0 then 2 ^ width - v else v, i))"

text \<open>A signed number of the type long (64 bits).\<close>

definition in_long :: "int \<Rightarrow> istream \<Rightarrow> int \<times> istream" where
  "in_long old i =
     (case sentry i of
        (i, False) \<Rightarrow> (old, i)
      | (i, True) \<Rightarrow>
          let minus = (hd (rest i) = CHR ''-'');
              r = (if minus \<or> hd (rest i) = CHR ''+'' then tl (rest i) else rest i);
              ds = takeWhile isdigit r;
              r = dropWhile isdigit r;
              v = (if minus then - int (digits_value ds) else int (digits_value ds));
              i = i\<lparr>rest := r, eofbit := (r = [])\<rparr>
          in if ds = [] then (0, i\<lparr>failbit := True\<rparr>)
             else if v < - (2 ^ 63) then (- (2 ^ 63), i\<lparr>failbit := True\<rparr>)
             else if 2 ^ 63 \<le> v then (2 ^ 63 - 1, i\<lparr>failbit := True\<rparr>)
             else (v, i))"

text \<open>
  A float in the notation digits, point, digits (the one of /proc/uptime; exponents are not
  read).
\<close>

definition in_float :: "rat \<Rightarrow> istream \<Rightarrow> rat \<times> istream" where
  "in_float old i =
     (case sentry i of
        (i, False) \<Rightarrow> (old, i)
      | (i, True) \<Rightarrow>
          let ds = takeWhile isdigit (rest i);
              r = dropWhile isdigit (rest i);
              fs = (if r \<noteq> [] \<and> hd r = CHR ''.'' then takeWhile isdigit (tl r) else []);
              r = (if r \<noteq> [] \<and> hd r = CHR ''.'' then dropWhile isdigit (tl r) else r);
              i = i\<lparr>rest := r, eofbit := (r = [])\<rparr>
          in if ds = [] \<and> fs = [] then (0, i\<lparr>failbit := True\<rparr>)
             else (flt (of_nat (digits_value (ds @ fs)) / 10 ^ length fs), i))"

text \<open>getline reads up to the next newline, which it removes; nothing read is a failure.\<close>

definition in_getline :: "string \<Rightarrow> istream \<Rightarrow> string \<times> istream" where
  "in_getline old i =
     (if \<not> good i then (old, i\<lparr>failbit := True\<rparr>)
      else let l = takeWhile (\<lambda>c. c \<noteq> newline) (rest i);
               r = dropWhile (\<lambda>c. c \<noteq> newline) (rest i)
           in (l, if r = [] then i\<lparr>rest := [], eofbit := True, failbit := (l = [])\<rparr>
                  else i\<lparr>rest := tl r\<rparr>))"

text \<open>peek and get; None stands for the value EOF.\<close>

definition in_peek :: "istream \<Rightarrow> char option \<times> istream" where
  "in_peek i =
     (if \<not> good i then (None, i\<lparr>failbit := True\<rparr>)
      else case rest i of [] \<Rightarrow> (None, i\<lparr>eofbit := True\<rparr>) | c # _ \<Rightarrow> (Some c, i))"

definition in_get :: "istream \<Rightarrow> char option \<times> istream" where
  "in_get i =
     (if \<not> good i then (None, i\<lparr>failbit := True\<rparr>)
      else case rest i of [] \<Rightarrow> (None, i\<lparr>eofbit := True, failbit := True\<rparr>)
           | c # cs \<Rightarrow> (Some c, i\<lparr>rest := cs\<rparr>))"

lemma good_open [simp]: "good (open_stream s)"
  by (simp add: good_def open_stream_def)

lemma rest_open [simp]: "rest (open_stream s) = s"
  by (simp add: open_stream_def)

section \<open>Loops that read a stream\<close>

text \<open>
  A loop that runs while the stream is good and reads at least a line in every turn ends: the
  measure is the number of characters left, with one more while the stream is good.
\<close>

lemma length_dropWhile_newline:
  "dropWhile P xs = y # ys \<Longrightarrow> length ys < length xs"
  using length_dropWhile_le [of P xs] by simp

lemma in_getline_shorter:
  "in_getline old i = (l, i') \<Longrightarrow> good i \<Longrightarrow> length (rest i') < length (rest i) \<or> \<not> good i'"
  by (cases "dropWhile (\<lambda>c. c \<noteq> newline) (rest i)")
    (auto simp: in_getline_def Let_def good_def length_dropWhile_newline)

lemma in_word_le: "length (rest (snd (in_word old i))) \<le> length (rest i)"
  by (auto simp: in_word_def sentry_def Let_def good_def intro: le_trans [OF length_dropWhile_le]
      length_dropWhile_le split: prod.splits bool.splits)

lemma in_get_le: "length (rest (snd (in_get i))) \<le> length (rest i)"
  by (auto simp: in_get_def split: list.splits)

definition stream_measure :: "istream \<Rightarrow> nat" where
  "stream_measure i = (if good i then Suc (length (rest i)) else 0)"

lemma in_unsigned_le: "length (rest (snd (in_unsigned n old i))) \<le> length (rest i)"
proof -
  define r where "r = dropWhile isspace (rest i)"
  have r: "length r \<le> length (rest i)" by (simp add: r_def length_dropWhile_le)
  have "length (dropWhile isdigit r) \<le> length (rest i)"
    "length (dropWhile isdigit (tl r)) \<le> length (rest i)"
    using r by (auto intro: le_trans [OF length_dropWhile_le] simp: le_trans [OF length_dropWhile_le])
  then show ?thesis
    by (auto simp: in_unsigned_def sentry_def Let_def r_def split: prod.splits bool.splits if_splits)
qed

lemma getline_after:
  assumes "length (rest i1) \<le> length (rest i)" and "good i" and "in_getline old i1 = (l, i')"
  shows "stream_measure i' < stream_measure i"
proof (cases "good i1")
  case True
  with in_getline_shorter [OF assms(3)] assms(1,2) show ?thesis by (auto simp: stream_measure_def)
next
  case False
  with assms show ?thesis by (auto simp: stream_measure_def in_getline_def good_def)
qed

lemma in_word_tab:
  assumes "w \<noteq> []" and "\<forall>c\<in>set w. \<not> isspace c"
  shows "in_word old (open_stream (w @ tab # r)) = (w, open_stream (tab # r))"
proof -
  have tw: "takeWhile (\<lambda>c. \<not> isspace c) (w @ tab # r) = w"
    "dropWhile (\<lambda>c. \<not> isspace c) (w @ tab # r) = tab # r"
    using assms by simp_all
  have "dropWhile isspace (w @ tab # r) = w @ tab # r"
    using assms by (cases w) auto
  then have "sentry (open_stream (w @ tab # r)) = (open_stream (w @ tab # r), True)"
    using assms(1) by (simp add: sentry_def open_stream_def good_def)
  with tw show ?thesis by (simp add: in_word_def open_stream_def)
qed

lemma in_getline_line:
  "newline \<notin> set l \<Longrightarrow> in_getline old (open_stream (l @ newline # r)) = (l, open_stream r)"
proof -
  assume "newline \<notin> set l"
  then have "takeWhile (\<lambda>c. c \<noteq> newline) (l @ newline # r) = l"
    "dropWhile (\<lambda>c. c \<noteq> newline) (l @ newline # r) = newline # r" by (induction l) auto
  then show ?thesis by (simp add: in_getline_def open_stream_def good_def)
qed

section \<open>Scanning with a format\<close>

text \<open>
  The conversions of the source's formats: assigned and skipped integers, skipped words and
  skipped characters. Every conversion is preceded by white space in the format, which
  matches any amount of white space in the input.
\<close>

datatype conversion = Skip_int | Skip_word | Skip_char | Get_int | Get_ulong

text \<open>One number: an optional sign and at least one digit.\<close>

definition scan_int :: "string \<Rightarrow> (int \<times> string) option" where
  "scan_int s =
     (let s = dropWhile isspace s;
          sign = (s \<noteq> [] \<and> (hd s = CHR ''-'' \<or> hd s = CHR ''+''));
          r = (if sign then tl s else s);
          ds = takeWhile isdigit r;
          v = int (digits_value ds)
      in if ds = [] then None
         else Some (if sign \<and> hd s = CHR ''-'' then - v else v, dropWhile isdigit r))"

text \<open>
  \<open>scan\<close> returns the values assigned, in order; scanf stops at the first conversion that
  does not match, so the number of values is the result of scanf. A number too large for
  unsigned long is cut to the largest one, a negative one is taken modulo 2 ^ 64.
\<close>

definition ulong_of :: "int \<Rightarrow> u64" where
  "ulong_of i = (if \<bar>i\<bar> < 2 ^ 64 then of_int i else - 1)"

datatype scanned = Int_value int | Ulong_value u64

fun scan :: "conversion list \<Rightarrow> string \<Rightarrow> scanned list" where
  "scan [] s = []"
| "scan (Skip_int # cs) s = (case scan_int s of None \<Rightarrow> [] | Some (_, r) \<Rightarrow> scan cs r)"
| "scan (Skip_word # cs) s =
     (let s = dropWhile isspace s
      in if s = [] then [] else scan cs (dropWhile (\<lambda>c. \<not> isspace c) s))"
| "scan (Skip_char # cs) s =
     (case dropWhile isspace s of [] \<Rightarrow> [] | _ # r \<Rightarrow> scan cs r)"
| "scan (Get_int # cs) s =
     (case scan_int s of None \<Rightarrow> [] | Some (v, r) \<Rightarrow> Int_value v # scan cs r)"
| "scan (Get_ulong # cs) s =
     (case scan_int s of None \<Rightarrow> [] | Some (v, r) \<Rightarrow> Ulong_value (ulong_of v) # scan cs r)"

section \<open>Numbers written and read again\<close>

definition no_digit_first :: "string \<Rightarrow> bool" where
  "no_digit_first r \<longleftrightarrow> r = [] \<or> \<not> isdigit (hd r)"

lemma takeWhile_dec_nat:
  "no_digit_first r \<Longrightarrow> takeWhile isdigit (dec_nat n @ r) = dec_nat n"
  "no_digit_first r \<Longrightarrow> dropWhile isdigit (dec_nat n @ r) = r"
  using dec_nat_digits [of n]
  by (auto simp: no_digit_first_def list_all_iff takeWhile_append dropWhile_append3
      dest: hd_in_set split: if_splits) (cases r; auto)+

lemma isdigit_sign: "\<not> isdigit (CHR ''-'')" "\<not> isdigit (CHR ''+'')"
  by (simp_all add: isdigit_def)

lemma isspace_sign: "\<not> isspace (CHR ''-'')"
  by (simp add: isspace_def)

lemma hd_dec_nat: "isdigit (hd (dec_nat n @ r))" "hd (dec_nat n) \<noteq> CHR ''-''"
    "hd (dec_nat n) \<noteq> CHR ''+''"
proof -
  have *: "isdigit (hd (dec_nat n))"
    using dec_nat_digits [of n] by (simp add: list_all_iff)
  then show "isdigit (hd (dec_nat n @ r))" by simp
  show "hd (dec_nat n) \<noteq> CHR ''-''" "hd (dec_nat n) \<noteq> CHR ''+''"
    using * isdigit_sign by metis+
qed

lemma dropWhile_space_digit: "isdigit (hd s) \<Longrightarrow> s \<noteq> [] \<Longrightarrow> dropWhile isspace s = s"
  by (cases s) (auto dest: isdigit_not_space)

lemma scan_int_dec_nat:
  assumes "no_digit_first r"
  shows "scan_int (dec_nat n @ r) = Some (int n, r)"
proof -
  have skip: "dropWhile isspace (dec_nat n @ r) = dec_nat n @ r"
    by (intro dropWhile_space_digit hd_dec_nat) simp
  show ?thesis using assms hd_dec_nat(2,3) [of n]
    by (simp only: scan_int_def skip Let_def) (simp add: takeWhile_dec_nat)
qed

lemma scan_int_dec_int:
  assumes "no_digit_first r"
  shows "scan_int (dec_int i @ r) = Some (i, r)"
proof (cases "i < 0")
  case True
  then show ?thesis using assms
    by (simp add: dec_int_def scan_int_def Let_def isspace_sign takeWhile_dec_nat)
next
  case False
  then show ?thesis using scan_int_dec_nat [OF assms] by (simp add: dec_int_def)
qed

lemma scan_int_space: "isspace c \<Longrightarrow> scan_int (c # s) = scan_int s"
  by (simp add: scan_int_def)

section \<open>The text of a stat file\<close>

text \<open>
  One line: pid, name in parentheses, state, and numbers, each after a space; \<open>nums\<close> are the
  fields from ppid to vsize, \<open>tail\<close> the rest of the line.
\<close>

definition stat_text :: "int \<Rightarrow> string \<Rightarrow> char \<Rightarrow> int list \<Rightarrow> string \<Rightarrow> string" where
  "stat_text pid comm state nums tail =
     dec_int pid @ '' ('' @ comm @ '') '' @ [state] @ concat (map (\<lambda>i. '' '' @ dec_int i) nums) @ tail"

fun picked :: "conversion \<Rightarrow> int \<Rightarrow> scanned list" where
  "picked Get_int i = [Int_value i]"
| "picked Get_ulong i = [Ulong_value (ulong_of i)]"
| "picked _ i = []"

lemma no_digit_numbers:
  "no_digit_first tail \<Longrightarrow> no_digit_first (concat (map (\<lambda>i. '' '' @ dec_int i) nums) @ tail)"
  by (cases nums) (auto simp: no_digit_first_def isdigit_def)

lemma scan_numbers:
  assumes "length cs = length nums" and "\<forall>c\<in>set cs. c \<in> {Skip_int, Get_int, Get_ulong}"
    and "no_digit_first tail"
  shows "scan cs (concat (map (\<lambda>i. '' '' @ dec_int i) nums) @ tail) = concat (map2 picked cs nums)"
  using assms
proof (induction cs nums rule: list_induct2')
  case (4 c cs i nums)
  let ?r = "concat (map (\<lambda>i. '' '' @ dec_int i) nums) @ tail"
  have "scan_int (CHR '' '' # dec_int i @ ?r) = Some (i, ?r)"
    using scan_int_dec_int [OF no_digit_numbers [OF "4.prems"(3)]]
    by (simp add: scan_int_space isspace_def)
  moreover have "scan cs ?r = concat (map2 picked cs nums)" using 4 by simp
  ultimately show ?case using "4.prems"(2) by auto
qed simp_all

definition plain_name :: "string \<Rightarrow> bool" where
  "plain_name comm \<longleftrightarrow> (\<forall>c\<in>set comm. \<not> isspace c)"

lemma scan_word_then:
  assumes "w \<noteq> []" and "\<forall>c\<in>set w. \<not> isspace c" and "isspace c"
  shows "scan (Skip_word # cs) (CHR '' '' # w @ c # r) = scan cs (c # r)"
proof -
  have "dropWhile isspace (CHR '' '' # w @ c # r) = w @ c # r"
    using assms by (cases w) (auto simp: isspace_def)
  moreover have "dropWhile (\<lambda>c. \<not> isspace c) (w @ c # r) = c # r"
    using assms by simp
  ultimately show ?thesis using assms(1) by (simp add: Let_def)
qed

end
