(* ===== verification/Printing.thy ===== *)
theory Printing
  imports Streams
begin

text \<open>
  Formatted output: the conversions \<open>%.<p>f\<close> and \<open>%0<w>ld\<close> of printf, the way an ostream
  prints a float by default (that is \<open>%g\<close>: six significant digits, no trailing zeros), and
  truth values. Conversions work on the exact value and round half to even, as glibc does.
\<close>

section \<open>printf\<close>

definition pad_left :: "char \<Rightarrow> nat \<Rightarrow> string \<Rightarrow> string" where
  "pad_left c k s = replicate (k - length s) c @ s"

definition fixed :: "nat \<Rightarrow> rat \<Rightarrow> string" where
  "fixed p x =
     (let m = nat (round_even (\<bar>x\<bar> * 10 ^ p))
      in (if x < 0 then ''-'' else []) @ dec_nat (m div 10 ^ p) @
         (if p = 0 then [] else ''.'' @ pad_left (CHR ''0'') p (dec_nat (m mod 10 ^ p))))"

definition zero_padded :: "nat \<Rightarrow> int \<Rightarrow> string" where
  "zero_padded k i =
     (if i < 0 then ''-'' @ pad_left (CHR ''0'') (k - 1) (dec_nat (nat (- i)))
      else pad_left (CHR ''0'') k (dec_nat (nat i)))"

lemma length_pad_left: "length (pad_left c k s) = max k (length s)"
  by (simp add: pad_left_def)

lemma length_fixed_2:
  assumes "0 \<le> x" and "x < 10 ^ k" and "0 < k"
  shows "length (fixed 2 x) \<le> k + 4"
proof -
  obtain j where k: "k = Suc j" using assms(3) by (cases k) auto
  define m where "m = nat (round_even (x * 100))"
  have "x * 100 \<le> of_int (10 ^ k * 100)" using assms by simp
  then have "round_even (x * 100) \<le> 10 ^ k * 100"
    by (metis round_even_mono round_even_of_int)
  then have "m \<le> nat (10 ^ k * 100)" unfolding m_def by (intro nat_mono) simp
  then have "m \<le> 10 ^ k * 100" by (simp add: nat_mult_distrib nat_power_eq)
  moreover have "(10::nat) ^ k * 100 < 10 ^ Suc k * 100" by simp
  ultimately have "m div 100 < 10 ^ Suc k"
    by (intro less_mult_imp_div_less) (rule le_less_trans)
  then have "length (dec_nat (m div 100)) \<le> Suc k" by (rule length_dec_nat)
  moreover have "length (dec_nat (m mod 100)) \<le> 2"
    using length_dec_nat [of "m mod 100" 1] by simp
  ultimately show ?thesis
    using assms(1) by (simp add: fixed_def Let_def m_def length_pad_left)
qed

lemma length_zero_padded_2: "0 \<le> i \<Longrightarrow> i < 100 \<Longrightarrow> length (zero_padded 2 i) = 2"
  using length_dec_nat [of "nat i" 1]
  by (simp add: zero_padded_def length_pad_left max_def nat_less_iff)

section \<open>Default output of a float\<close>

definition exponent10 :: "rat \<Rightarrow> int" where
  "exponent10 x =
     (let (n, d) = quotient_of x; e = int (floorlog 10 (nat n)) - int (floorlog 10 (nat d))
      in if 10 powi e \<le> x then e else e - 1)"

definition strip_zeros :: "string \<Rightarrow> string" where
  "strip_zeros s =
     (if CHR ''.'' \<in> set s then
        let r = dropWhile (\<lambda>c. c = CHR ''0'') (rev s)
        in rev (if r \<noteq> [] \<and> hd r = CHR ''.'' then tl r else r)
      else s)"

definition ostream_float :: "rat \<Rightarrow> string" where
  "ostream_float x =
     (if x = 0 then ''0'' else
      let a = \<bar>x\<bar>; e0 = exponent10 a;
          m0 = round_even (a / 10 powi (e0 - 5));
          (e, m) = (if m0 = 10 ^ 6 then (e0 + 1, 10 ^ 5) else (e0, m0));
          digits = dec_nat (nat m)
      in (if x < 0 then ''-'' else []) @
         (if - 4 \<le> e \<and> e < 6 then strip_zeros (fixed (nat (5 - e)) a)
          else strip_zeros (take 1 digits @ ''.'' @ drop 1 digits) @ ''e'' @
               (if e < 0 then ''-'' else ''+'') @
               pad_left (CHR ''0'') 2 (dec_nat (nat \<bar>e\<bar>))))"

text \<open>A bool is printed as a number.\<close>

definition ostream_bool :: "bool \<Rightarrow> string" where
  "ostream_bool b = (if b then ''1'' else ''0'')"

definition endl :: string where
  "endl = [newline]"

end
