(* ===== verification/Vline_Splitter.thy ===== *)
theory Vline_Splitter
  imports Printing
begin

text \<open>
  vlineSplitter.cc: the filter that cuts the lines "v ..." of a solver into lines of about
  100 characters and copies the other lines.
\<close>

section \<open>The program\<close>

text \<open>
  The loop over the literals of a value line: \<open>front\<close> is what is printed before "v", len
  counts the characters of the literals printed on the current line.
\<close>

function word_loop :: "string \<Rightarrow> istream \<Rightarrow> nat \<Rightarrow> string \<Rightarrow> string \<times> nat" where
  "word_loop front f len out =
     (if \<not> good f then (out, len)
      else
        let (w, f') = in_word [] f in
        if w = [] then (out, len)
        else
          let out = (if len = 0 then out @ front @ ''v'' else out);
              out = out @ '' '' @ w;
              len = len + length w
          in if 100 < len then word_loop front f' 0 (out @ endl)
             else word_loop front f' len out)"
  by pat_completeness auto

lemma in_word_shorter: "in_word [] f = (w, f') \<Longrightarrow> w \<noteq> [] \<Longrightarrow> length (rest f') < length (rest f)"
proof -
  assume a: "in_word [] f = (w, f')" "w \<noteq> []"
  define r where "r = dropWhile isspace (rest f)"
  have le: "length r \<le> length (rest f)" by (simp add: r_def length_dropWhile_le)
  from a have "good f" "r \<noteq> []" "w = takeWhile (\<lambda>c. \<not> isspace c) r"
    "rest f' = dropWhile (\<lambda>c. \<not> isspace c) r"
    by (auto simp: in_word_def sentry_def r_def Let_def split: if_splits)
  with a(2) have "length (rest f') < length r"
    by (cases r) (auto simp: le_imp_less_Suc length_dropWhile_le split: if_splits)
  with le show ?thesis by simp
qed

termination word_loop
  by (relation "measure (\<lambda>(front, f, len, out). length (rest f))")
    (auto dest: in_word_shorter simp: prod_eq_iff, (metis in_word_shorter prod.collapse)+)

declare word_loop.simps [simp del]

definition process_line :: "string \<Rightarrow> string \<Rightarrow> string" where
  "process_line front s =
     (if 2 \<le> length s \<and> s ! 0 = CHR ''v'' \<and> s ! 1 = CHR '' '' then
        let (_, f) = in_word [] (open_stream s);
            (out, len) = word_loop front f 0 []
        in if len \<noteq> 0 then out @ endl else out
      else front @ s @ endl)"

text \<open>
  The main loop: \<open>cin\<close> is the standard input, \<open>timestamp\<close> the last value of the variable. A
  line is at least one character, or leaves the stream at its end.
\<close>

definition main_step :: "bool \<Rightarrow> string \<Rightarrow> istream \<Rightarrow> string \<times> string \<times> istream \<times> bool" where
  "main_step withTimestamp timestamp cin =
     (let (timestamp, cin) = (if withTimestamp then in_word timestamp cin else (timestamp, cin));
          cin = (if withTimestamp then snd (in_get cin) else cin)
      in if withTimestamp \<and> \<not> good cin then ([], timestamp, cin, False)
         else
           let (s, cin) = in_getline [] cin in
           if \<not> good cin \<and> s = [] then ([], timestamp, cin, False)
           else (process_line (if withTimestamp then timestamp @ [tab] else []) s,
                 timestamp, cin, True))"

function main_loop :: "bool \<Rightarrow> string \<Rightarrow> istream \<Rightarrow> string" where
  "main_loop withTimestamp timestamp cin =
     (if \<not> good cin then []
      else
        let (out, timestamp', cin', go_on) = main_step withTimestamp timestamp cin
        in if go_on then out @ main_loop withTimestamp timestamp' cin' else [])"
  by pat_completeness auto

lemma main_step_shorter:
  assumes "main_step b t i = (out, t', i', True)" and "good i"
  shows "stream_measure i' < stream_measure i"
proof -
  obtain i1 s where i1: "good i1" "length (rest i1) \<le> length (rest i)" "in_getline [] i1 = (s, i')"
  proof (cases b)
    case True
    let ?i1 = "snd (in_get (snd (in_word t i)))"
    have "length (rest ?i1) \<le> length (rest i)"
      using in_get_le in_word_le by (rule le_trans)
    moreover from assms True have "good ?i1" "snd (in_getline [] ?i1) = i'"
      by (auto simp: main_step_def Let_def split: prod.splits if_splits)
    ultimately show ?thesis using that by (metis prod.collapse)
  next
    case False
    with assms have "snd (in_getline [] i) = i'"
      by (auto simp: main_step_def Let_def split: prod.splits if_splits)
    with assms(2) show ?thesis using that by (metis order_refl prod.collapse)
  qed
  with in_getline_shorter [OF i1(3,1)] assms(2) show ?thesis
    by (auto simp: stream_measure_def)
qed

termination main_loop
  by (relation "measure (\<lambda>(b, t, i). stream_measure i)") (auto dest!: main_step_shorter [OF sym])

declare main_loop.simps [simp del]

definition vline_main :: "bool \<Rightarrow> string \<Rightarrow> string" where
  "vline_main withTimestamp input = main_loop withTimestamp [] (open_stream input)"

section \<open>Words\<close>

function words :: "string \<Rightarrow> string list" where
  "words s =
     (let r = dropWhile isspace s
      in if r = [] then []
         else takeWhile (\<lambda>c. \<not> isspace c) r # words (dropWhile (\<lambda>c. \<not> isspace c) r))"
  by pat_completeness auto
termination
proof (relation "measure length")
  fix s r
  assume r: "r = dropWhile isspace s" "r \<noteq> []"
  then have "\<not> isspace (hd r)" using hd_dropWhile by metis
  with r(2) have "length (dropWhile (\<lambda>c. \<not> isspace c) r) < length r"
    by (cases r) (auto simp: le_imp_less_Suc length_dropWhile_le)
  also have "length r \<le> length s" using r(1) by (simp add: length_dropWhile_le)
  finally show "(dropWhile (\<lambda>c. \<not> isspace c) r, s) \<in> measure length" by simp
qed simp

declare words.simps [simp del]

lemma words_nonempty: "w \<in> set (words s) \<Longrightarrow> w \<noteq> []"
proof (induction s rule: words.induct)
  case (1 s)
  show ?case
  proof (cases "dropWhile isspace s = []")
    case True
    with "1.prems" show ?thesis by (simp add: words.simps [of s])
  next
    case False
    then have "\<not> isspace (hd (dropWhile isspace s))" by (rule hd_dropWhile)
    with False have "takeWhile (\<lambda>c. \<not> isspace c) (dropWhile isspace s) \<noteq> []"
      by (cases "dropWhile isspace s") auto
    moreover from False have "words s = takeWhile (\<lambda>c. \<not> isspace c) (dropWhile isspace s) #
        words (dropWhile (\<lambda>c. \<not> isspace c) (dropWhile isspace s))"
      by (subst words.simps) (simp only: Let_def if_False)
    ultimately show ?thesis using 1 False by auto
  qed
qed

text \<open>The stream has no error but the end, and that only when nothing is left.\<close>

definition stream_ok :: "istream \<Rightarrow> bool" where
  "stream_ok f \<longleftrightarrow> (good f \<or> rest f = [])"

lemma in_word_words:
  assumes "good f"
  shows "words (rest f) = [] \<Longrightarrow> fst (in_word [] f) = []"
    and "words (rest f) = w # ws \<Longrightarrow>
      fst (in_word [] f) = w \<and> stream_ok (snd (in_word [] f)) \<and> words (rest (snd (in_word [] f))) = ws"
  using assms
  by (auto simp: words.simps [of "rest f"] in_word_def sentry_def Let_def stream_ok_def good_def
      split: if_splits)

definition word_step :: "string \<Rightarrow> string \<Rightarrow> string \<times> nat \<Rightarrow> string \<times> nat" where
  "word_step front w st =
     (let (out, len) = st;
          out = (if len = 0 then out @ front @ ''v'' else out) @ '' '' @ w; len = len + length w
      in if 100 < len then (out @ endl, 0) else (out, len))"

lemma word_loop_fold:
  "stream_ok f \<Longrightarrow> word_loop front f len out = fold (word_step front) (words (rest f)) (out, len)"
proof (induction "length (words (rest f))" arbitrary: f len out)
  case 0
  then show ?case using in_word_words(1) [of f]
    by (subst word_loop.simps) (auto simp: Let_def split: prod.splits)
next
  case (Suc n)
  then obtain w ws where ws: "words (rest f) = w # ws" by (cases "words (rest f)") auto
  then have "good f" using Suc.prems by (auto simp: stream_ok_def words.simps [of "[]"])
  from in_word_words(2) [OF this ws] obtain f' where f': "in_word [] f = (w, f')" "stream_ok f'"
    "words (rest f') = ws" by (cases "in_word [] f") auto
  have "w \<noteq> []" using words_nonempty [of w "rest f"] ws by simp
  then show ?case
    using Suc.hyps(1) [of f'] Suc.hyps(2) f' ws \<open>good f\<close>
    by (subst word_loop.simps) (simp add: word_step_def Let_def)
qed

section \<open>Lines of limited length\<close>

text \<open>The literals in groups: a group ends as soon as it has more than 100 characters.\<close>

fun cut :: "string list \<Rightarrow> string list \<Rightarrow> string list list" where
  "cut g [] = (if g = [] then [] else [g])"
| "cut g (w # ws) =
     (if 100 < sum_list (map length (g @ [w])) then (g @ [w]) # cut [] ws else cut (g @ [w]) ws)"

definition value_line :: "string \<Rightarrow> string list \<Rightarrow> string" where
  "value_line front g = front @ ''v'' @ concat (map (\<lambda>w. '' '' @ w) g)"

lemma concat_cut: "concat (cut g ws) = g @ ws"
  by (induction g ws rule: cut.induct) auto

lemma cut_groups:
  assumes "sum_list (map length g) \<le> 100"
  shows "h \<in> set (cut g ws) \<Longrightarrow> h \<noteq> [] \<and> sum_list (map length (butlast h)) \<le> 100"
  using assms
proof (induction g ws rule: cut.induct)
  case (1 g)
  then show ?case
    by (cases g rule: rev_cases) (auto split: if_splits)
qed (auto split: if_splits)

lemma sum_length_zero: "\<forall>w\<in>set g. w \<noteq> [] \<Longrightarrow> sum_list (map length g) = 0 \<longleftrightarrow> g = []"
  by (cases g) auto

lemma fold_word_step:
  assumes "\<forall>w\<in>set g. w \<noteq> []" and "\<forall>w\<in>set ws. w \<noteq> []" and "sum_list (map length g) \<le> 100"
  shows "(case fold (word_step front) ws
            (out @ (if g = [] then [] else value_line front g), sum_list (map length g)) of
          (out, len) \<Rightarrow> if len \<noteq> 0 then out @ endl else out) =
        out @ concat (map (\<lambda>g. value_line front g @ endl) (cut g ws))"
  using assms
proof (induction g ws arbitrary: out rule: cut.induct)
  case (1 g)
  then show ?case by (simp add: sum_length_zero)
next
  case (2 g w ws)
  have step: "word_step front w (out @ (if g = [] then [] else value_line front g), sum_list (map length g)) =
      (if 100 < sum_list (map length (g @ [w]))
       then (out @ value_line front (g @ [w]) @ endl, 0)
       else (out @ value_line front (g @ [w]), sum_list (map length (g @ [w]))))"
    using sum_length_zero [OF "2.prems"(1)] by (simp add: word_step_def value_line_def Let_def)
  show ?case
  proof (cases "100 < sum_list (map length (g @ [w]))")
    case True
    then show ?thesis
      using "2.IH"(1) [OF True, of "out @ value_line front (g @ [w]) @ endl"] "2.prems" step by simp
  next
    case False
    then show ?thesis
      using "2.IH"(2) [OF False, of out] "2.prems" step by simp
  qed
qed

lemma words_space: "isspace c \<Longrightarrow> words (c # s) = words s"
  by (subst (1 2) words.simps) simp

lemma process_value_line:
  "process_line front (''v '' @ s) =
     concat (map (\<lambda>g. value_line front g @ endl) (cut [] (words s)))"
proof -
  let ?f = "\<lparr>rest = '' '' @ s, eofbit = False, failbit = False\<rparr>"
  have "in_word [] (open_stream (''v '' @ s)) = (''v'', ?f)"
    by (simp add: in_word_def sentry_def open_stream_def good_def isspace_def)
  moreover have "words (rest ?f) = words s" by (simp add: words_space isspace_def)
  ultimately show ?thesis
    using fold_word_step [of "[]" "words s" front "[]"] words_nonempty
    by (simp add: process_line_def word_loop_fold stream_ok_def good_def)
qed

lemma process_other_line:
  "\<not> (2 \<le> length s \<and> s ! 0 = CHR ''v'' \<and> s ! 1 = CHR '' '') \<Longrightarrow> process_line front s = front @ s @ endl"
  by (auto simp: process_line_def)

text \<open>A line of the input, with the time stamp in front of it or without.\<close>

definition input_line :: "bool \<Rightarrow> string \<times> string \<Rightarrow> string" where
  "input_line withTimestamp l =
     (if withTimestamp then fst l @ [tab] else []) @ snd l @ [newline]"

definition stamp_word :: "string \<Rightarrow> bool" where
  "stamp_word st \<longleftrightarrow> st \<noteq> [] \<and> (\<forall>c\<in>set st. \<not> isspace c)"

lemma main_loop_lines:
  assumes "\<forall>l\<in>set ls. newline \<notin> set (snd l) \<and> (b \<longrightarrow> stamp_word (fst l))"
  shows "main_loop b t (open_stream (concat (map (input_line b) ls))) =
    concat (map (\<lambda>l. process_line (if b then fst l @ [tab] else []) (snd l)) ls)"
  using assms
proof (induction ls arbitrary: t)
  case Nil
  have "\<not> snd (snd (snd (main_step b t (open_stream []))))"
    by (simp add: main_step_def in_word_def sentry_def in_get_def in_getline_def open_stream_def good_def)
  then show ?case by (subst main_loop.simps) (auto simp: Let_def split: prod.splits)
next
  case (Cons l ls)
  let ?r = "concat (map (input_line b) ls)"
  have get: "in_get (open_stream (tab # r)) = (Some tab, open_stream r)" for r
    by (simp add: in_get_def open_stream_def good_def)
  have nl: "newline \<notin> set (snd l)" using Cons.prems by simp
  have "main_step b t (open_stream (input_line b l @ ?r)) =
      (process_line (if b then fst l @ [tab] else []) (snd l), if b then fst l else t, open_stream ?r, True)"
    using Cons.prems get in_getline_line [OF nl] in_word_tab [of "fst l"]
    by (cases b) (simp_all add: main_step_def input_line_def stamp_word_def)
  then show ?case
    using Cons by (subst main_loop.simps) (simp add: Let_def)
qed

section \<open>Properties\<close>

text \<open>
  Property C34: on input made of lines (with time stamps, when asked for) the program treats
  every line on its own and puts the stamp of the line before every line it prints for it.
  A line other than a value line is copied. A value line gives lines that hold its literals,
  all of them in their order, with at least one each, and each at most 100 characters of
  literals before the last one.
\<close>

theorem vline_main_lines:
  assumes "\<forall>l\<in>set ls. newline \<notin> set (snd l) \<and> (withTimestamp \<longrightarrow> stamp_word (fst l))"
  shows "\<exists>lines. vline_main withTimestamp (concat (map (input_line withTimestamp) ls)) =
       concat (map2 (\<lambda>l gs. concat (map (\<lambda>g. (if withTimestamp then fst l @ [tab] else []) @ g @ endl) gs))
         ls lines) \<and>
     length lines = length ls \<and>
     (\<forall>i<length ls. let s = snd (ls ! i) in
        if take 2 s = ''v '' then
          \<exists>groups. lines ! i = map (value_line []) groups \<and> concat groups = words (drop 2 s) \<and>
            (\<forall>g\<in>set groups. g \<noteq> [] \<and> sum_list (map length (butlast g)) \<le> 100)
        else lines ! i = [s])"
proof -
  let ?gs = "\<lambda>s. if take 2 s = ''v '' then map (value_line []) (cut [] (words (drop 2 s))) else [s]"
  let ?front = "\<lambda>l. if withTimestamp then fst l @ [tab] else []"
  have line: "process_line front s = concat (map (\<lambda>g. front @ g @ endl) (?gs s))" for front s
  proof (cases "take 2 s = ''v ''")
    case True
    then have "s = ''v '' @ drop 2 s" by (metis append_take_drop_id)
    with process_value_line [of front "drop 2 s"] True show ?thesis
      by (simp add: value_line_def comp_def)
  next
    case False
    then have "\<not> (2 \<le> length s \<and> s ! 0 = CHR ''v'' \<and> s ! 1 = CHR '' '')"
      by (cases s; cases "tl s") auto
    with False show ?thesis by (simp add: process_other_line)
  qed
  have "vline_main withTimestamp (concat (map (input_line withTimestamp) ls)) =
      concat (map2 (\<lambda>l gs. concat (map (\<lambda>g. ?front l @ g @ endl) gs)) ls (map (?gs \<circ> snd) ls))"
    unfolding vline_main_def main_loop_lines [OF assms] line map2_map_map
    by (simp add: zip_map2 zip_same_conv_map comp_def)
  moreover have "sum_list (map length []) \<le> 100" by simp
  ultimately show ?thesis
    by (intro exI [of _ "map (?gs \<circ> snd) ls"])
      (auto simp: Let_def concat_cut dest!: cut_groups [rotated])
qed

theorem vline_main_lines_witness:
  "vline_main True (''0.25'' @ [tab] @ ''s OK'' @ [newline]) = ''0.25'' @ [tab] @ ''s OK'' @ endl"
proof -
  let ?ls = "[(''0.25'', ''s OK'')]"
  have "\<forall>l\<in>set ?ls. newline \<notin> set (snd l) \<and> (True \<longrightarrow> stamp_word (fst l))"
    by (simp add: newline_def stamp_word_def isspace_def)
  from vline_main_lines [OF this] obtain lines where
    out: "vline_main True (concat (map (input_line True) ?ls)) =
       concat (map2 (\<lambda>l gs. concat (map (\<lambda>g. (if True then fst l @ [tab] else []) @ g @ endl) gs))
         ?ls lines)" "length lines = 1" "lines ! 0 = [''s OK'']"
    by auto
  then have "lines = [[''s OK'']]" by (cases lines) auto
  with out(1) show ?thesis by (simp add: input_line_def)
qed

end
