(* ===== verification/Cores.thy ===== *)
theory Cores
  imports Streams
begin

text \<open>
  Cores.hh: the cores of the machine as sysfs lists them, the cores a process may run on
  grouped by processor, how a list of cores is printed, and the mask made of a list.
\<close>

section \<open>Sets of cores\<close>

text \<open>
  cpu_set_t: sizeof(cpu_set_t) << 3 is 1024 bits; the macros ignore larger numbers.
\<close>

type_synonym cpu_set = "nat set"

definition cpu_setsize :: nat where
  "cpu_setsize = 1024"

definition cpu_isset :: "nat \<Rightarrow> cpu_set \<Rightarrow> bool" where
  "cpu_isset i S \<longleftrightarrow> i < cpu_setsize \<and> i \<in> S"

definition cpu_set_core :: "nat \<Rightarrow> cpu_set \<Rightarrow> cpu_set" where
  "cpu_set_core i S = (if i < cpu_setsize then insert i S else S)"

definition cpu_clr :: "nat \<Rightarrow> cpu_set \<Rightarrow> cpu_set" where
  "cpu_clr i S = (if i < cpu_setsize then S - {i} else S)"

text \<open>A number stored in a vector of unsigned short.\<close>

definition ushort :: "nat \<Rightarrow> nat" where
  "ushort n = n mod 65536"

section \<open>The masks of sysfs\<close>

text \<open>
  The file core_siblings of a processor: None when it cannot be opened. Its first line is a
  hexadecimal mask, read from its last character to its first.
\<close>

type_synonym topology = "nat \<Rightarrow> string option"

definition hex_value :: "char \<Rightarrow> nat result" where
  "hex_value c =
     (if 48 \<le> code_of c \<and> code_of c \<le> 57 then Inr (code_of c - 48)
      else if 97 \<le> code_of c \<and> code_of c \<le> 102 then Inr (10 + code_of c - 97)
      else if 65 \<le> code_of c \<and> code_of c \<le> 70 then Inr (10 + code_of c - 65)
      else Inl (Runtime_error ''invalid character in cpu mask''))"

text \<open>
  Trailing white space is skipped, but never the first character; \<open>mask_chars\<close> are the
  characters that the loop visits, in its order. An empty line reads before the string.
\<close>

fun skip_spaces :: "string \<Rightarrow> string" where
  "skip_spaces [] = []"
| "skip_spaces [c] = [c]"
| "skip_spaces (c # cs) = (if isspace c then skip_spaces cs else c # cs)"

definition mask_chars :: "string \<Rightarrow> string result" where
  "mask_chars content =
     (let buffer = fst (in_getline [] (open_stream content))
      in if buffer = [] then Inl (Undefined ''buffer[-1]'')
         else Inr (skip_spaces (rev buffer)))"

text \<open>The loop over the characters; base (the variable id) grows by 4 for every one of them.\<close>

fun siblings_loop :: "(nat \<Rightarrow> nat \<Rightarrow> 's \<Rightarrow> 's) \<Rightarrow> nat \<Rightarrow> string \<Rightarrow> 's \<Rightarrow> 's result" where
  "siblings_loop body base [] s = Inr s"
| "siblings_loop body base (c # cs) s =
     (if c \<noteq> CHR ''0'' \<and> c \<noteq> CHR '','' then
        and_then (hex_value c) (\<lambda>m. siblings_loop body (base + 4) cs (body m base s))
      else siblings_loop body (base + 4) cs s)"

section \<open>getExistingCores\<close>

text \<open>The loop over the four bits of one character.\<close>

definition new_cores :: "nat \<Rightarrow> nat \<Rightarrow> nat list \<times> cpu_set \<Rightarrow> nat list \<times> cpu_set" where
  "new_cores m base =
     fold (\<lambda>j (list, cores).
        if odd (m div 2 ^ j) \<and> \<not> cpu_isset (base + j) cores
        then (list @ [ushort (base + j)], cpu_set_core (base + j) cores)
        else (list, cores)) [0..<4]"

fun existing_loop ::
  "topology \<Rightarrow> bool \<Rightarrow> nat list \<Rightarrow> nat list \<times> cpu_set \<Rightarrow> nat list result" where
  "existing_loop sysfs physicalView [] (list, cores) = Inr list"
| "existing_loop sysfs physicalView (cpu # cpus) (list, cores) =
     (if cpu_isset cpu cores then existing_loop sysfs physicalView cpus (list, cores)
      else case sysfs cpu of
        None \<Rightarrow> Inr list
      | Some content \<Rightarrow>
          if physicalView then existing_loop sysfs physicalView cpus (list @ [ushort cpu], cores)
          else and_then (mask_chars content) (\<lambda>cs.
               and_then (siblings_loop new_cores 0 cs (list, cores))
                 (existing_loop sysfs physicalView cpus)))"

definition getExistingCores :: "topology \<Rightarrow> bool \<Rightarrow> nat list result" where
  "getExistingCores sysfs physicalView =
     existing_loop sysfs physicalView [0..<cpu_setsize] ([], {})"

section \<open>getAllocatedCoresByProcessorOrder\<close>

definition allocated_cores :: "nat \<Rightarrow> nat \<Rightarrow> nat list \<times> cpu_set \<Rightarrow> nat list \<times> cpu_set" where
  "allocated_cores m base =
     fold (\<lambda>j (list, affinity).
        if odd (m div 2 ^ j) \<and> cpu_isset (base + j) affinity
        then (list @ [ushort (base + j)], cpu_clr (base + j) affinity)
        else (list, affinity)) [0..<4]"

fun processor_order_loop ::
  "topology \<Rightarrow> nat list \<Rightarrow> nat list \<times> cpu_set \<Rightarrow> nat list result" where
  "processor_order_loop sysfs [] (list, affinity) = Inr list"
| "processor_order_loop sysfs (cpu # cpus) (list, affinity) =
     (if cpu_isset cpu affinity then
        case sysfs cpu of
          None \<Rightarrow> Inr list
        | Some content \<Rightarrow>
            and_then (mask_chars content) (\<lambda>cs.
            and_then (siblings_loop allocated_cores 0 cs (list, affinity))
              (processor_order_loop sysfs cpus))
      else processor_order_loop sysfs cpus (list, affinity))"

definition getAllocatedCoresByProcessorOrder :: "topology \<Rightarrow> cpu_set \<Rightarrow> nat list result" where
  "getAllocatedCoresByProcessorOrder sysfs affinity =
     processor_order_loop sysfs [0..<cpu_setsize] ([], affinity)"

section \<open>Lists of cores\<close>

text \<open>\<open>affinity\<close> is what sched_getaffinity stores for the process.\<close>

definition getAllocatedCores :: "cpu_set \<Rightarrow> nat list" where
  "getAllocatedCores affinity = map ushort (filter (\<lambda>i. cpu_isset i affinity) [0..<cpu_setsize])"

text \<open>The inner while loop of the printer: the end of a run of consecutive cores.\<close>

fun run_of :: "nat \<Rightarrow> nat list \<Rightarrow> nat \<times> nat list" where
  "run_of prev [] = (prev, [])"
| "run_of prev (x # xs) = (if x = prev + 1 then run_of x xs else (prev, x # xs))"

lemma run_of_length: "length (snd (run_of p xs)) \<le> length xs"
  by (induction p xs rule: run_of.induct) auto

text \<open>The outer for loop; \<open>first\<close> is \<open>beg == 0\<close>.\<close>

function print_runs :: "bool \<Rightarrow> nat list \<Rightarrow> string" where
  "print_runs first [] = []"
| "print_runs first (x # xs) =
     (let (e, ys) = run_of x xs
      in (if first then [] else '','') @
         (if e = x then dec_nat x else dec_nat x @ ''-'' @ dec_nat e) @ print_runs False ys)"
  by pat_completeness auto
termination
  by (relation "measure (length \<circ> snd)") (auto simp: less_Suc_eq_le, metis run_of_length snd_conv)

definition printAllocatedCores :: "nat list \<Rightarrow> string" where
  "printAllocatedCores list = print_runs True list"

definition affinityMask :: "nat list \<Rightarrow> cpu_set" where
  "affinityMask cores = fold cpu_set_core cores {}"

section \<open>The numbers in a mask\<close>

text \<open>What one mask lists, in the order in which the loops meet it.\<close>

definition nibble_ids :: "nat \<Rightarrow> nat \<Rightarrow> nat list" where
  "nibble_ids m base = map (\<lambda>j. base + j) (filter (\<lambda>j. odd (m div 2 ^ j)) [0..<4])"

fun core_ids :: "nat \<Rightarrow> string \<Rightarrow> nat list result" where
  "core_ids base [] = Inr []"
| "core_ids base (c # cs) =
     (if c \<noteq> CHR ''0'' \<and> c \<noteq> CHR '','' then
        and_then (hex_value c) (\<lambda>m.
        and_then (core_ids (base + 4) cs) (\<lambda>ids. Inr (nibble_ids m base @ ids)))
      else core_ids (base + 4) cs)"

definition sibling_ids :: "topology \<Rightarrow> nat \<Rightarrow> nat list result" where
  "sibling_ids sysfs cpu =
     (case sysfs cpu of
        None \<Rightarrow> Inl (Runtime_error ''no topology'')
      | Some content \<Rightarrow> and_then (mask_chars content) (core_ids 0))"

text \<open>Taking one core out of the affinity mask.\<close>

definition take_core :: "nat \<Rightarrow> nat list \<times> cpu_set \<Rightarrow> nat list \<times> cpu_set" where
  "take_core i st =
     (case st of (list, affinity) \<Rightarrow>
        if cpu_isset i affinity then (list @ [ushort i], cpu_clr i affinity) else st)"

lemma fold_filter: "fold (\<lambda>x s. if P x then f x s else s) xs s = fold f (filter P xs) s"
  by (induction xs arbitrary: s) auto

lemma allocated_cores_take: "allocated_cores m base st = fold take_core (nibble_ids m base) st"
proof -
  have "(\<lambda>j (list, affinity).
        if odd (m div 2 ^ j) \<and> cpu_isset (base + j) affinity
        then (list @ [ushort (base + j)], cpu_clr (base + j) affinity)
        else (list, affinity)) =
      (\<lambda>j s. if odd (m div 2 ^ j) then take_core (base + j) s else s)"
    by (auto simp: take_core_def fun_eq_iff)
  then show ?thesis
    by (simp only: allocated_cores_def nibble_ids_def fold_filter fold_map comp_def)
qed

lemma siblings_loop_allocated:
  "core_ids base cs = Inr ids \<Longrightarrow>
   siblings_loop allocated_cores base cs st = Inr (fold take_core ids st)"
proof (induction base cs arbitrary: ids st rule: core_ids.induct)
  case (1 base)
  then show ?case by simp
next
  case (2 base c cs)
  show ?case
  proof (cases "c \<noteq> CHR ''0'' \<and> c \<noteq> CHR '','' ")
    case True
    with "2.prems" obtain m rest where "hex_value c = Inr m"
      "core_ids (base + 4) cs = Inr rest" "ids = nibble_ids m base @ rest"
      by (auto simp: return_iff)
    then show ?thesis using "2.IH"(1) [OF True] True by (simp add: allocated_cores_take)
  next
    case False
    with "2.prems" have "core_ids (base + 4) cs = Inr ids" by auto
    with "2.IH"(2) [OF False] have
      "siblings_loop allocated_cores (base + 4) cs st = Inr (fold take_core ids st)" by simp
    with False show ?thesis by auto
  qed
qed

lemma nibble_ids_bounds: "\<forall>i\<in>set (nibble_ids m base). base \<le> i \<and> i < base + 4"
  by (auto simp: nibble_ids_def)

lemma distinct_nibble_ids: "distinct (nibble_ids m base)"
  by (simp add: nibble_ids_def distinct_map)

lemma core_ids_distinct:
  "core_ids base cs = Inr ids \<Longrightarrow> distinct ids \<and> (\<forall>i\<in>set ids. base \<le> i)"
proof (induction base cs arbitrary: ids rule: core_ids.induct)
  case (1 base)
  then show ?case by simp
next
  case (2 base c cs)
  show ?case
  proof (cases "c \<noteq> CHR ''0'' \<and> c \<noteq> CHR '',''")
    case True
    with "2.prems" obtain m rest where m: "hex_value c = Inr m"
      "core_ids (base + 4) cs = Inr rest" "ids = nibble_ids m base @ rest"
      by (auto simp: return_iff)
    with "2.IH"(1) [OF True] have "distinct rest \<and> (\<forall>i\<in>set rest. base + 4 \<le> i)" by simp
    with m(3) show ?thesis
      using distinct_nibble_ids [of m base] nibble_ids_bounds [of m base] by fastforce
  next
    case False
    with 2 show ?thesis by fastforce
  qed
qed

lemma sibling_ids_distinct: "sibling_ids sysfs c = Inr ids \<Longrightarrow> distinct ids"
  by (auto simp: sibling_ids_def return_iff dest: core_ids_distinct split: option.splits)

text \<open>Taking several cores: those still allowed, in order.\<close>

lemma fold_take_core:
  assumes "distinct ids" and "S \<subseteq> {..<cpu_setsize}"
  shows "fold take_core ids (list, S) = (list @ filter (\<lambda>i. i \<in> S) ids, S - set ids)"
  using assms
proof (induction ids arbitrary: list S)
  case Nil
  then show ?case by simp
next
  case (Cons i ids)
  have take: "take_core i (list, S) = (if i \<in> S then (list @ [i], S - {i}) else (list, S))"
    using Cons.prems(2) by (auto simp: take_core_def cpu_isset_def cpu_clr_def ushort_def cpu_setsize_def)
  have "filter (\<lambda>k. k \<in> S - {i}) ids = filter (\<lambda>k. k \<in> S) ids"
    using Cons.prems(1) by (intro filter_cong) auto
  then show ?case
    using Cons.IH [of "S - {i}" "list @ [i]"] Cons.IH [of S list] Cons.prems
    by (cases "i \<in> S") (auto simp: take Diff_insert2 [symmetric] subset_insertI2)
qed

section \<open>Cores ordered by processor\<close>

text \<open>
  The reference: the processors in the order of their least allowed core, and for each of
  them its allowed cores in increasing order.
\<close>

definition leader :: "(nat \<Rightarrow> nat list) \<Rightarrow> cpu_set \<Rightarrow> nat \<Rightarrow> bool" where
  "leader ids M c \<longleftrightarrow> c \<in> M \<and> (\<forall>b \<in> set (ids c). b \<in> M \<longrightarrow> c \<le> b)"

definition by_processor :: "(nat \<Rightarrow> nat list) \<Rightarrow> cpu_set \<Rightarrow> nat \<Rightarrow> nat list" where
  "by_processor ids M n =
     concat (map (\<lambda>c. filter (\<lambda>i. i \<in> M) (ids c)) (filter (leader ids M) [0..<n]))"

text \<open>
  What sysfs documents of core_siblings: the mask of a core lists the cores of its package,
  so it lists the core itself, and all cores of a package have the same mask.
\<close>

definition package_topology :: "topology \<Rightarrow> (nat \<Rightarrow> nat list) \<Rightarrow> cpu_set \<Rightarrow> bool" where
  "package_topology sysfs ids M \<longleftrightarrow>
     (\<forall>c\<in>M. sibling_ids sysfs c = Inr (ids c) \<and> c \<in> set (ids c) \<and>
        (\<forall>b\<in>set (ids c). b \<in> M \<longrightarrow> set (ids b) = set (ids c)))"

definition not_taken :: "(nat \<Rightarrow> nat list) \<Rightarrow> cpu_set \<Rightarrow> nat \<Rightarrow> cpu_set" where
  "not_taken ids M n = {i \<in> M. \<forall>b \<in> set (ids i). b \<in> M \<longrightarrow> n \<le> b}"

lemma not_taken_step:
  assumes topo: "package_topology sysfs ids M"
  shows "n \<in> not_taken ids M n \<longleftrightarrow> leader ids M n"
    and "leader ids M n \<Longrightarrow> not_taken ids M n - set (ids n) = not_taken ids M (Suc n)"
    and "leader ids M n \<Longrightarrow>
      filter (\<lambda>i. i \<in> not_taken ids M n) (ids n) = filter (\<lambda>i. i \<in> M) (ids n)"
    and "\<not> leader ids M n \<Longrightarrow> not_taken ids M n = not_taken ids M (Suc n)"
proof -
  have self: "c \<in> set (ids c)" if "c \<in> M" for c
    using topo that unfolding package_topology_def by blast
  have same: "set (ids b) = set (ids c)" if "c \<in> M" "b \<in> M" "b \<in> set (ids c)" for b c
    using topo that unfolding package_topology_def by blast
  show "n \<in> not_taken ids M n \<longleftrightarrow> leader ids M n"
    by (auto simp: not_taken_def leader_def)
  show "filter (\<lambda>i. i \<in> not_taken ids M n) (ids n) = filter (\<lambda>i. i \<in> M) (ids n)"
    if l: "leader ids M n"
  proof (rule filter_cong [OF refl])
    fix i assume "i \<in> set (ids n)"
    then have "set (ids i) = set (ids n)" if "i \<in> M" using l that same by (auto simp: leader_def)
    then show "i \<in> not_taken ids M n \<longleftrightarrow> i \<in> M"
      using l by (auto simp: not_taken_def leader_def)
  qed
  show "not_taken ids M n - set (ids n) = not_taken ids M (Suc n)" if l: "leader ids M n"
  proof (intro equalityI subsetI)
    fix i assume i: "i \<in> not_taken ids M n - set (ids n)"
    have "b \<noteq> n" if "b \<in> set (ids i)" "b \<in> M" for b
    proof -
      have "i \<in> M" "i \<notin> set (ids n)" using i by (simp_all add: not_taken_def)
      with that self same show ?thesis by blast
    qed
    with i show "i \<in> not_taken ids M (Suc n)" by (fastforce simp: not_taken_def)
  next
    fix i assume i: "i \<in> not_taken ids M (Suc n)"
    have "i \<notin> set (ids n)"
    proof
      assume "i \<in> set (ids n)"
      moreover have "i \<in> M" "n \<in> M" using i l by (simp_all add: not_taken_def leader_def)
      ultimately have "n \<in> set (ids i)" "n \<in> M" using self same by blast+
      with i show False by (auto simp: not_taken_def)
    qed
    with i show "i \<in> not_taken ids M n - set (ids n)" by (fastforce simp: not_taken_def)
  qed
  show "not_taken ids M n = not_taken ids M (Suc n)" if nl: "\<not> leader ids M n"
  proof (intro equalityI subsetI)
    fix i assume i: "i \<in> not_taken ids M n"
    have "b \<noteq> n" if b: "b \<in> set (ids i)" "b \<in> M" for b
    proof
      assume "b = n"
      moreover have "i \<in> M" and ge: "\<forall>k\<in>set (ids i). k \<in> M \<longrightarrow> n \<le> k"
        using i by (simp_all add: not_taken_def)
      ultimately have "set (ids n) = set (ids i)" "n \<in> M" using b same by blast+
      with ge nl show False by (simp add: leader_def)
    qed
    with i show "i \<in> not_taken ids M (Suc n)" by (fastforce simp: not_taken_def)
  qed (fastforce simp: not_taken_def)
qed

lemma by_processor_Suc:
  "by_processor ids M (Suc n) =
     by_processor ids M n @ (if leader ids M n then filter (\<lambda>i. i \<in> M) (ids n) else [])"
  by (simp add: by_processor_def)

lemma processor_order_loop_correct:
  assumes topo: "package_topology sysfs ids M" and M: "M \<subseteq> {..<cpu_setsize}"
    and "n \<le> cpu_setsize"
  shows "processor_order_loop sysfs [n..<cpu_setsize] (by_processor ids M n, not_taken ids M n) =
    Inr (by_processor ids M cpu_setsize)"
  using assms(3)
proof (induction "cpu_setsize - n" arbitrary: n)
  case 0
  then show ?case by simp
next
  case (Suc d)
  then have lt: "n < cpu_setsize" by simp
  note IH = Suc.hyps(1) [of "Suc n"]
  have upt: "[n..<cpu_setsize] = n # [Suc n..<cpu_setsize]" using lt by (simp add: upt_conv_Cons)
  show ?case
  proof (cases "leader ids M n")
    case True
    then have "n \<in> M" by (simp add: leader_def)
    then obtain content cs where content: "sysfs n = Some content" "mask_chars content = Inr cs"
      "core_ids 0 cs = Inr (ids n)"
      using topo by (fastforce simp: package_topology_def sibling_ids_def return_iff split: option.splits)
    have "fold take_core (ids n) (by_processor ids M n, not_taken ids M n) =
        (by_processor ids M (Suc n), not_taken ids M (Suc n))"
    proof (subst fold_take_core)
      show "distinct (ids n)" using core_ids_distinct [OF content(3)] by simp
      show "not_taken ids M n \<subseteq> {..<cpu_setsize}" using M by (auto simp: not_taken_def)
    qed (simp add: not_taken_step(2,3) [OF topo True] by_processor_Suc True)
    moreover have "cpu_isset n (not_taken ids M n)"
      using True lt not_taken_step(1) [OF topo] by (simp add: cpu_isset_def)
    ultimately show ?thesis
      using IH Suc.hyps(2) lt content siblings_loop_allocated [OF content(3)] by (simp add: upt)
  next
    case False
    then have "\<not> cpu_isset n (not_taken ids M n)"
      using not_taken_step(1) [OF topo] by (simp add: cpu_isset_def)
    with False show ?thesis
      using IH Suc.hyps(2) lt not_taken_step(4) [OF topo]
      by (simp add: upt by_processor_Suc)
  qed
qed

text \<open>The reference lists every allowed core once.\<close>

lemma by_processor_set:
  assumes topo: "package_topology sysfs ids M"
  shows "set (by_processor ids M n) = M - not_taken ids M n" and "distinct (by_processor ids M n)"
proof -
  have "set (by_processor ids M n) = M - not_taken ids M n \<and> distinct (by_processor ids M n)"
  proof (induction n)
    case 0
    then show ?case by (auto simp: by_processor_def not_taken_def)
  next
    case (Suc n)
    show ?case
    proof (cases "leader ids M n")
      case True
      then have "sibling_ids sysfs n = Inr (ids n)"
        using topo by (simp add: package_topology_def leader_def)
      then have d: "distinct (ids n)" by (rule sibling_ids_distinct)
      have old: "\<forall>i\<in>set (ids n). i \<in> M \<longrightarrow> i \<in> not_taken ids M n"
        using arg_cong [OF not_taken_step(3) [OF topo True], of set] by (simp add: set_eq_iff) blast
      have "not_taken ids M n \<subseteq> M" by (auto simp: not_taken_def)
      with Suc True d old show ?thesis
        by (auto simp: by_processor_Suc not_taken_step(2) [OF topo True, symmetric])
    next
      case False
      with Suc show ?thesis by (simp add: by_processor_Suc not_taken_step(4) [OF topo])
    qed
  qed
  then show "set (by_processor ids M n) = M - not_taken ids M n" "distinct (by_processor ids M n)"
    by simp_all
qed

lemma not_taken_end:
  assumes "package_topology sysfs ids M" and "M \<subseteq> {..<n}"
  shows "not_taken ids M n = {}"
  using assms by (fastforce simp: not_taken_def package_topology_def)

lemma core_ids_append:
  "core_ids base (cs @ ds) =
     and_then (core_ids base cs) (\<lambda>a.
     and_then (core_ids (base + 4 * length cs) ds) (\<lambda>b. Inr (a @ b)))"
proof (induction cs arbitrary: base)
  case Nil
  show ?case by (cases "core_ids base ds") simp_all
next
  case (Cons c cs)
  have shift: "base + 4 * length (c # cs) = base + 4 + 4 * length cs" by simp
  show ?case
    unfolding shift
    by (cases "hex_value c"; cases "core_ids (base + 4) cs";
        cases "core_ids (base + 4 + 4 * length cs) ds") (simp_all add: Cons.IH)
qed

lemma allocated_cores_eq:
  assumes "package_topology sysfs ids M" and "M \<subseteq> {..<cpu_setsize}"
  shows "getAllocatedCoresByProcessorOrder sysfs M = Inr (by_processor ids M cpu_setsize)"
proof -
  have "not_taken ids M 0 = M" by (auto simp: not_taken_def)
  moreover have "by_processor ids M 0 = []" by (simp add: by_processor_def)
  ultimately show ?thesis
    using processor_order_loop_correct [OF assms, of 0]
    by (simp add: getAllocatedCoresByProcessorOrder_def)
qed

lemma by_processor_all:
  assumes "package_topology sysfs ids M" and "M \<subseteq> {..<cpu_setsize}"
  shows "distinct (by_processor ids M cpu_setsize)" and "set (by_processor ids M cpu_setsize) = M"
  using by_processor_set [OF assms(1), of cpu_setsize] not_taken_end [OF assms] by simp_all

section \<open>Properties\<close>


definition two_packages :: topology where
  "two_packages c = (if c < 8 then Some (if even c then ''55'' else ''aa'') else None)"

definition two_packages_ids :: "nat \<Rightarrow> nat list" where
  "two_packages_ids c = (if even c then [0, 2, 4, 6] else [1, 3, 5, 7])"

lemma two_packages_topology: "package_topology two_packages two_packages_ids {1, 2, 3, 6}"
  unfolding package_topology_def ball_simps by code_simp


text \<open>
  In a mask of several groups of eight digits the comma between two groups is
  counted as four cores: the second group is read as cores 36 to 67, not 32 to 63, whatever
  the groups are. (sysfs separates groups of 32 cores by commas, so on a machine with more
  than 32 cores the numbers that both core lists contain are wrong from the second group on.)
\<close>

theorem second_group_shifted:
  assumes "length low = 8"
  shows "core_ids 0 (low @ '','' @ high) =
           and_then (core_ids 0 low) (\<lambda>a. and_then (core_ids 36 high) (\<lambda>b. Inr (a @ b)))"
  using assms by (simp add: core_ids_append)

theorem second_group_shifted_witness:
  "core_ids 0 (''00000000'' @ '','' @ ''10000000'') = Inr [36]"
proof -
  have "and_then (core_ids 0 ''00000000'') (\<lambda>a. and_then (core_ids 36 ''10000000'')
      (\<lambda>b. Inr (a @ b))) = Inr [36]" by code_simp
  with second_group_shifted [of "''00000000''" "''10000000''"] show ?thesis by simp
qed

text \<open>A processor whose listed siblings have all been taken adds nothing.\<close>

lemma processor_order_loop_idle:
  assumes "\<And>c. c \<in> set cpus \<Longrightarrow> c \<in> R \<Longrightarrow>
      \<exists>content cs ids. sysfs c = Some content \<and> mask_chars content = Inr cs \<and>
        core_ids 0 cs = Inr ids \<and> set ids \<inter> R = {}"
    and "R \<subseteq> {..<cpu_setsize}"
  shows "processor_order_loop sysfs cpus (list, R) = Inr list"
  using assms(1)
proof (induction cpus)
  case Nil
  show ?case by simp
next
  case (Cons c cpus)
  show ?case
  proof (cases "cpu_isset c R")
    case True
    then have "c \<in> R" by (simp add: cpu_isset_def)
    then obtain content cs ids where c: "sysfs c = Some content" "mask_chars content = Inr cs"
      "core_ids 0 cs = Inr ids" "set ids \<inter> R = {}"
      using Cons.prems [of c] by auto
    have "fold take_core ids (list, R) = (list, R)"
      using c(4) assms(2)
    proof (induction ids)
      case Nil
      show ?case by simp
    next
      case (Cons i ids)
      then show ?case by (simp add: take_core_def cpu_isset_def)
    qed
    with True c Cons show ?thesis by (simp add: siblings_loop_allocated)
  next
    case False
    with Cons show ?thesis by simp
  qed
qed

text \<open>
  On a machine with 64 cores in one package, all of them allowed,
  getAllocatedCoresByProcessorOrder forgets cores 32 to 35.
\<close>

theorem cores_forgotten:
  "getAllocatedCoresByProcessorOrder
     (\<lambda>c. if c < 64 then Some ''ffffffff,ffffffff'' else None) {..<64} =
   Inr ([0..<32] @ [36..<64])"
proof -
  let ?sysfs = "\<lambda>c. if c < 64 then Some ''ffffffff,ffffffff'' else None"
  let ?ids = "[0..<32] @ [36..<68]"
  have chars: "mask_chars ''ffffffff,ffffffff'' = Inr ''ffffffff,ffffffff''" by code_simp
  have ids: "core_ids 0 ''ffffffff,ffffffff'' = Inr ?ids" by code_simp
  have subset: "{..<64} \<subseteq> {..<cpu_setsize}" by (auto simp: cpu_setsize_def)
  have allowed: "filter (\<lambda>i. i \<in> {..<64}) ?ids = [0..<32] @ [36..<64]"
  proof -
    have split: "[36..<68] = [36..<64] @ [64..<68::nat]"
      using upt_add_eq_append [of 36 64 4] by simp
    show ?thesis unfolding split by (simp add: filter_empty_conv filter_id_conv)
  qed
  have first: "fold take_core ?ids ([], {..<64}) = ([0..<32] @ [36..<64], {32..<36})"
  proof -
    have left: "{..<64} - set ?ids = {32..<36}" by (auto simp del: upt_rec_numeral)
    have "distinct ?ids" by (auto simp del: upt_rec_numeral)
    from fold_take_core [OF this subset, of "[]"] show ?thesis
      by (simp only: left allowed append_Nil)
  qed
  have upt: "[0..<cpu_setsize] = 0 # [Suc 0..<cpu_setsize]"
    by (rule upt_conv_Cons) (simp add: cpu_setsize_def)
  have later: "processor_order_loop ?sysfs [Suc 0..<cpu_setsize] ([0..<32] @ [36..<64], {32..<36}) =
      Inr ([0..<32] @ [36..<64])"
  proof (rule processor_order_loop_idle)
    show "{32..<36} \<subseteq> {..<cpu_setsize}" by (auto simp: cpu_setsize_def)
  next
    fix c :: nat assume "c \<in> {32..<36}"
    then show "\<exists>content cs ids. ?sysfs c = Some content \<and> mask_chars content = Inr cs \<and>
        core_ids 0 cs = Inr ids \<and> set ids \<inter> {32..<36} = {}"
      using chars ids by auto
  qed
  have "cpu_isset 0 {..<64}" by (simp add: cpu_isset_def cpu_setsize_def)
  then show ?thesis
    using first later chars siblings_loop_allocated [OF ids]
    by (simp add: getAllocatedCoresByProcessorOrder_def upt del: upt_rec_numeral fold_simps)
qed

end
