(* ===== verification/Process_Data.thy ===== *)
theory Process_Data
  imports Cores Printing
begin

text \<open>
  ProcessData.hh: what runsolver keeps of one process (or task), how it is read from /proc,
  and the times and sizes derived from it.
\<close>

section \<open>The files of /proc\<close>

text \<open>
  The state of /proc at one moment: the stat file of a process (task 0) or of one of its
  tasks, with its owner; the files statm and status of a process; the mask that
  sched_getaffinity gives for it. None: the file cannot be opened.
\<close>

record stat_file =
  sf_text :: string
  sf_uid :: nat
  sf_gid :: nat

record procfs =
  proc_stat :: "int \<Rightarrow> int \<Rightarrow> stat_file option"
  proc_statm :: "int \<Rightarrow> string option"
  proc_status :: "int \<Rightarrow> string option"
  proc_affinity :: "int \<Rightarrow> cpu_set"

text \<open>fgets: at most n - 1 characters, up to the first newline, which is kept.\<close>

definition fgets :: "nat \<Rightarrow> string \<Rightarrow> string option" where
  "fgets n text =
     (if text = [] then None
      else Some (take (n - 1) (let l = takeWhile (\<lambda>c. c \<noteq> newline) text in
             if l = text then l else l @ [newline])))"

section \<open>State\<close>

record process_data =
  pd_valid :: bool
  pd_uid :: nat
  pd_gid :: nat
  pd_pid :: int
  pd_tid :: int
  pd_ppid :: int
  pd_pgrp :: int
  utime :: u64
  stime :: u64
  cutime :: u64
  cstime :: u64
  starttime :: u64
  vsize :: u64
  rss :: u64
  swap :: u64
  children :: "int list"
  statLine :: string
  statmLine :: string
  allocatedCores :: "nat list"
  selected :: bool

definition pd_init :: "process_data \<Rightarrow> process_data" where
  "pd_init pd = pd\<lparr>pd_valid := False, pd_pid := - 1, pd_tid := - 1, pd_ppid := - 1,
     utime := 0, stime := 0, cutime := 0, cstime := 0, vsize := 0\<rparr>"

text \<open>\<open>raw\<close> is the memory in which the object is created.\<close>

definition pd_construct :: "process_data \<Rightarrow> process_data" where
  "pd_construct raw = pd_init (raw\<lparr>children := [], allocatedCores := []\<rparr>)"

definition pd_copy :: "process_data \<Rightarrow> process_data \<Rightarrow> process_data" where
  "pd_copy raw pd = raw\<lparr>pd_valid := False, pd_uid := pd_uid pd, pd_gid := pd_gid pd,
     pd_pid := pd_pid pd, pd_tid := pd_tid pd, pd_ppid := pd_ppid pd, pd_pgrp := pd_pgrp pd,
     utime := utime pd, stime := stime pd, cutime := cutime pd, cstime := cstime pd,
     starttime := starttime pd, vsize := vsize pd, statLine := [], statmLine := [],
     children := children pd, allocatedCores := []\<rparr>"

section \<open>Reading\<close>

definition stat_format :: "conversion list" where
  "stat_format = [Skip_int, Skip_word, Skip_char, Get_int, Get_int, Skip_int, Skip_int, Skip_int,
     Skip_int, Skip_int, Skip_int, Skip_int, Skip_int, Get_ulong, Get_ulong, Get_ulong, Get_ulong,
     Skip_int, Skip_int, Skip_int, Skip_int, Get_ulong, Get_ulong]"

text \<open>sscanf stores the values in the order of its arguments, as far as it gets.\<close>

fun store_field :: "nat \<times> scanned \<Rightarrow> process_data \<Rightarrow> process_data" where
  "store_field (i, Int_value v) pd =
     (if i = 0 then pd\<lparr>pd_ppid := v\<rparr> else if i = 1 then pd\<lparr>pd_pgrp := v\<rparr> else pd)"
| "store_field (i, Ulong_value v) pd =
     (if i = 2 then pd\<lparr>utime := v\<rparr> else if i = 3 then pd\<lparr>stime := v\<rparr>
      else if i = 4 then pd\<lparr>cutime := v\<rparr> else if i = 5 then pd\<lparr>cstime := v\<rparr>
      else if i = 6 then pd\<lparr>starttime := v\<rparr> else if i = 7 then pd\<lparr>vsize := v\<rparr> else pd)"

definition scan_stat :: "process_data \<Rightarrow> process_data \<times> nat" where
  "scan_stat pd =
     (let vs = scan stat_format (statLine pd)
      in (fold store_field (enumerate 0 vs) pd, length vs))"

text \<open>
  The loop over the lines of status: the number of fields still to read, and the fields. A
  line is at least one character, or leaves the stream at its end.
\<close>

definition status_step :: "istream \<Rightarrow> string \<Rightarrow> nat \<Rightarrow> process_data \<Rightarrow> istream \<times> string \<times> nat \<times> process_data" where
  "status_step i tmp n pd =
     (let (tmp, i) = in_word tmp i;
          (i, n, pd) =
            (if tmp = ''VmRSS:'' then
               let (v, i) = in_unsigned 64 (unat (rss pd)) i in (i, n - 1, pd\<lparr>rss := of_nat v\<rparr>)
             else if tmp = ''VmSwap:'' then
               let (v, i) = in_unsigned 64 (unat (swap pd)) i in (i, n - 1, pd\<lparr>swap := of_nat v\<rparr>)
             else (i, n, pd));
          (tmp, i) = in_getline tmp i
      in (i, tmp, n, pd))"

function status_loop :: "istream \<Rightarrow> string \<Rightarrow> nat \<Rightarrow> process_data \<Rightarrow> nat \<times> process_data" where
  "status_loop i tmp n pd =
     (if good i \<and> 0 < n then
        let (i', tmp', n', pd') = status_step i tmp n pd in status_loop i' tmp' n' pd'
      else (n, pd))"
  by pat_completeness auto

lemma status_step_shorter:
  assumes "good i" and "status_step i tmp n pd = (i', r)"
  shows "stream_measure i' < stream_measure i"
proof -
  obtain t1 i1 where w: "in_word tmp i = (t1, i1)" by (cases "in_word tmp i")
  then have le: "length (rest i1) \<le> length (rest i)"
    "length (rest (snd (in_unsigned 64 k i1))) \<le> length (rest i)" for k
    using in_word_le [of tmp i] in_unsigned_le [of 64 k i1] by simp_all
  consider "t1 = ''VmRSS:''" | "t1 \<noteq> ''VmRSS:''" "t1 = ''VmSwap:''"
    | "t1 \<noteq> ''VmRSS:''" "t1 \<noteq> ''VmSwap:''" by blast
  then have "\<exists>i2. length (rest i2) \<le> length (rest i) \<and> snd (in_getline t1 i2) = i'"
  proof cases
    case 1
    with assms(2) w have "snd (in_getline t1 (snd (in_unsigned 64 (unat (rss pd)) i1))) = i'"
      by (auto simp: status_step_def split: prod.splits)
    with le show ?thesis by blast
  next
    case 2
    with assms(2) w have "snd (in_getline t1 (snd (in_unsigned 64 (unat (swap pd)) i1))) = i'"
      by (auto simp: status_step_def split: prod.splits)
    with le show ?thesis by blast
  next
    case 3
    with assms(2) w have "snd (in_getline t1 i1) = i'"
      by (auto simp: status_step_def split: prod.splits)
    with le show ?thesis by blast
  qed
  then show ?thesis using getline_after assms(1) by (metis prod.collapse)
qed

termination status_loop
  by (relation "measure (\<lambda>(i, tmp, n, pd). stream_measure i)") (auto dest: status_step_shorter [OF _ sym] split: prod.splits)

declare status_loop.simps [simp del]

definition read_allocated :: "'a procfs_scheme \<Rightarrow> process_data \<Rightarrow> process_data" where
  "read_allocated os pd = pd\<lparr>allocatedCores := getAllocatedCores (proc_affinity os (pd_pid pd))\<rparr>"

text \<open>The three parts of read: the stat file, the statm file, the status file.\<close>

definition read_stat :: "'a procfs_scheme \<Rightarrow> process_data \<Rightarrow> process_data \<times> bool" where
  "read_stat os pd =
     (case proc_stat os (pd_pid pd) (pd_tid pd) of
        None \<Rightarrow> (pd\<lparr>statLine := ''-- couldn't open stat file --''\<rparr>, False)
      | Some f \<Rightarrow>
          let pd = pd\<lparr>pd_uid := sf_uid f, pd_gid := sf_gid f\<rparr> in
          (case fgets 1024 (sf_text f) of
             None \<Rightarrow> (pd\<lparr>statLine := ''-- couldn't read stat file --''\<rparr>, False)
           | Some l \<Rightarrow> let (pd, nbFields) = scan_stat (pd\<lparr>statLine := l\<rparr>) in (pd, nbFields = 8)))"

definition read_statm :: "'a procfs_scheme \<Rightarrow> process_data \<Rightarrow> process_data \<times> bool" where
  "read_statm os pd =
     (case proc_statm os (pd_pid pd) of
        None \<Rightarrow> (pd\<lparr>statmLine := ''-- couldn't open statm file --''\<rparr>, True)
      | Some text \<Rightarrow>
          (case fgets 1024 text of
             None \<Rightarrow> (pd\<lparr>statmLine := ''-- couldn't read statm file --''\<rparr>, False)
           | Some l \<Rightarrow> (pd\<lparr>statmLine := l\<rparr>, True)))"

definition read_status :: "'a procfs_scheme \<Rightarrow> process_data \<Rightarrow> process_data \<times> bool" where
  "read_status os pd =
     (case proc_status os (pd_pid pd) of
        None \<Rightarrow> (pd, False)
      | Some text \<Rightarrow> let (n, pd) = status_loop (open_stream text) [] 2 pd in (pd, n = 0))"

definition pd_read :: "'a procfs_scheme \<Rightarrow> int \<Rightarrow> int \<Rightarrow> process_data \<Rightarrow> process_data \<times> bool" where
  "pd_read os pid tid pd =
     (let pd = pd\<lparr>pd_pid := pid, pd_tid := tid, pd_valid := False\<rparr>;
          (pd, ok) = read_stat os pd;
          (pd, ok) = (if ok \<and> tid = 0 then read_statm os pd else (pd, ok));
          (pd, ok) = (if ok \<and> tid = 0 then read_status os pd else (pd, ok))
      in if ok then ((read_allocated os pd)\<lparr>pd_valid := True\<rparr>, True) else (pd, False))"

definition pd_create :: "'a procfs_scheme \<Rightarrow> int \<Rightarrow> int \<Rightarrow> process_data \<Rightarrow> process_data" where
  "pd_create os pid tid raw =
     fst (pd_read os pid tid (pd_init (raw\<lparr>children := [], allocatedCores := []\<rparr>)))"

definition pd_update :: "'a procfs_scheme \<Rightarrow> process_data \<Rightarrow> process_data \<times> bool" where
  "pd_update os pd = pd_read os (pd_pid pd) (pd_tid pd) pd"

section \<open>Derived quantities\<close>

text \<open>\<open>ticks\<close> is clockTicksPerSecond, the value of sysconf(_SC_CLK_TCK).\<close>

definition float_of :: "u64 \<Rightarrow> rat" where
  "float_of w = flt (of_nat (unat w))"

definition percentageCPU :: "u64 \<Rightarrow> process_data \<Rightarrow> rat \<Rightarrow> bool \<Rightarrow> rat" where
  "percentageCPU ticks pd uptime withChildren =
     (let cputime = float_of (stime pd + utime pd);
          cputime = (if withChildren then flt (cputime + float_of (cstime pd + cutime pd)) else cputime);
          cputime = flt (cputime / float_of ticks);
          wctime = flt (uptime - flt (float_of (starttime pd) / float_of ticks))
      in if wctime = 0 then 0 else flt (cputime / wctime))"

definition isTask :: "process_data \<Rightarrow> bool" where
  "isTask pd \<longleftrightarrow> pd_tid pd \<noteq> 0"

definition addChild :: "int \<Rightarrow> process_data \<Rightarrow> process_data" where
  "addChild child pd = pd\<lparr>children := children pd @ [child]\<rparr>"

definition getOverallCPUTime :: "u64 \<Rightarrow> process_data \<Rightarrow> rat" where
  "getOverallCPUTime ticks pd =
     flt (flt (flt (flt (float_of (stime pd) + float_of (utime pd)) + float_of (cstime pd)) +
       float_of (cutime pd)) / float_of ticks)"

definition getOverallUserTime :: "u64 \<Rightarrow> process_data \<Rightarrow> rat" where
  "getOverallUserTime ticks pd = flt (flt (float_of (utime pd) + float_of (cutime pd)) / float_of ticks)"

definition getOverallSystemTime :: "u64 \<Rightarrow> process_data \<Rightarrow> rat" where
  "getOverallSystemTime ticks pd = flt (flt (float_of (stime pd) + float_of (cstime pd)) / float_of ticks)"

text \<open>In kB, as a long.\<close>

definition getVSize :: "process_data \<Rightarrow> int" where
  "getVSize pd = sint (vsize pd div 1024)"

definition getMemory :: "process_data \<Rightarrow> int" where
  "getMemory pd = sint (rss pd + swap pd)"

section \<open>Printing\<close>

text \<open>
  The printer sends its text to the stream s, and its commas to cout. The writes in order,
  and the text that s receives when it is cout and when it is another stream.
\<close>

datatype stream_write = To_s string | To_cout string

function core_writes :: "bool \<Rightarrow> nat list \<Rightarrow> stream_write list" where
  "core_writes first [] = []"
| "core_writes first (x # xs) =
     (let (e, ys) = run_of x xs
      in (if first then [] else [To_cout '','']) @
         [To_s (if e = x then dec_nat x else dec_nat x @ ''-'' @ dec_nat e)] @ core_writes False ys)"
  by pat_completeness auto
termination
  by (relation "measure (length \<circ> snd)") (auto simp: less_Suc_eq_le, metis run_of_length snd_conv)

definition received :: "bool \<Rightarrow> stream_write list \<Rightarrow> string" where
  "received is_cout ws =
     concat (map (\<lambda>w. case w of To_s t \<Rightarrow> t | To_cout t \<Rightarrow> if is_cout then t else []) ws)"

definition pd_printAllocatedCores :: "bool \<Rightarrow> process_data \<Rightarrow> string" where
  "pd_printAllocatedCores is_cout pd = received is_cout (core_writes True (allocatedCores pd))"

definition pd_print :: "u64 \<Rightarrow> bool \<Rightarrow> process_data \<Rightarrow> string" where
  "pd_print ticks is_cout pd =
     ''[pid='' @ dec_int (pd_pid pd) @
     (if pd_tid pd \<noteq> 0 then ''/tid='' @ dec_int (pd_tid pd) else []) @
     ''] ppid='' @ dec_int (pd_ppid pd) @ '' vsize='' @ dec_nat (unat (vsize pd div 1024)) @
     '' memory='' @ dec_int (getMemory pd) @
     '' CPUtime='' @ ostream_float (getOverallCPUTime ticks pd) @
     '' cores='' @ pd_printAllocatedCores is_cout pd @ endl @
     (if pd_tid pd \<noteq> 0
      then ''/proc/'' @ dec_int (pd_pid pd) @ ''/task/'' @ dec_int (pd_tid pd) @ ''/stat : '' @ statLine pd
      else ''/proc/'' @ dec_int (pd_pid pd) @ ''/stat : '' @ statLine pd) @
     (if pd_tid pd = 0 then ''/proc/'' @ dec_int (pd_pid pd) @ ''/statm: '' @ statmLine pd else [])"

section \<open>The stat file that the kernel writes\<close>

lemma upto_20: "[0..<20] = [0, 1, 2, 3, 4, 5, 6, 7, 8, 9, 10, 11, 12, 13, 14, 15, 16, 17, 18, 19 :: nat]"
  by code_simp

lemma scan_stat_text:
  assumes "plain_name comm" and "\<not> isspace state" and "no_digit_first tail" and "length nums = 20"
  shows "scan stat_format (stat_text pid comm state nums tail) =
     [Int_value (nums ! 0), Int_value (nums ! 1), Ulong_value (ulong_of (nums ! 10)),
      Ulong_value (ulong_of (nums ! 11)), Ulong_value (ulong_of (nums ! 12)),
      Ulong_value (ulong_of (nums ! 13)), Ulong_value (ulong_of (nums ! 18)),
      Ulong_value (ulong_of (nums ! 19))]"
proof -
  let ?cs = "[Get_int, Get_int, Skip_int, Skip_int, Skip_int, Skip_int, Skip_int, Skip_int,
     Skip_int, Skip_int, Get_ulong, Get_ulong, Get_ulong, Get_ulong,
     Skip_int, Skip_int, Skip_int, Skip_int, Get_ulong, Get_ulong]"
  let ?n = "concat (map (\<lambda>i. '' '' @ dec_int i) nums) @ tail"
  let ?w = "''('' @ comm @ '')''"
  have format: "stat_format = Skip_int # Skip_word # Skip_char # ?cs" by (simp add: stat_format_def)
  have "scan_int (dec_int pid @ '' '' @ ?w @ '' '' @ [state] @ ?n) =
      Some (pid, '' '' @ ?w @ '' '' @ [state] @ ?n)"
    by (rule scan_int_dec_int) (simp add: no_digit_first_def isdigit_def)
  then have "scan stat_format (stat_text pid comm state nums tail) =
      scan (Skip_word # Skip_char # ?cs) (CHR '' '' # ?w @ CHR '' '' # state # ?n)"
    by (simp add: format stat_text_def)
  also have "\<dots> = scan (Skip_char # ?cs) (CHR '' '' # state # ?n)"
    using assms(1) by (intro scan_word_then) (auto simp: plain_name_def isspace_def)
  also have "\<dots> = scan ?cs ?n" using assms(2) by simp
  also have "\<dots> = concat (map2 picked ?cs nums)"
    using assms(3,4) by (intro scan_numbers) auto
  also have "map2 picked ?cs nums = map2 picked ?cs (map (\<lambda>k. nums ! k) [0..<20])"
    using map_nth [of nums] assms(4) by metis
  also have "concat (map2 picked ?cs (map (\<lambda>k. nums ! k) [0..<20])) =
     [Int_value (nums ! 0), Int_value (nums ! 1), Ulong_value (ulong_of (nums ! 10)),
      Ulong_value (ulong_of (nums ! 11)), Ulong_value (ulong_of (nums ! 12)),
      Ulong_value (ulong_of (nums ! 13)), Ulong_value (ulong_of (nums ! 18)),
      Ulong_value (ulong_of (nums ! 19))]" unfolding upto_20 by simp
  finally show ?thesis .
qed

text \<open>A name with white space, cut at its first white space.\<close>

lemma scan_stat_two_words:
  assumes "plain_name first" and "\<not> isspace c" and "x \<noteq> []"
    and "\<not> isdigit (hd x) \<and> \<not> isspace (hd x) \<and> hd x \<noteq> CHR ''-'' \<and> hd x \<noteq> CHR ''+'' "
  shows "scan stat_format (stat_text pid (first @ '' '' @ c # x) state nums tail) = []"
proof -
  let ?w = "''('' @ first" and ?n = "concat (map (\<lambda>i. '' '' @ dec_int i) nums) @ tail"
  let ?x = "x @ '') '' @ [state] @ ?n"
  have format: "stat_format = Skip_int # Skip_word # Skip_char # Get_int # drop 4 stat_format"
    by (simp add: stat_format_def)
  have line: "stat_text pid (first @ '' '' @ c # x) state nums tail =
      dec_int pid @ '' '' @ ?w @ '' '' @ [c] @ ?x" by (simp add: stat_text_def)
  have "scan_int (dec_int pid @ '' '' @ ?w @ '' '' @ [c] @ ?x) =
      Some (pid, '' '' @ ?w @ '' '' @ [c] @ ?x)"
    by (rule scan_int_dec_int) (simp add: no_digit_first_def isdigit_def)
  then have "scan stat_format (stat_text pid (first @ '' '' @ c # x) state nums tail) =
      scan (Skip_word # Skip_char # Get_int # drop 4 stat_format) (CHR '' '' # ?w @ CHR '' '' # c # ?x)"
    by (subst format) (simp only: line scan.simps option.case prod.case,
        simp only: append_Cons append_Nil append_assoc)
  also have "\<dots> = scan (Skip_char # Get_int # drop 4 stat_format) (CHR '' '' # c # ?x)"
    using assms(1) by (intro scan_word_then) (auto simp: plain_name_def isspace_def)
  also have "\<dots> = scan (Get_int # drop 4 stat_format) ?x" using assms(2) by simp
  also have "scan_int ?x = None"
    using assms(3,4) by (cases x) (auto simp: scan_int_def Let_def)
  then have "scan (Get_int # drop 4 stat_format) ?x = []" by simp
  finally show ?thesis .
qed

section \<open>The status file that the kernel writes\<close>

datatype status_entry = Vm_rss nat nat | Vm_swap nat nat | Other_entry string string

fun entry_text :: "status_entry \<Rightarrow> string" where
  "entry_text (Vm_rss k n) = ''VmRSS:'' @ [tab] @ replicate k (CHR '' '') @ dec_nat n @ '' kB'' @ [newline]"
| "entry_text (Vm_swap k n) = ''VmSwap:'' @ [tab] @ replicate k (CHR '' '') @ dec_nat n @ '' kB'' @ [newline]"
| "entry_text (Other_entry key v) = key @ [tab] @ v @ [newline]"

fun entry_ok :: "status_entry \<Rightarrow> bool" where
  "entry_ok (Vm_rss k n) \<longleftrightarrow> n < 2 ^ 64"
| "entry_ok (Vm_swap k n) \<longleftrightarrow> n < 2 ^ 64"
| "entry_ok (Other_entry key v) \<longleftrightarrow> key \<noteq> [] \<and> plain_name key \<and> key \<noteq> ''VmRSS:'' \<and>
     key \<noteq> ''VmSwap:'' \<and> newline \<notin> set v"

text \<open>What the loop makes of the entries: it stops after the second field.\<close>

fun status_spec :: "status_entry list \<Rightarrow> nat \<Rightarrow> process_data \<Rightarrow> nat \<times> process_data" where
  "status_spec [] n pd = (n, pd)"
| "status_spec (Vm_rss k v # es) n pd =
     (if n = 0 then (n, pd) else status_spec es (n - 1) (pd\<lparr>rss := of_nat v\<rparr>))"
| "status_spec (Vm_swap k v # es) n pd =
     (if n = 0 then (n, pd) else status_spec es (n - 1) (pd\<lparr>swap := of_nat v\<rparr>))"
| "status_spec (Other_entry _ _ # es) n pd = status_spec es n pd"

lemma in_unsigned_value:
  assumes "n < 2 ^ 64"
  shows "in_unsigned 64 old (open_stream (tab # replicate k (CHR '' '') @ dec_nat n @ CHR '' '' # r)) =
     (n, open_stream (CHR '' '' # r))"
proof -
  let ?s = "dec_nat n @ CHR '' '' # r"
  have skip: "dropWhile isspace (tab # replicate k (CHR '' '') @ ?s) = ?s"
    using dropWhile_space_digit [of ?s] hd_dec_nat(1) [of n "CHR '' '' # r"]
    by (induction k) (simp_all add: dropWhile_append3)
  have "no_digit_first (CHR '' '' # r)" by (simp add: no_digit_first_def isdigit_def)
  note digits = takeWhile_dec_nat [OF this, of n]
  have "?s \<noteq> []" by simp
  then have "sentry (open_stream (tab # replicate k (CHR '' '') @ ?s)) = (open_stream ?s, True)"
    by (simp only: sentry_def rest_open good_open skip Let_def) (simp add: open_stream_def)
  with assms digits hd_dec_nat(2,3) [of n] show ?thesis
    by (simp add: in_unsigned_def open_stream_def Let_def)
qed

lemma status_step_entry:
  assumes "entry_ok e" and "0 < n"
  shows "\<exists>tmp' n' pd'. status_step (open_stream (entry_text e @ r)) tmp n pd =
       (open_stream r, tmp', n', pd') \<and> tmp' \<notin> {''VmRSS:'', ''VmSwap:''} \<and>
     status_spec (e # es) n pd = status_spec es n' pd'"
proof (cases e)
  case (Vm_rss k v)
  have key: "in_word tmp (open_stream (''VmRSS:'' @ tab # s)) = (''VmRSS:'', open_stream (tab # s))" for s
    by (rule in_word_tab) (simp_all add: isspace_def)
  have "newline \<notin> set '' kB''" by (simp add: newline_def)
  note end_of_line = in_getline_line [OF this]
  show ?thesis
    using assms Vm_rss key in_unsigned_value [of v _ k] end_of_line [of _ r]
    by (simp add: status_step_def Let_def)
next
  case (Vm_swap k v)
  have key: "in_word tmp (open_stream (''VmSwap:'' @ tab # s)) = (''VmSwap:'', open_stream (tab # s))" for s
    by (rule in_word_tab) (simp_all add: isspace_def)
  have "newline \<notin> set '' kB''" by (simp add: newline_def)
  note end_of_line = in_getline_line [OF this]
  show ?thesis
    using assms Vm_swap key in_unsigned_value [of v _ k] end_of_line [of _ r]
    by (simp add: status_step_def Let_def)
next
  case (Other_entry key v)
  have w: "in_word tmp (open_stream (key @ tab # s)) = (key, open_stream (tab # s))" for s
    using assms Other_entry by (intro in_word_tab) (simp_all add: plain_name_def)
  have "newline \<notin> set (tab # v)" using assms Other_entry by (simp add: newline_def tab_def)
  note end_of_line = in_getline_line [OF this]
  show ?thesis
    using assms Other_entry w end_of_line [of _ r] by (simp add: status_step_def Let_def tab_def)
qed

lemma status_loop_entries:
  assumes "\<forall>e\<in>set es. entry_ok e" and "tmp \<notin> {''VmRSS:'', ''VmSwap:''}"
  shows "status_loop (open_stream (concat (map entry_text es))) tmp n pd = status_spec es n pd"
  using assms
proof (induction es arbitrary: tmp n pd)
  case Nil
  have "sentry (open_stream []) = (\<lparr>rest = [], eofbit = True, failbit = True\<rparr>, False)"
    by (simp add: sentry_def open_stream_def good_def)
  then have "status_step (open_stream []) tmp n pd = (\<lparr>rest = [], eofbit = True, failbit = True\<rparr>, tmp, n, pd)"
    using Nil.prems(2) by (simp add: status_step_def in_word_def in_getline_def good_def)
  then show ?case
    by (subst status_loop.simps)
      (simp add: status_loop.simps [of "\<lparr>rest = [], eofbit = True, failbit = True\<rparr>"] good_def)
next
  case (Cons e es)
  show ?case
  proof (cases "n = 0")
    case True
    have "status_spec es' 0 pd = (0, pd)" for es'
      by (induction es' "0 :: nat" pd rule: status_spec.induct) auto
    then show ?thesis using True by (subst status_loop.simps) simp
  next
    case False
    with Cons.prems(1) obtain tmp' n' pd' where
      "status_step (open_stream (entry_text e @ concat (map entry_text es))) tmp n pd =
         (open_stream (concat (map entry_text es)), tmp', n', pd')"
      "tmp' \<notin> {''VmRSS:'', ''VmSwap:''}" "status_spec (e # es) n pd = status_spec es n' pd'"
      using status_step_entry [of e n "concat (map entry_text es)" tmp pd es] by auto
    then show ?thesis
      using Cons.IH [of tmp' n' pd'] Cons.prems(1) False by (subst status_loop.simps) simp
  qed
qed

fun is_other :: "status_entry \<Rightarrow> bool" where
  "is_other (Other_entry _ _) \<longleftrightarrow> True"
| "is_other _ \<longleftrightarrow> False"

lemma status_spec_other: "list_all is_other es \<Longrightarrow> status_spec (es @ fs) n pd = status_spec fs n pd"
proof (induction es)
  case (Cons e es)
  then show ?case by (cases e) auto
qed simp

lemma status_spec_done: "status_spec es 0 pd = (0, pd)"
  by (induction es "0 :: nat" pd rule: status_spec.induct) auto

section \<open>What reading leaves alone\<close>

definition same_process :: "process_data \<Rightarrow> process_data \<Rightarrow> bool" where
  "same_process pd' pd \<longleftrightarrow> pd_pid pd' = pd_pid pd \<and> pd_tid pd' = pd_tid pd \<and>
     pd_valid pd' = pd_valid pd \<and> children pd' = children pd \<and> selected pd' = selected pd"

lemma same_process_refl [simp]: "same_process pd pd"
  by (simp add: same_process_def)

lemma same_process_trans: "same_process a b \<Longrightarrow> same_process b c \<Longrightarrow> same_process a c"
  by (simp add: same_process_def)

lemma store_field_frame: "same_process (store_field f pd) pd"
  by (cases "(f, pd)" rule: store_field.cases) (simp_all add: same_process_def)

lemma store_fields_frame: "same_process (fold store_field fs pd) pd"
proof (induction fs arbitrary: pd)
  case (Cons f fs)
  then show ?case using store_field_frame same_process_trans by (simp, blast)
qed simp

lemma status_loop_frame: "same_process (snd (status_loop i tmp n pd)) pd"
proof (induction i tmp n pd rule: status_loop.induct)
  case (1 i tmp n pd)
  have "same_process (snd (snd (snd (status_step i tmp n pd)))) pd"
    by (auto simp: status_step_def same_process_def Let_def split: prod.splits)
  moreover obtain i' tmp' n' pd' where r: "status_step i tmp n pd = (i', tmp', n', pd')"
    by (cases "status_step i tmp n pd")
  moreover have "same_process (snd (status_loop i' tmp' n' pd')) pd'" if "good i \<and> 0 < n"
    using "1.IH" [OF that r [symmetric] refl refl] by simp
  ultimately show ?case
    using same_process_trans by (subst status_loop.simps) (auto simp: r)
qed

lemma read_stat_frame: "same_process (fst (read_stat os pd)) pd"
proof -
  have "same_process (fold store_field fs (pd\<lparr>pd_uid := u, pd_gid := g, statLine := l\<rparr>)) pd" for fs u g l
    using store_fields_frame by (rule same_process_trans) (simp add: same_process_def)
  then show ?thesis
    by (auto simp: read_stat_def scan_stat_def Let_def split: option.splits) (simp_all add: same_process_def)
qed

lemma read_statm_frame: "same_process (fst (read_statm os pd)) pd"
  by (auto simp: read_statm_def same_process_def split: option.splits)

lemma read_status_frame: "same_process (fst (read_status os pd)) pd"
  using status_loop_frame by (auto simp: read_status_def split: option.splits prod.splits) (metis snd_conv)

lemma pd_read_stages:
  assumes "pd_read os pid tid pd = (pd', ok)"
  obtains p1 b1 p2 b2 p3 b3 where
    "read_stat os (pd\<lparr>pd_pid := pid, pd_tid := tid, pd_valid := False\<rparr>) = (p1, b1)"
    "(if b1 \<and> tid = 0 then read_statm os p1 else (p1, b1)) = (p2, b2)"
    "(if b2 \<and> tid = 0 then read_status os p2 else (p2, b2)) = (p3, b3)"
    "(pd', ok) = (if b3 then ((read_allocated os p3)\<lparr>pd_valid := True\<rparr>, True) else (p3, False))"
    "same_process p2 (pd\<lparr>pd_pid := pid, pd_tid := tid, pd_valid := False\<rparr>)"
    "same_process p3 (pd\<lparr>pd_pid := pid, pd_tid := tid, pd_valid := False\<rparr>)"
proof -
  let ?p = "pd\<lparr>pd_pid := pid, pd_tid := tid, pd_valid := False\<rparr>"
  obtain p1 b1 where 1: "read_stat os ?p = (p1, b1)" by fastforce
  obtain p2 b2 where 2: "(if b1 \<and> tid = 0 then read_statm os p1 else (p1, b1)) = (p2, b2)" by fastforce
  obtain p3 b3 where 3: "(if b2 \<and> tid = 0 then read_status os p2 else (p2, b2)) = (p3, b3)" by fastforce
  have "same_process p1 ?p" using read_stat_frame [of os ?p] 1 by simp
  moreover have "same_process p2 p1" using read_statm_frame [of os p1] 2 by (auto split: if_splits)
  moreover have "same_process p3 p2" using read_status_frame [of os p2] 3 by (auto split: if_splits)
  ultimately have "same_process p2 ?p" "same_process p3 ?p" using same_process_trans by blast+
  moreover have "(pd', ok) = (if b3 then ((read_allocated os p3)\<lparr>pd_valid := True\<rparr>, True) else (p3, False))"
    using assms 1 2 3 by (simp add: pd_read_def)
  ultimately show ?thesis using that 1 2 3 by blast
qed

text \<open>read identifies the object, and its result is what isValid says afterwards.\<close>

lemma pd_read_frame:
  assumes "pd_read os pid tid pd = (pd', ok)"
  shows "pd_pid pd' = pid" "pd_tid pd' = tid" "pd_valid pd' = ok" "children pd' = children pd"
    "selected pd' = selected pd"
  using assms by (auto elim!: pd_read_stages simp: same_process_def read_allocated_def split: if_splits)

section \<open>CPU time\<close>

definition clock_ticks :: "process_data \<Rightarrow> nat" where
  "clock_ticks pd = unat (utime pd) + unat (stime pd) + unat (cutime pd) + unat (cstime pd)"

lemma float_of_exact: "unat w < 2 ^ 24 \<Longrightarrow> float_of w = of_nat (unat w)"
  unfolding float_of_def by (intro fl_of_nat) simp_all

lemma flt_sum: "a + b < 2 ^ 24 \<Longrightarrow> flt (of_nat a + of_nat b) = of_nat (a + b)"
  using fl_of_nat [of "a + b" 24] by simp

lemma flt_sum4:
  assumes "a + b + c + d < 2 ^ 24"
  shows "flt (flt (flt (of_nat a + of_nat b) + of_nat c) + of_nat d) = of_nat (a + b + c + d)"
proof -
  have "flt (of_nat a + of_nat b) = of_nat (a + b)" using assms by (intro flt_sum) simp
  moreover have "flt (of_nat (a + b) + of_nat c) = of_nat (a + b + c)" using assms by (intro flt_sum) simp
  moreover have "flt (of_nat (a + b + c) + of_nat d) = of_nat (a + b + c + d)"
    using assms by (intro flt_sum) simp
  ultimately show ?thesis by (simp only:)
qed

lemma getOverallCPUTime_exact:
  assumes "clock_ticks pd < 2 ^ 24" and "unat ticks < 2 ^ 24"
  shows "getOverallCPUTime ticks pd = flt (of_nat (clock_ticks pd) / of_nat (unat ticks))"
proof -
  have le: "unat (stime pd) + unat (utime pd) + unat (cstime pd) + unat (cutime pd) = clock_ticks pd"
    by (simp add: clock_ticks_def)
  then have small: "unat (stime pd) < 2 ^ 24" "unat (utime pd) < 2 ^ 24" "unat (cstime pd) < 2 ^ 24"
    "unat (cutime pd) < 2 ^ 24" using assms(1) by linarith+
  show ?thesis
    unfolding getOverallCPUTime_def float_of_exact [OF small(1)] float_of_exact [OF small(2)]
      float_of_exact [OF small(3)] float_of_exact [OF small(4)] float_of_exact [OF assms(2)]
    using flt_sum4 [of "unat (stime pd)" "unat (utime pd)" "unat (cstime pd)" "unat (cutime pd)"] assms(1)
    by (simp only: le)
qed

section \<open>Reading what the kernel writes\<close>

lemma pd_read_kernel_files:
  assumes "proc_stat os pid 0 = Some f" and "sf_text f = stat_text n comm state nums tail"
    and "plain_name comm" and "\<not> isspace state" and "no_digit_first tail" and "length nums = 20"
    and "fgets 1024 (sf_text f) = Some (sf_text f)"
    and "proc_statm os pid = Some m" and "m \<noteq> []"
    and "proc_status os pid = Some (concat (map entry_text (es1 @ Vm_rss j r # es2 @ Vm_swap k s # es3)))"
    and "\<forall>e\<in>set (es1 @ Vm_rss j r # es2 @ Vm_swap k s # es3). entry_ok e"
    and "list_all is_other es1" and "list_all is_other es2"
  shows "\<exists>pd'. pd_read os pid 0 pd = (pd', True) \<and> pd_valid pd' \<and> pd_pid pd' = pid \<and>
     pd_uid pd' = sf_uid f \<and> pd_gid pd' = sf_gid f \<and>
     pd_ppid pd' = nums ! 0 \<and> pd_pgrp pd' = nums ! 1 \<and>
     utime pd' = ulong_of (nums ! 10) \<and> stime pd' = ulong_of (nums ! 11) \<and>
     cutime pd' = ulong_of (nums ! 12) \<and> cstime pd' = ulong_of (nums ! 13) \<and>
     starttime pd' = ulong_of (nums ! 18) \<and> vsize pd' = ulong_of (nums ! 19) \<and>
     unat (rss pd') = r \<and> unat (swap pd') = s \<and> children pd' = children pd \<and>
     allocatedCores pd' = getAllocatedCores (proc_affinity os pid)"
proof -
  have loop: "status_loop (open_stream (concat (map entry_text (es1 @ Vm_rss j r # es2 @ Vm_swap k s # es3))))
      [] 2 p = (0, p\<lparr>rss := of_nat r, swap := of_nat s\<rparr>)" for p
    using status_loop_entries [OF assms(11), of "[]" 2 p] assms(12,13)
    by (simp add: status_spec_other status_spec_done)
  have sizes: "unat (of_nat r :: u64) = r" "unat (of_nat s :: u64) = s"
    using assms(11) by (simp_all add: unat_of_nat_u64)
  note fields = scan_stat_text [OF assms(3-6), of n]
  have statm: "fgets 1024 m \<noteq> None" using assms(9) by (simp add: fgets_def)
  show ?thesis
    using assms(1,2,7,8,10) statm
    by (auto simp: pd_read_def read_stat_def scan_stat_def fields read_statm_def read_status_def loop
        read_allocated_def sizes simp del: map_append concat_append split: option.splits)
qed

definition demo_numbers :: "int list" where
  "demo_numbers = [1, 42, 42, 34816, 42, 4194304, 120, 0, 0, 0, 7, 3, 0, 0, 20, 0, 1, 0, 5000, 8192000]"

definition demo_procfs :: "string \<Rightarrow> procfs" where
  "demo_procfs comm =
     \<lparr>proc_stat = (\<lambda>pid tid. if pid = 42 \<and> tid = 0 then Some \<lparr>sf_text =
          stat_text 42 comm (CHR ''S'') demo_numbers [newline], sf_uid = 1000, sf_gid = 100\<rparr> else None),
      proc_statm = (\<lambda>pid. Some ''2000 200''),
      proc_status = (\<lambda>pid. Some (concat (map entry_text ([Other_entry ''Name:'' comm] @
          Vm_rss 4 800 # [Other_entry ''VmPTE:'' ''44 kB''] @ Vm_swap 6 0 # [])))),
      proc_affinity = (\<lambda>pid. {0, 1})\<rparr>"

lemma fgets_line:
  assumes "length l + 1 < n" and "newline \<notin> set l"
  shows "fgets n (l @ [newline]) = Some (l @ [newline])"
proof -
  have "takeWhile (\<lambda>c. c \<noteq> newline) (l @ [newline]) = l" using assms(2) by (induction l) auto
  then show ?thesis using assms(1) by (simp add: fgets_def)
qed

lemma length_numbers:
  "\<forall>i\<in>set nums. \<bar>i\<bar> < 10 ^ 20 \<Longrightarrow>
   length (concat (map (\<lambda>i. '' '' @ dec_int i) nums)) \<le> 22 * length nums"
proof (induction nums)
  case (Cons i nums)
  then have "length (dec_int i) \<le> 21" using length_dec_int [of i 19] by simp
  with Cons show ?case by simp
qed simp

text \<open>The line fits the buffer of 1024 bytes.\<close>

lemma fgets_stat_text:
  assumes "\<forall>i\<in>insert n (set nums). \<bar>i\<bar> < 10 ^ 20" and "length nums = 20" and "length comm \<le> 64"
    and "newline \<notin> set comm" and "state \<noteq> newline"
  shows "fgets 1024 (stat_text n comm state nums [newline]) = Some (stat_text n comm state nums [newline])"
proof -
  let ?l = "dec_int n @ '' ('' @ comm @ '') '' @ [state] @ concat (map (\<lambda>i. '' '' @ dec_int i) nums)"
  have "length (dec_int n) \<le> 21" using length_dec_int [of n 19] assms(1) by simp
  then have "length ?l + 1 < 1024" using length_numbers [of nums] assms(1-3) by simp
  moreover have "newline \<notin> set ?l"
    using assms(4,5) newline_dec_int by (auto simp: newline_def)
  ultimately have "fgets 1024 (?l @ [newline]) = Some (?l @ [newline])" by (rule fgets_line)
  then show ?thesis by (simp add: stat_text_def)
qed

lemma demo_stat:
  assumes "length comm \<le> 64" and "newline \<notin> set comm"
  shows "fgets 1024 (stat_text 42 comm (CHR ''S'') demo_numbers [newline]) =
     Some (stat_text 42 comm (CHR ''S'') demo_numbers [newline])"
  using assms by (intro fgets_stat_text) (simp_all add: demo_numbers_def newline_def)

lemma demo_read:
  assumes "proc_stat os 42 0 = proc_stat (demo_procfs ''sleep'') 42 0"
    and "proc_statm os = proc_statm (demo_procfs ''sleep'')"
    and "proc_status os = proc_status (demo_procfs ''sleep'')"
  shows "\<exists>pd'. pd_read os 42 0 pd = (pd', True) \<and> pd_valid pd' \<and> pd_ppid pd' = 1 \<and> utime pd' = 7 \<and>
     stime pd' = 3 \<and> vsize pd' = 8192000 \<and> unat (rss pd') = 800 \<and> unat (swap pd') = 0"
proof -
  let ?f = "\<lparr>sf_text = stat_text 42 ''sleep'' (CHR ''S'') demo_numbers [newline], sf_uid = 1000, sf_gid = 100\<rparr>"
  have stat: "proc_stat os 42 0 = Some ?f" using assms(1) by (simp add: demo_procfs_def)
  have "\<exists>pd'. pd_read os 42 0 pd = (pd', True) \<and> pd_valid pd' \<and> pd_pid pd' = 42 \<and>
     pd_uid pd' = sf_uid ?f \<and> pd_gid pd' = sf_gid ?f \<and>
     pd_ppid pd' = demo_numbers ! 0 \<and> pd_pgrp pd' = demo_numbers ! 1 \<and>
     utime pd' = ulong_of (demo_numbers ! 10) \<and> stime pd' = ulong_of (demo_numbers ! 11) \<and>
     cutime pd' = ulong_of (demo_numbers ! 12) \<and> cstime pd' = ulong_of (demo_numbers ! 13) \<and>
     starttime pd' = ulong_of (demo_numbers ! 18) \<and> vsize pd' = ulong_of (demo_numbers ! 19) \<and>
     unat (rss pd') = 800 \<and> unat (swap pd') = 0 \<and> children pd' = children pd \<and>
     allocatedCores pd' = getAllocatedCores (proc_affinity os 42)"
    by (rule pd_read_kernel_files [OF stat, of 42 "''sleep''" "CHR ''S''" demo_numbers "[newline]"
          "''2000 200''" "[Other_entry ''Name:'' ''sleep'']" 4 800
          "[Other_entry ''VmPTE:'' ''44 kB'']" 6 0 "[]"])
      (use assms(2,3) demo_stat [of "''sleep''"] in
        \<open>simp_all add: plain_name_def isspace_def no_digit_first_def isdigit_def newline_def
          demo_numbers_def demo_procfs_def\<close>)
  then show ?thesis by (auto simp: demo_numbers_def ulong_of_def)
qed

section \<open>Properties\<close>

text \<open>
  Property C22: when /proc describes a process the way the kernel writes it, with a name
  without white space, read succeeds and stores the numbers of the files: parent, group,
  times, start time and virtual size of stat, resident and swapped memory of status (which
  has other lines before, between and after), and the cores of the affinity mask.
\<close>

theorem pd_read_process:
  assumes "proc_stat os pid 0 = Some f" and "sf_text f = stat_text n comm state nums tail"
    and "plain_name comm" and "\<not> isspace state" and "no_digit_first tail" and "length nums = 20"
    and "fgets 1024 (sf_text f) = Some (sf_text f)"
    and "proc_statm os pid = Some m" and "m \<noteq> []"
    and "proc_status os pid = Some (concat (map entry_text (es1 @ Vm_rss j r # es2 @ Vm_swap k s # es3)))"
    and "\<forall>e\<in>set (es1 @ Vm_rss j r # es2 @ Vm_swap k s # es3). entry_ok e"
    and "list_all is_other es1" and "list_all is_other es2"
  shows "\<exists>pd'. pd_read os pid 0 pd = (pd', True) \<and> pd_valid pd' \<and> pd_pid pd' = pid \<and>
     pd_uid pd' = sf_uid f \<and> pd_gid pd' = sf_gid f \<and>
     pd_ppid pd' = nums ! 0 \<and> pd_pgrp pd' = nums ! 1 \<and>
     utime pd' = ulong_of (nums ! 10) \<and> stime pd' = ulong_of (nums ! 11) \<and>
     cutime pd' = ulong_of (nums ! 12) \<and> cstime pd' = ulong_of (nums ! 13) \<and>
     starttime pd' = ulong_of (nums ! 18) \<and> vsize pd' = ulong_of (nums ! 19) \<and>
     unat (rss pd') = r \<and> unat (swap pd') = s \<and> children pd' = children pd \<and>
     allocatedCores pd' = getAllocatedCores (proc_affinity os pid)"
  using pd_read_kernel_files [OF assms] .

theorem pd_read_process_witness:
  "\<forall>pd. \<exists>pd'. pd_read (demo_procfs ''sleep'') 42 0 pd = (pd', True) \<and> utime pd' = 7 \<and> vsize pd' = 8192000 \<and>
     unat (rss pd') = 800"
proof (rule allI, goal_cases)
  case (1 pd)
  let ?os = "demo_procfs ''sleep''"
  let ?f = "\<lparr>sf_text = stat_text 42 ''sleep'' (CHR ''S'') demo_numbers [newline], sf_uid = 1000, sf_gid = 100\<rparr>"
  have stat: "proc_stat ?os 42 0 = Some ?f" by (simp add: demo_procfs_def)
  have "\<exists>pd'. pd_read ?os 42 0 pd = (pd', True) \<and> pd_valid pd' \<and> pd_pid pd' = 42 \<and>
     pd_uid pd' = sf_uid ?f \<and> pd_gid pd' = sf_gid ?f \<and>
     pd_ppid pd' = demo_numbers ! 0 \<and> pd_pgrp pd' = demo_numbers ! 1 \<and>
     utime pd' = ulong_of (demo_numbers ! 10) \<and> stime pd' = ulong_of (demo_numbers ! 11) \<and>
     cutime pd' = ulong_of (demo_numbers ! 12) \<and> cstime pd' = ulong_of (demo_numbers ! 13) \<and>
     starttime pd' = ulong_of (demo_numbers ! 18) \<and> vsize pd' = ulong_of (demo_numbers ! 19) \<and>
     unat (rss pd') = 800 \<and> unat (swap pd') = 0 \<and> children pd' = children pd \<and>
     allocatedCores pd' = getAllocatedCores (proc_affinity ?os 42)"
  proof (rule pd_read_process [OF stat _ _ _ _ _ _ _ _ _ _ _ _])
    show "sf_text ?f = stat_text 42 ''sleep'' (CHR ''S'') demo_numbers [newline]" by simp
    show "plain_name ''sleep''" "\<not> isspace (CHR ''S'')" by (simp_all add: plain_name_def isspace_def)
    show "no_digit_first [newline]" by (simp add: no_digit_first_def isdigit_def newline_def)
    show "length demo_numbers = 20" by (simp add: demo_numbers_def)
    show "fgets 1024 (sf_text ?f) = Some (sf_text ?f)" using demo_stat [of "''sleep''"] by (simp add: newline_def)
    show "proc_statm ?os 42 = Some ''2000 200''" "''2000 200'' \<noteq> []" by (simp_all add: demo_procfs_def)
    show "proc_status ?os 42 = Some (concat (map entry_text ([Other_entry ''Name:'' ''sleep''] @
          Vm_rss 4 800 # [Other_entry ''VmPTE:'' ''44 kB''] @ Vm_swap 6 0 # [])))"
      by (simp add: demo_procfs_def)
    show "\<forall>e\<in>set ([Other_entry ''Name:'' ''sleep''] @ Vm_rss 4 800 #
          [Other_entry ''VmPTE:'' ''44 kB''] @ Vm_swap 6 0 # []). entry_ok e"
      by (simp add: plain_name_def isspace_def newline_def)
  qed simp_all
  then show ?case by (auto simp: demo_numbers_def ulong_of_def)
qed

text \<open>
  A process (or task) whose name has a second word of at least two letters that
  are no digits, as in tmux: server, is never read: no field of the stat file is stored and
  the object is left invalid, so runsolver does not see the process at all.
\<close>

theorem pd_read_two_words:
  assumes "proc_stat os pid tid = Some f"
    and "sf_text f = stat_text n (first @ '' '' @ c # x) state nums tail"
    and "fgets 1024 (sf_text f) = Some (sf_text f)"
    and "plain_name first" and "\<not> isspace c" and "x \<noteq> []"
    and "\<not> isdigit (hd x) \<and> \<not> isspace (hd x) \<and> hd x \<noteq> CHR ''-'' \<and> hd x \<noteq> CHR ''+'' "
  shows "\<exists>pd'. pd_read os pid tid pd = (pd', False) \<and> \<not> pd_valid pd' \<and>
     utime pd' = utime pd \<and> pd_ppid pd' = pd_ppid pd"
  using assms(1-3) scan_stat_two_words [OF assms(4-7), of n state nums tail]
  by (simp add: pd_read_def read_stat_def scan_stat_def)

theorem pd_read_two_words_witness:
  "\<forall>pd. \<exists>pd'. pd_read (demo_procfs ''tmux: server'') 42 0 pd = (pd', False) \<and> \<not> pd_valid pd'"
proof (rule allI, goal_cases)
  case (1 pd)
  have stat: "proc_stat (demo_procfs ''tmux: server'') 42 0 = Some \<lparr>sf_text =
      stat_text 42 ''tmux: server'' (CHR ''S'') demo_numbers [newline], sf_uid = 1000, sf_gid = 100\<rparr>"
    by (simp add: demo_procfs_def)
  have "plain_name ''tmux:''" "\<not> isspace (CHR ''s'')" by (simp_all add: plain_name_def isspace_def)
  with pd_read_two_words [OF stat, of 42 "''tmux:''" "CHR ''s''" "''erver''" "CHR ''S''" demo_numbers "[newline]" pd]
  show ?case using demo_stat [of "''tmux: server''"] by (auto simp: isdigit_def isspace_def newline_def)
qed

text \<open>
  Read fails for a process whose status file has neither a line VmRSS nor a line VmSwap
  (a zombie or a kernel thread), however correct its other files are.
\<close>

theorem pd_read_without_memory:
  assumes "proc_status os pid = Some (concat (map entry_text es))" and "\<forall>e\<in>set es. entry_ok e"
    and "list_all is_other es"
  shows "\<exists>pd'. pd_read os pid 0 pd = (pd', False) \<and> \<not> pd_valid pd'"
proof -
  have loop: "status_loop (open_stream (concat (map entry_text es))) [] 2 p = (2, p)" for p
    using status_loop_entries [OF assms(2), of "[]" 2 p] status_spec_other [OF assms(3), of "[]" 2 p] by simp
  have failing: "\<not> snd (read_status os p)" if "pd_pid p = pid" for p
    using assms(1) loop that by (simp add: read_status_def)
  have "\<not> ok" if "pd_read os pid 0 pd = (pd', ok)" for pd' ok
  proof (rule pd_read_stages [OF that])
    fix p1 b1 p2 b2 p3 b3
    assume "(if b2 \<and> 0 = (0::int) then read_status os p2 else (p2, b2)) = (p3, b3)"
      "(pd', ok) = (if b3 then ((read_allocated os p3)\<lparr>pd_valid := True\<rparr>, True) else (p3, False))"
      "same_process p2 (pd\<lparr>pd_pid := pid, pd_tid := 0, pd_valid := False\<rparr>)"
    with failing [of p2] show "\<not> ok" by (auto simp: same_process_def split: if_splits)
  qed
  then show ?thesis using pd_read_frame(3) by (metis prod.collapse)
qed

theorem pd_read_without_memory_witness:
  "\<forall>pd. \<exists>pd'. pd_read ((demo_procfs ''kthreadd'')\<lparr>proc_status := \<lambda>_. Some (''Name:'' @ [tab] @
       ''kthreadd'' @ [newline])\<rparr>) 42 0 pd = (pd', False) \<and> \<not> pd_valid pd'"
  using pd_read_without_memory [of "(demo_procfs ''kthreadd'')\<lparr>proc_status := \<lambda>_. Some (''Name:'' @ [tab] @
       ''kthreadd'' @ [newline])\<rparr>" 42 "[Other_entry ''Name:'' ''kthreadd'']"]
  by (simp add: plain_name_def isspace_def newline_def)

text \<open>
  Below 2 ^ 24 clock ticks the overall CPU time is the exact quotient rounded
  once to a float; hence it never decreases while the process runs, and as soon as the ticks
  amount to L whole seconds it is at least L, so a limit of L seconds is not missed.
\<close>

theorem getOverallCPUTime_limit:
  assumes "clock_ticks pd < 2 ^ 24" and "0 < unat ticks" and "unat ticks < 2 ^ 24"
  shows "getOverallCPUTime ticks pd = flt (of_nat (clock_ticks pd) / of_nat (unat ticks)) \<and>
     (clock_ticks old \<le> clock_ticks pd \<longrightarrow> getOverallCPUTime ticks old \<le> getOverallCPUTime ticks pd) \<and>
     (L * unat ticks \<le> clock_ticks pd \<longrightarrow> of_nat L \<le> getOverallCPUTime ticks pd)"
proof (intro conjI impI)
  note exact = getOverallCPUTime_exact [OF assms(1,3)]
  show "getOverallCPUTime ticks pd = flt (of_nat (clock_ticks pd) / of_nat (unat ticks))" by (rule exact)
  show "getOverallCPUTime ticks old \<le> getOverallCPUTime ticks pd" if "clock_ticks old \<le> clock_ticks pd"
  proof -
    have "rat_of_nat (clock_ticks old) / of_nat (unat ticks) \<le> of_nat (clock_ticks pd) / of_nat (unat ticks)"
      using that assms(2) by (intro divide_right_mono) (simp only: of_nat_le_iff, rule of_nat_0_le_iff)
    then have "flt (of_nat (clock_ticks old) / of_nat (unat ticks)) \<le>
        flt (of_nat (clock_ticks pd) / of_nat (unat ticks))" by (rule fl_mono) simp
    moreover have "clock_ticks old < 2 ^ 24" using that assms(1) by simp
    ultimately show ?thesis using exact getOverallCPUTime_exact [OF _ assms(3)] by simp
  qed
  show "of_nat L \<le> getOverallCPUTime ticks pd" if "L * unat ticks \<le> clock_ticks pd"
  proof -
    have "L * 1 \<le> L * unat ticks" using assms(2) by (intro mult_le_mono2) simp
    then have "L < 2 ^ 24" using that assms(1) by linarith
    then have L: "flt (of_nat L) = of_nat L" by (intro fl_of_nat) simp_all
    have "rat_of_nat (L * unat ticks) \<le> rat_of_nat (clock_ticks pd)" using that by (simp only: of_nat_le_iff)
    then have "rat_of_nat L \<le> of_nat (clock_ticks pd) / of_nat (unat ticks)"
      using assms(2) by (simp only: pos_le_divide_eq of_nat_mult of_nat_0_less_iff)
    then have "flt (of_nat L) \<le> flt (of_nat (clock_ticks pd) / of_nat (unat ticks))" by (rule fl_mono) simp
    with exact L show ?thesis by simp
  qed
qed

theorem getOverallCPUTime_limit_witness:
  "\<forall>pd. (5 :: rat) \<le> getOverallCPUTime 100 (pd\<lparr>utime := 300, stime := 150, cutime := 50, cstime := 0\<rparr>)"
proof (rule allI, goal_cases)
  case (1 pd)
  let ?pd = "pd\<lparr>utime := 300, stime := 150, cutime := 50, cstime := 0\<rparr>"
  have t: "clock_ticks ?pd = 500" by (simp add: clock_ticks_def)
  then have "clock_ticks ?pd < 2 ^ 24" "0 < unat (100 :: u64)" "unat (100 :: u64) < 2 ^ 24" by simp_all
  from getOverallCPUTime_limit [OF this, of ?pd 5]
  have "5 * unat (100 :: u64) \<le> clock_ticks ?pd \<longrightarrow> rat_of_nat 5 \<le> getOverallCPUTime 100 ?pd" by blast
  with t show ?case by simp
qed

lemma core_writes_cout: "received True (core_writes first l) = print_runs first l"
  by (induction first l rule: print_runs.induct) (auto simp: received_def split: prod.splits)

text \<open>
  Printed to cout, the cores are the list of Cores.hh; printed to any other
  stream they lose their commas, which go to cout: cores 0 to 3 and 8 are shown as 0-38.
\<close>

theorem printed_cores:
  "pd_printAllocatedCores True pd = printAllocatedCores (allocatedCores pd) \<and>
   pd_printAllocatedCores False (pd\<lparr>allocatedCores := [0, 1, 2, 3, 8]\<rparr>) = ''0-38''"
proof
  show "pd_printAllocatedCores True pd = printAllocatedCores (allocatedCores pd)"
    by (simp add: pd_printAllocatedCores_def printAllocatedCores_def core_writes_cout)
  have "received False (core_writes True [0, 1, 2, 3, 8]) = ''0-38''" by code_simp
  then show "pd_printAllocatedCores False (pd\<lparr>allocatedCores := [0, 1, 2, 3, 8]\<rparr>) = ''0-38''"
    by (simp add: pd_printAllocatedCores_def)
qed

end
