(* ===== verification/Std_Map.thy ===== *)
theory Std_Map
  imports Runsolver_Prelude
begin

text \<open>
  std::map as the source uses it: an association list in increasing order of the keys, which
  is the order in which an iterator visits it.
\<close>

type_synonym ('k, 'v) std_map = "('k \<times> 'v) list"

definition map_find :: "('k, 'v) std_map \<Rightarrow> 'k \<Rightarrow> 'v option" where
  "map_find m = map_of m"

fun map_put :: "'k::linorder \<Rightarrow> 'v \<Rightarrow> ('k, 'v) std_map \<Rightarrow> ('k, 'v) std_map" where
  "map_put k v [] = [(k, v)]"
| "map_put k v ((k', v') # m) =
     (if k < k' then (k, v) # (k', v') # m
      else if k = k' then (k, v) # m else (k', v') # map_put k v m)"

definition map_erase :: "'k \<Rightarrow> ('k, 'v) std_map \<Rightarrow> ('k, 'v) std_map" where
  "map_erase k m = filter (\<lambda>(k', v). k' \<noteq> k) m"

definition map_adjust :: "'k \<Rightarrow> ('v \<Rightarrow> 'v) \<Rightarrow> ('k, 'v) std_map \<Rightarrow> ('k, 'v) std_map" where
  "map_adjust k f m = map (\<lambda>(k', v). (k', if k' = k then f v else v)) m"

definition map_keys :: "('k, 'v) std_map \<Rightarrow> 'k list" where
  "map_keys m = map fst m"

definition wf_map :: "('k::linorder, 'v) std_map \<Rightarrow> bool" where
  "wf_map m \<longleftrightarrow> sorted_wrt (<) (map_keys m)"

section \<open>The interface of a map\<close>

text \<open>
  What its clients use: a lookup after each operation, and keys listed once, in increasing
  order. The client's lemmas: filling a map from a list of pairs.
\<close>

locale ordered_map =
  fixes lookup :: "'m \<Rightarrow> 'k::linorder \<Rightarrow> 'v option"
    and insert_at :: "'k \<Rightarrow> 'v \<Rightarrow> 'm \<Rightarrow> 'm"
    and key_list :: "'m \<Rightarrow> 'k list"
    and ok :: "'m \<Rightarrow> bool"
  assumes lookup_insert: "ok m \<Longrightarrow> lookup (insert_at k v m) = (lookup m)(k \<mapsto> v)"
    and ok_insert: "ok m \<Longrightarrow> ok (insert_at k v m)"
    and keys_dom: "ok m \<Longrightarrow> set (key_list m) = dom (lookup m)"
    and keys_sorted: "ok m \<Longrightarrow> sorted_wrt (<) (key_list m)"
begin

definition insert_all :: "('k \<times> 'v) list \<Rightarrow> 'm \<Rightarrow> 'm" where
  "insert_all kvs m = fold (\<lambda>(k, v). insert_at k v) kvs m"

lemma ok_insert_all: "ok m \<Longrightarrow> ok (insert_all kvs m)"
  by (induction kvs arbitrary: m) (auto simp: insert_all_def ok_insert)

lemma lookup_insert_all:
  "ok m \<Longrightarrow> lookup (insert_all kvs m) = lookup m ++ map_of (rev kvs)"
proof (induction kvs arbitrary: m)
  case Nil
  then show ?case by (simp add: insert_all_def)
next
  case (Cons kv kvs)
  obtain k v where kv: "kv = (k, v)" by (cases kv)
  have "lookup (insert_all (kv # kvs) m) = lookup (insert_at k v m) ++ map_of (rev kvs)"
    using Cons.IH [OF ok_insert [OF Cons.prems], of k v] by (simp add: insert_all_def kv)
  then show ?case
    by (simp add: lookup_insert [OF Cons.prems] kv map_add_def fun_eq_iff split: option.split)
qed

lemma key_list_filter: "ok m \<Longrightarrow> sorted_list_of_set {k \<in> dom (lookup m). P k} = filter P (key_list m)"
proof -
  assume "ok m"
  then have "sorted_wrt (<) (filter P (key_list m))" by (simp add: keys_sorted sorted_wrt_filter)
  moreover have "set (filter P (key_list m)) = {k \<in> dom (lookup m). P k}"
    using keys_dom [OF \<open>ok m\<close>] by auto
  ultimately show ?thesis
    using sorted_list_of_set_unique [of "{k \<in> dom (lookup m). P k}" "filter P (key_list m)"]
    by (metis List.finite_set distinct_card strict_sorted_iff)
qed

end

section \<open>The sorted list is such a map\<close>

lemma map_keys_simps [simp]: "map_keys [] = []" "map_keys (a # m) = fst a # map_keys m"
  by (simp_all add: map_keys_def)

lemma keys_put: "set (map_keys (map_put k v m)) = insert k (set (map_keys m))"
proof (induction k v m rule: map_put.induct)
  case (2 k v k' v' m)
  show ?case
  proof (cases "k < k' \<or> k = k'")
    case True
    then show ?thesis by auto
  next
    case False
    then have "map_keys (map_put k v ((k', v') # m)) = k' # map_keys (map_put k v m)" by simp
    moreover have "set (map_keys (map_put k v m)) = insert k (set (map_keys m))"
      using False by (intro "2.IH") simp_all
    ultimately have "set (map_keys (map_put k v ((k', v') # m))) = insert k' (insert k (set (map_keys m)))"
      by (simp only: list.set)
    then show ?thesis by (simp only: map_keys_simps list.set fst_conv insert_commute)
  qed
qed simp

lemma wf_put: "wf_map m \<Longrightarrow> wf_map (map_put k v m)"
proof (induction m)
  case (Cons a m)
  then have "wf_map m" "\<forall>x\<in>set (map_keys m). fst a < x" by (auto simp: wf_map_def map_keys_def)
  with Cons show ?case
    using keys_put [of k v m] by (cases a) (auto simp: wf_map_def map_keys_def)
qed (simp add: wf_map_def map_keys_def)

lemma find_put: "wf_map m \<Longrightarrow> map_find (map_put k v m) = (map_find m)(k \<mapsto> v)"
proof (induction m)
  case (Cons a m)
  then have "wf_map m" by (auto simp: wf_map_def map_keys_def)
  with Cons.IH show ?case by (cases a) (auto simp: map_find_def fun_eq_iff)
qed (auto simp: map_find_def fun_eq_iff)

lemma dom_find: "dom (map_find m) = set (map_keys m)"
  by (simp add: map_find_def map_keys_def dom_map_of_conv_image_fst fun_eq_iff)

interpretation sm: ordered_map map_find map_put map_keys wf_map
  by unfold_locales (simp_all add: find_put wf_put dom_find, simp add: wf_map_def)

lemma wf_empty [simp]: "wf_map []"
  by (simp add: wf_map_def map_keys_def)

lemma find_empty [simp]: "map_find [] k = None"
  by (simp add: map_find_def)

lemma keys_adjust [simp]: "map_keys (map_adjust k f m) = map_keys m"
  by (simp add: map_keys_def map_adjust_def comp_def case_prod_beta)

lemma wf_adjust [simp]: "wf_map (map_adjust k f m) = wf_map m"
  by (simp add: wf_map_def)

lemma find_adjust: "map_find (map_adjust k f m) = (map_find m)(k := map_option f (map_find m k))"
  by (induction m) (auto simp: map_find_def map_adjust_def fun_eq_iff)

lemma find_erase: "map_find (map_erase k m) = (map_find m)(k := None)"
  by (induction m) (auto simp: map_find_def map_erase_def fun_eq_iff)

lemma wf_erase: "wf_map m \<Longrightarrow> wf_map (map_erase k m)"
  unfolding wf_map_def map_keys_def map_erase_def sorted_wrt_map by (rule sorted_wrt_filter)

end
