(* ===== verification/Process_Tree.thy ===== *)
theory Process_Tree
  imports Process_Data Std_Map "HOL-Library.Multiset"
begin

text \<open>
  ProcessTree.hh: the processes of the solver, found in /proc by their parents, the sums over
  them, and the signals sent to them.
\<close>

section \<open>The rest of /proc\<close>

text \<open>
  The names in /proc and in the task directory of a process, in the order of readdir; the
  global files; \<open>garbage\<close> is what fresh memory holds. One value of this type is the state of
  the system during one operation.
\<close>

datatype task_dir = Tasks "string list" | No_entry | Unreadable string

record proc_system = procfs +
  proc_entries :: "string list option"
  task_entries :: "int \<Rightarrow> task_dir"
  loadavg_file :: "string option"
  meminfo_file :: "string option"
  uptime_file :: "string option"
  cmdline_file :: "int \<Rightarrow> string option"
  garbage :: process_data

section \<open>State\<close>

text \<open>
  The map holds pointers. operator[] adds a null pointer for a key without entry; a null
  entry is treated like a missing one by every operation but dumpHeavyProcesses, which only
  looks at trees that hold all processes, where every child has an entry. It is left out.
\<close>

record process_tree =
  tree :: "(int, process_data) std_map"
  roots :: "int list"
  loadavgLine :: string
  memTotal :: int
  memFree :: int
  swapTotal :: int
  swapFree :: int
  elapsed :: rat
  uptime :: rat
  completedCPUTime :: rat
  treeHasAllProcesses :: bool
  runsolverPID :: int

text \<open>The object in memory \<open>raw\<close>.\<close>

definition pt_construct :: "process_tree \<Rightarrow> process_tree" where
  "pt_construct raw = raw\<lparr>tree := [], roots := [], loadavgLine := [], completedCPUTime := 0,
     treeHasAllProcesses := False, runsolverPID := - 1\<rparr>"

definition pt_clear :: "process_tree \<Rightarrow> process_tree" where
  "pt_clear pt = pt\<lparr>tree := [], roots := []\<rparr>"

definition setRunsolverPID :: "int \<Rightarrow> process_tree \<Rightarrow> process_tree" where
  "setRunsolverPID pid pt = pt\<lparr>runsolverPID := pid\<rparr>"

definition setElapsedTime :: "rat \<Rightarrow> process_tree \<Rightarrow> process_tree" where
  "setElapsedTime t pt = pt\<lparr>elapsed := t\<rparr>"

definition setCompletedCPUTime :: "rat \<Rightarrow> process_tree \<Rightarrow> process_tree" where
  "setCompletedCPUTime t pt = pt\<lparr>completedCPUTime := t\<rparr>"

definition solverEnded :: "process_tree \<Rightarrow> bool" where
  "solverEnded pt \<longleftrightarrow> roots pt = []"

section \<open>Global data\<close>

lemma in_long_le: "length (rest (snd (in_long old i))) \<le> length (rest i)"
proof -
  define r where "r = dropWhile isspace (rest i)"
  have r: "length r \<le> length (rest i)" by (simp add: r_def length_dropWhile_le)
  have "length (dropWhile isdigit r) \<le> length (rest i)"
    "length (dropWhile isdigit (tl r)) \<le> length (rest i)"
    using r by (auto intro: le_trans [OF length_dropWhile_le] simp: le_trans [OF length_dropWhile_le])
  then show ?thesis
    by (auto simp: in_long_def sentry_def Let_def r_def split: prod.splits bool.splits if_splits)
qed

definition meminfo_field :: "string \<Rightarrow> int \<Rightarrow> nat \<times> process_tree \<Rightarrow> nat \<times> process_tree" where
  "meminfo_field key v npt =
     (let (n, pt) = npt in
      if key = ''MemTotal:'' then (n - 1, pt\<lparr>memTotal := v\<rparr>)
      else if key = ''MemFree:'' then (n - 1, pt\<lparr>memFree := v\<rparr>)
      else if key = ''SwapTotal:'' then (n - 1, pt\<lparr>swapTotal := v\<rparr>)
      else if key = ''SwapFree:'' then (n - 1, pt\<lparr>swapFree := v\<rparr>)
      else (n, pt))"

function meminfo_loop :: "istream \<Rightarrow> string \<Rightarrow> int \<Rightarrow> nat \<times> process_tree \<Rightarrow> process_tree" where
  "meminfo_loop i key v npt =
     (if fst npt = 0 then snd npt
      else
        let (key, i1) = in_word key i; (v, i1) = in_long v i1 in
        if failbit i1 then snd npt
        else
          let npt = meminfo_field key v npt; (key, i2) = in_getline key i1
          in meminfo_loop i2 key v npt)"
  by pat_completeness auto

lemma in_word_not_good: "\<not> good i \<Longrightarrow> failbit (snd (in_word old i))" and
  in_long_not_good: "\<not> good i \<Longrightarrow> failbit (snd (in_long v i))"
  by (simp_all add: in_word_def in_long_def sentry_def)

termination meminfo_loop
proof (relation "measure (\<lambda>(i, key, v, npt). stream_measure i)", goal_cases)
  case (2 i key v npt x key1 i1 y v2 i2 npt2 z key3 i3)
  then have w: "in_word key i = (key1, i1)" "in_long v i1 = (v2, i2)" "\<not> failbit i2"
    "in_getline key1 i2 = (key3, i3)" by simp_all
  then have "good i1" using in_long_not_good [of i1 v] by auto
  then have "good i" using in_word_not_good [of i key] w(1) by (auto simp: good_def)
  moreover have "length (rest i2) \<le> length (rest i)"
    using in_word_le [of key i] in_long_le [of v i1] w(1,2) by simp
  ultimately show ?case using getline_after [OF _ _ w(4)] by simp
qed simp

declare meminfo_loop.simps [simp del]

definition readGlobalData :: "'a proc_system_scheme \<Rightarrow> process_tree \<Rightarrow> process_tree" where
  "readGlobalData os pt =
     (let pt = (case loadavg_file os of None \<Rightarrow> pt
                | Some text \<Rightarrow> pt\<lparr>loadavgLine := fst (in_getline (loadavgLine pt) (open_stream text))\<rparr>);
          pt = (case meminfo_file os of None \<Rightarrow> pt
                | Some text \<Rightarrow> meminfo_loop (open_stream text) [] 0 (4, pt));
          pt = (case uptime_file os of None \<Rightarrow> pt
                | Some text \<Rightarrow> pt\<lparr>uptime := fst (in_float (uptime pt) (open_stream text))\<rparr>)
      in pt)"

section \<open>Finding the processes\<close>

text \<open>A directory entry stands for a process when its first character is a digit.\<close>

definition atoi :: "string \<Rightarrow> int" where
  "atoi name = int (digits_value (takeWhile isdigit name))"

definition entry_pids :: "string list \<Rightarrow> int list" where
  "entry_pids names = map atoi (filter (\<lambda>n. n \<noteq> [] \<and> isdigit (hd n)) names)"

definition add_process :: "'a proc_system_scheme \<Rightarrow> int \<Rightarrow> process_tree \<Rightarrow> process_tree" where
  "add_process os pid pt =
     (let pd = pd_create os pid 0 (garbage os) in
      if pd_valid pd then
        let pt = pt\<lparr>tree := map_put pid pd (tree pt)\<rparr>
        in if pd_ppid pd = runsolverPID pt then pt\<lparr>roots := roots pt @ [pid]\<rparr> else pt
      else pt)"

definition link_child :: "int \<Rightarrow> process_tree \<times> event list \<Rightarrow> process_tree \<times> event list" where
  "link_child pid st =
     (let (pt, evs) = st in
      case map_find (tree pt) pid of
        None \<Rightarrow> (pt, evs @ [Print (''Ooops ! No data available on process '' @ dec_int pid @ endl)])
      | Some data \<Rightarrow>
          if \<not> pd_valid data then
            (pt, evs @ [Print (''Ooops ! No data available on process '' @ dec_int pid @ endl)])
          else
            let parent = pd_ppid data in
            if parent = - 1 then (pt, evs)
            else if map_find (tree pt) parent = None then (pt, evs)
            else (pt\<lparr>tree := map_adjust parent (addChild pid) (tree pt)\<rparr>, evs))"

definition identifyChildren :: "process_tree \<Rightarrow> process_tree \<times> event list" where
  "identifyChildren pt = fold link_child (map_keys (tree pt)) (pt, [])"

text \<open>The valid data on a process, which is what every operation looks at.\<close>

definition data_on :: "process_tree \<Rightarrow> int \<Rightarrow> process_data option" where
  "data_on pt pid =
     (case map_find (tree pt) pid of None \<Rightarrow> None
      | Some data \<Rightarrow> if pd_valid data then Some data else None)"

text \<open>The condition in front of most recursive calls: there is an entry, and it is no task.\<close>

definition is_process :: "process_tree \<Rightarrow> int \<Rightarrow> bool" where
  "is_process pt pid =
     (case map_find (tree pt) pid of None \<Rightarrow> False | Some data \<Rightarrow> \<not> isTask data)"

definition add_task :: "'a proc_system_scheme \<Rightarrow> int \<Rightarrow> int \<Rightarrow> process_tree \<Rightarrow> process_tree" where
  "add_task os pid tid pt =
     (if tid = pid then pt
      else
        let pd = pd_create os pid tid (garbage os) in
        if pd_valid pd then
          pt\<lparr>tree := map_adjust pid (addChild tid) (map_put tid pd (tree pt))\<rparr>
        else pt)"

definition readProcessTasks ::
  "'a proc_system_scheme \<Rightarrow> int \<Rightarrow> process_tree \<times> event list \<Rightarrow> process_tree \<times> event list" where
  "readProcessTasks os pid st =
     (let (pt, evs) = st in
      if data_on pt pid = None then (pt, evs)
      else
        case task_entries os pid of
          No_entry \<Rightarrow> (pt, evs)
        | Unreadable e \<Rightarrow>
            (pt, evs @ [Print (''!!! unable to read /proc/'' @ dec_int pid @ ''/task filesystem ('' @ e @
               '') !!!'' @ endl)])
        | Tasks names \<Rightarrow> (fold (add_task os pid) (entry_pids names) pt, evs))"

text \<open>
  The recursive operations; None when the recursion does not end, which needs a process that
  descends from itself.
\<close>

partial_function (option) readTasksRec ::
  "'a proc_system_scheme \<Rightarrow> int \<Rightarrow> process_tree \<times> event list \<Rightarrow> (process_tree \<times> event list) option" where
  "readTasksRec os pid st =
     (if data_on (fst st) pid = None then Some st
      else
        let st = readProcessTasks os pid st in
        for_each (\<lambda>child st. if is_process (fst st) child then readTasksRec os child st else Some st)
          (case map_find (tree (fst st)) pid of None \<Rightarrow> [] | Some data \<Rightarrow> children data) st)"

definition readProcesses ::
  "'a proc_system_scheme \<Rightarrow> process_tree \<Rightarrow> (process_tree \<times> event list) run" where
  "readProcesses os pt =
     (let pt = readGlobalData os (pt_clear pt) in
      case proc_entries os of
        None \<Rightarrow> Some (Inl (Runtime_error ''unable to read /proc filesystem''))
      | Some names \<Rightarrow>
          let pt = fold (add_process os) (entry_pids names) pt;
              st = identifyChildren (pt\<lparr>treeHasAllProcesses := True\<rparr>)
          in lift_option (for_each (readTasksRec os) (roots (fst st)) st))"

section \<open>Updating\<close>

partial_function (option) updateProcessesDataRec ::
  "'a proc_system_scheme \<Rightarrow> int \<Rightarrow> process_tree \<Rightarrow> (bool \<times> process_tree) option" where
  "updateProcessesDataRec os root_pid pt =
     (case map_find (tree pt) root_pid of
        None \<Rightarrow> Some (False, pt)
      | Some data \<Rightarrow>
          let (data, ok) = pd_update os data in
          if \<not> ok then Some (False, pt\<lparr>tree := map_erase root_pid (tree pt)\<rparr>)
          else
            Option.bind
              (for_each (\<lambda>child pt. Option.bind (updateProcessesDataRec os child pt) (\<lambda>(_, pt). Some pt))
                (children data) (pt\<lparr>tree := map_put root_pid data (tree pt)\<rparr>))
              (\<lambda>pt. Some (True, pt)))"

definition updateProcessesData ::
  "'a proc_system_scheme \<Rightarrow> process_tree \<Rightarrow> (process_tree \<times> event list) run" where
  "updateProcessesData os pt =
     run_then (lift_option (for_each
         (\<lambda>root_pid (allRootsOK, pt).
            if allRootsOK then updateProcessesDataRec os root_pid pt else Some (False, pt))
         (roots pt) (True, pt)))
       (\<lambda>(allRootsOK, pt). if allRootsOK then returns (pt, []) else readProcesses os pt)"

section \<open>Sums over the solver's processes\<close>

partial_function (option) currentCPUTimeRec ::
  "u64 \<Rightarrow> process_tree \<Rightarrow> int \<Rightarrow> rat \<times> rat \<Rightarrow> (rat \<times> rat) option" where
  "currentCPUTimeRec ticks pt pid t =
     (case data_on pt pid of
        None \<Rightarrow> Some t
      | Some data \<Rightarrow>
          for_each (\<lambda>child t. if is_process pt child then currentCPUTimeRec ticks pt child t else Some t)
            (children data)
            (flt (fst t + getOverallUserTime ticks data), flt (snd t + getOverallSystemTime ticks data)))"

definition currentTimes :: "u64 \<Rightarrow> process_tree \<Rightarrow> (rat \<times> rat) option" where
  "currentTimes ticks pt = for_each (currentCPUTimeRec ticks pt) (roots pt) (0, 0)"

definition pt_currentCPUTime :: "u64 \<Rightarrow> process_tree \<Rightarrow> rat option" where
  "pt_currentCPUTime ticks pt = map_option (\<lambda>(user, system). flt (user + system)) (currentTimes ticks pt)"

partial_function (option) currentVSizeRec :: "process_tree \<Rightarrow> int \<Rightarrow> int option" where
  "currentVSizeRec pt pid =
     (case data_on pt pid of
        None \<Rightarrow> Some 0
      | Some data \<Rightarrow>
          for_each (\<lambda>child size.
              if is_process pt child
              then Option.bind (currentVSizeRec pt child) (\<lambda>s. Some (size + s)) else Some size)
            (children data) (getVSize data))"

definition pt_currentVSize :: "process_tree \<Rightarrow> int option" where
  "pt_currentVSize pt =
     for_each (\<lambda>root_pid sum. Option.bind (currentVSizeRec pt root_pid) (\<lambda>s. Some (sum + s))) (roots pt) 0"

partial_function (option) currentMemoryRec :: "process_tree \<Rightarrow> int \<Rightarrow> int option" where
  "currentMemoryRec pt pid =
     (case data_on pt pid of
        None \<Rightarrow> Some 0
      | Some data \<Rightarrow>
          for_each (\<lambda>child mem.
              if is_process pt child
              then Option.bind (currentMemoryRec pt child) (\<lambda>s. Some (mem + s)) else Some mem)
            (children data) (getMemory data))"

definition pt_currentMemory :: "process_tree \<Rightarrow> int option" where
  "pt_currentMemory pt =
     for_each (\<lambda>root_pid sum. Option.bind (currentMemoryRec pt root_pid) (\<lambda>s. Some (sum + s))) (roots pt) 0"

partial_function (option) listProcessesRec ::
  "process_tree \<Rightarrow> int \<Rightarrow> int set \<Rightarrow> int set option" where
  "listProcessesRec pt pid l =
     (case data_on pt pid of
        None \<Rightarrow> Some l
      | Some data \<Rightarrow> for_each (\<lambda>child l. listProcessesRec pt child l) (children data) (insert pid l))"

definition listProcesses :: "process_tree \<Rightarrow> int set \<Rightarrow> int set option" where
  "listProcesses pt l = for_each (listProcessesRec pt) (roots pt) l"

section \<open>Signals\<close>

partial_function (option) sendSignalNowRec ::
  "process_tree \<Rightarrow> int \<Rightarrow> int \<Rightarrow> event list \<Rightarrow> event list option" where
  "sendSignalNowRec pt sig pid evs =
     (case data_on pt pid of
        None \<Rightarrow> Some evs
      | Some data \<Rightarrow>
          Option.bind
            (if children data \<noteq> [] then
               for_each (\<lambda>child evs. if is_process pt child then sendSignalNowRec pt sig child evs else Some evs)
                 (children data) evs
             else Some evs)
            (\<lambda>evs. Some (evs @ [Print (''??? kill '' @ dec_int pid @ '' sig '' @ dec_int sig @ endl),
                               Kill pid sig])))"

definition sendSignalNow :: "process_tree \<Rightarrow> int \<Rightarrow> event list option" where
  "sendSignalNow pt sig = for_each (sendSignalNowRec pt sig) (roots pt) []"

text \<open>The delay is the octal number 020000000, that is 4194304, in nanoseconds.\<close>

partial_function (option) sendSignalBottomUpRec ::
  "process_tree \<Rightarrow> int \<Rightarrow> int \<Rightarrow> event list \<Rightarrow> event list option" where
  "sendSignalBottomUpRec pt sig pid evs =
     (case data_on pt pid of
        None \<Rightarrow> Some evs
      | Some data \<Rightarrow>
          Option.bind
            (if children data \<noteq> [] then
               Option.bind
                 (for_each (\<lambda>child evs.
                      if is_process pt child then sendSignalBottomUpRec pt sig child evs else Some evs)
                   (children data) evs)
                 (\<lambda>evs. Some (evs @ [Pause 4194304]))
             else Some evs)
            (\<lambda>evs. Some (evs @ [Kill pid sig])))"

definition sendSignalBottomUp :: "process_tree \<Rightarrow> int \<Rightarrow> event list option" where
  "sendSignalBottomUp pt sig = for_each (sendSignalBottomUpRec pt sig) (roots pt) []"

section \<open>Copies\<close>

partial_function (option) cloneRec ::
  "process_data \<Rightarrow> process_tree \<Rightarrow> int \<Rightarrow> process_tree \<Rightarrow> process_tree option" where
  "cloneRec raw src pid pt =
     (case data_on src pid of
        None \<Rightarrow> Some pt
      | Some data \<Rightarrow>
          for_each (cloneRec raw src) (children data)
            (pt\<lparr>tree := map_put pid (pd_copy raw data) (tree pt)\<rparr>))"

definition clone :: "process_data \<Rightarrow> process_tree \<Rightarrow> process_tree \<Rightarrow> process_tree option" where
  "clone raw src pt = for_each (cloneRec raw src) (roots src) (pt\<lparr>treeHasAllProcesses := False\<rparr>)"

text \<open>
  The copy constructor: \<open>raw\<close> and \<open>raw_data\<close> are the memory of the new objects. The uptime
  is not copied.
\<close>

definition pt_copy :: "process_tree \<Rightarrow> process_data \<Rightarrow> process_tree \<Rightarrow> process_tree option" where
  "pt_copy raw raw_data src =
     clone raw_data src
       (raw\<lparr>tree := [], roots := roots src, completedCPUTime := completedCPUTime src,
          runsolverPID := runsolverPID src, treeHasAllProcesses := treeHasAllProcesses src,
          elapsed := elapsed src, memTotal := memTotal src, memFree := memFree src,
          swapTotal := swapTotal src, swapFree := swapFree src, loadavgLine := loadavgLine src\<rparr>)"

section \<open>Display\<close>

text \<open>The stream is cout in every call of the program.\<close>

partial_function (option) dumpProcessTreeRec ::
  "u64 \<Rightarrow> process_tree \<Rightarrow> int \<Rightarrow> string \<Rightarrow> string option" where
  "dumpProcessTreeRec ticks pt pid out =
     (case data_on pt pid of
        None \<Rightarrow> Some out
      | Some data \<Rightarrow>
          for_each (dumpProcessTreeRec ticks pt) (children data) (out @ pd_print ticks True data))"

definition dumpGlobalData :: "process_tree \<Rightarrow> string" where
  "dumpGlobalData pt =
     ''/proc/loadavg: '' @ loadavgLine pt @ [newline] @
     ''/proc/meminfo: memFree='' @ dec_int (memFree pt) @ ''/'' @ dec_int (memTotal pt) @
     '' swapFree='' @ dec_int (swapFree pt) @ ''/'' @ dec_int (swapTotal pt) @ endl"

definition dumpProcessTree :: "u64 \<Rightarrow> process_tree \<Rightarrow> string option" where
  "dumpProcessTree ticks pt =
     for_each (dumpProcessTreeRec ticks pt) (roots pt)
       ([newline] @ ''[startup+'' @ ostream_float (elapsed pt) @ '' s]'' @
        (if treeHasAllProcesses pt then ''*'' else []) @ endl @ dumpGlobalData pt)"

definition dump_sums :: "process_tree \<Rightarrow> rat \<Rightarrow> int \<Rightarrow> int \<Rightarrow> string" where
  "dump_sums pt cpu vs mem =
     (if completedCPUTime pt \<noteq> 0
      then ''Current cumulated CPU time of completed processes: '' @
        ostream_float (completedCPUTime pt) @ '' s'' @ [newline] else []) @
     ''Current children cumulated CPU time: '' @ ostream_float cpu @ '' s'' @ [newline] @
     ''Current children cumulated vsize: '' @ dec_int vs @ '' KiB'' @ [newline] @
     ''Current children cumulated memory: '' @ dec_int mem @ '' KiB'' @ endl"

definition dumpCPUTimeAndVSize :: "u64 \<Rightarrow> process_tree \<Rightarrow> string option" where
  "dumpCPUTimeAndVSize ticks pt =
     Option.bind (pt_currentVSize pt) (\<lambda>vs.
     Option.bind (pt_currentMemory pt) (\<lambda>mem.
     Option.bind (currentTimes ticks pt) (\<lambda>(user, system).
     Some (dump_sums pt (flt (user + system)) vs mem))))"

definition dumpCmdLine :: "'a proc_system_scheme \<Rightarrow> int \<Rightarrow> string" where
  "dumpCmdLine os pid =
     (case cmdline_file os pid of None \<Rightarrow> []
      | Some bytes \<Rightarrow> map (\<lambda>c. if c = CHR 0x00 then CHR '' '' else c) (take 128 bytes))"

text \<open>A cast to int drops the fraction.\<close>

definition truncate :: "rat \<Rightarrow> int" where
  "truncate x = (if x < 0 then - \<lfloor>- x\<rfloor> else \<lfloor>x\<rfloor>)"

definition heavy_line ::
  "'a proc_system_scheme \<Rightarrow> u64 \<Rightarrow> nat \<Rightarrow> rat \<Rightarrow> process_tree \<Rightarrow> int \<times> process_data \<Rightarrow> string" where
  "heavy_line os ticks myUid threshold pt entry =
     (let (pid, data) = entry in
      if \<not> pd_valid data then ''Ooops ! No data available on process '' @ dec_int pid @ endl
      else
        let pcpu = percentageCPU ticks data (uptime pt) False in
        if pd_uid data \<noteq> myUid \<and> threshold < pcpu then
          ''  %CPU='' @ dec_int (truncate (flt (pcpu * 100))) @ '' pid='' @ dec_int pid @
          '' uid='' @ dec_nat (pd_uid data) @ '' cmd='' @ dumpCmdLine os pid @ endl
        else [])"

definition dumpHeavyProcesses ::
  "'a proc_system_scheme \<Rightarrow> u64 \<Rightarrow> nat \<Rightarrow> rat \<Rightarrow> process_tree \<Rightarrow> (process_tree \<times> event list) run" where
  "dumpHeavyProcesses os ticks myUid threshold pt =
     run_then (if treeHasAllProcesses pt then returns (pt, []) else readProcesses os pt)
       (\<lambda>(pt, evs). returns (pt, evs @ [Print (''heavy processes:'' @ [newline] @
          concat (map (heavy_line os ticks myUid threshold pt) (tree pt)))]))"

section \<open>Trees without cycles\<close>

text \<open>
  A rank that decreases from every process to its children: no process descends from itself.
  Then every recursion ends.
\<close>

definition ranked :: "(int \<Rightarrow> nat) \<Rightarrow> process_tree \<Rightarrow> bool" where
  "ranked rank pt \<longleftrightarrow>
     (\<forall>pid data. map_find (tree pt) pid = Some data \<longrightarrow> (\<forall>c\<in>set (children data). rank c < rank pid))"

lemma data_on_Some: "data_on pt pid = Some d \<longleftrightarrow> map_find (tree pt) pid = Some d \<and> pd_valid d"
  by (auto simp: data_on_def split: option.splits if_splits)

lemma ranked_child: "ranked rank pt \<Longrightarrow> data_on pt pid = Some d \<Longrightarrow> c \<in> set (children d) \<Longrightarrow> rank c < rank pid"
  by (auto simp: ranked_def data_on_Some)

text \<open>
  The processes below pid, in the order of the recursion: \<open>below\<close> has a process before its
  descendants, \<open>bottom_up\<close> after them.
\<close>

definition kids :: "process_tree \<Rightarrow> process_data \<Rightarrow> int list" where
  "kids pt d = filter (is_process pt) (children d)"

partial_function (option) pre :: "process_tree \<Rightarrow> int \<Rightarrow> int list option" where
  "pre pt pid =
     (case data_on pt pid of None \<Rightarrow> Some []
      | Some d \<Rightarrow> for_each (\<lambda>c l. Option.bind (pre pt c) (\<lambda>l'. Some (l @ l'))) (kids pt d) [pid])"

definition below :: "process_tree \<Rightarrow> int \<Rightarrow> int list" where
  "below pt pid = (case pre pt pid of None \<Rightarrow> [] | Some l \<Rightarrow> l)"

partial_function (option) post :: "process_tree \<Rightarrow> int \<Rightarrow> int list option" where
  "post pt pid =
     (case data_on pt pid of None \<Rightarrow> Some []
      | Some d \<Rightarrow> Option.bind
          (for_each (\<lambda>c l. Option.bind (post pt c) (\<lambda>l'. Some (l @ l'))) (kids pt d) [])
          (\<lambda>l. Some (l @ [pid])))"

definition bottom_up :: "process_tree \<Rightarrow> int \<Rightarrow> int list" where
  "bottom_up pt pid = (case post pt pid of None \<Rightarrow> [] | Some l \<Rightarrow> l)"

lemma fold_append_concat: "fold (\<lambda>x l. l @ g x) xs l = l @ concat (map g xs)"
  by (induction xs arbitrary: l) simp_all

lemma kids_ranked: "ranked rank pt \<Longrightarrow> data_on pt pid = Some d \<Longrightarrow> c \<in> set (kids pt d) \<Longrightarrow> rank c < rank pid"
  using ranked_child by (auto simp: kids_def)

lemma pre_total: "ranked rank pt \<Longrightarrow> pre pt pid \<noteq> None"
proof (induction "rank pid" arbitrary: pid rule: less_induct)
  case less
  show ?case
  proof (cases "data_on pt pid")
    case None
    then show ?thesis by (simp add: pre.simps [of pt pid])
  next
    case (Some d)
    have "for_each (\<lambda>c l. Option.bind (pre pt c) (\<lambda>l'. Some (l @ l'))) (kids pt d) [pid] \<noteq> None"
      using less.hyps kids_ranked [OF less.prems Some] less.prems
      by (intro for_each_total) (auto split: Option.bind_splits)
    with Some show ?thesis by (subst pre.simps) simp
  qed
qed

lemma post_total: "ranked rank pt \<Longrightarrow> post pt pid \<noteq> None"
proof (induction "rank pid" arbitrary: pid rule: less_induct)
  case less
  show ?case
  proof (cases "data_on pt pid")
    case None
    then show ?thesis by (simp add: post.simps [of pt pid])
  next
    case (Some d)
    have "for_each (\<lambda>c l. Option.bind (post pt c) (\<lambda>l'. Some (l @ l'))) (kids pt d) [] \<noteq> None"
      using less.hyps kids_ranked [OF less.prems Some] less.prems
      by (intro for_each_total) (auto split: Option.bind_splits)
    with Some show ?thesis by (subst post.simps) auto
  qed
qed

lemma pre_below: "ranked rank pt \<Longrightarrow> pre pt pid = Some (below pt pid)"
  using pre_total [of rank pt pid] by (auto simp: below_def)

lemma post_bottom_up: "ranked rank pt \<Longrightarrow> post pt pid = Some (bottom_up pt pid)"
  using post_total [of rank pt pid] by (auto simp: bottom_up_def)

lemma below_unfold:
  assumes "ranked rank pt"
  shows "below pt pid = (case data_on pt pid of None \<Rightarrow> []
     | Some d \<Rightarrow> pid # concat (map (below pt) (kids pt d)))"
proof (cases "data_on pt pid")
  case None
  then show ?thesis by (simp add: below_def pre.simps [of pt pid])
next
  case (Some d)
  have "for_each (\<lambda>c l. Option.bind (pre pt c) (\<lambda>l'. Some (l @ l'))) (kids pt d) [pid] =
      Some (fold (\<lambda>c l. l @ below pt c) (kids pt d) [pid])"
    by (rule for_each_fold) (simp add: pre_below [OF assms])
  with Some have "pre pt pid = Some (pid # concat (map (below pt) (kids pt d)))"
    by (simp add: pre.simps [of pt pid] fold_append_concat)
  with Some show ?thesis using pre_below [OF assms, of pid] by simp
qed

lemma bottom_up_unfold:
  assumes "ranked rank pt"
  shows "bottom_up pt pid = (case data_on pt pid of None \<Rightarrow> []
     | Some d \<Rightarrow> concat (map (bottom_up pt) (kids pt d)) @ [pid])"
proof (cases "data_on pt pid")
  case None
  then show ?thesis by (simp add: bottom_up_def post.simps [of pt pid])
next
  case (Some d)
  have "for_each (\<lambda>c l. Option.bind (post pt c) (\<lambda>l'. Some (l @ l'))) (kids pt d) [] =
      Some (fold (\<lambda>c l. l @ bottom_up pt c) (kids pt d) [])"
    by (rule for_each_fold) (simp add: post_bottom_up [OF assms])
  with Some have "post pt pid = Some (concat (map (bottom_up pt) (kids pt d)) @ [pid])"
    by (simp add: post.simps [of pt pid] fold_append_concat)
  with Some show ?thesis using post_bottom_up [OF assms, of pid] by simp
qed

section \<open>The recursions as folds\<close>

definition field_of :: "(process_data \<Rightarrow> 'a) \<Rightarrow> process_tree \<Rightarrow> int \<Rightarrow> 'a" where
  "field_of f pt pid = (case data_on pt pid of Some d \<Rightarrow> f d | None \<Rightarrow> undefined)"

lemma field_of_Some [simp]: "data_on pt pid = Some d \<Longrightarrow> field_of f pt pid = f d"
  by (simp add: field_of_def)

lemma sum_list_concat: "sum_list (map f (concat xss)) = sum_list (map (\<lambda>xs. sum_list (map f xs)) xss)"
  by (induction xss) simp_all

lemma concat_concat_map: "concat (concat (map f xs)) = concat (map (\<lambda>x. concat (f x)) xs)"
  by (induction xs) simp_all

lemma currentVSizeRec_below:
  assumes "ranked rank pt"
  shows "currentVSizeRec pt pid = Some (sum_list (map (field_of getVSize pt) (below pt pid)))"
proof (induction "rank pid" arbitrary: pid rule: less_induct)
  case less
  show ?case
  proof (cases "data_on pt pid")
    case None
    then show ?thesis by (simp add: currentVSizeRec.simps [of pt pid] below_unfold [OF assms, of pid])
  next
    case (Some d)
    let ?f = "\<lambda>p. sum_list (map (field_of getVSize pt) (below pt p))"
    have "for_each (\<lambda>child size. if is_process pt child
            then Option.bind (currentVSizeRec pt child) (\<lambda>s. Some (size + s)) else Some size)
          (children d) (getVSize d) =
        Some (fold (\<lambda>c a. if is_process pt c then a + ?f c else a) (children d) (getVSize d))"
      using less.hyps ranked_child [OF assms Some] by (intro for_each_fold) simp
    with Some show ?thesis
      by (simp add: currentVSizeRec.simps [of pt pid] below_unfold [OF assms, of pid] fold_add_filter
          kids_def sum_list_concat comp_def)
  qed
qed

lemma currentMemoryRec_below:
  assumes "ranked rank pt"
  shows "currentMemoryRec pt pid = Some (sum_list (map (field_of getMemory pt) (below pt pid)))"
proof (induction "rank pid" arbitrary: pid rule: less_induct)
  case less
  show ?case
  proof (cases "data_on pt pid")
    case None
    then show ?thesis by (simp add: currentMemoryRec.simps [of pt pid] below_unfold [OF assms, of pid])
  next
    case (Some d)
    let ?f = "\<lambda>p. sum_list (map (field_of getMemory pt) (below pt p))"
    have "for_each (\<lambda>child mem. if is_process pt child
            then Option.bind (currentMemoryRec pt child) (\<lambda>s. Some (mem + s)) else Some mem)
          (children d) (getMemory d) =
        Some (fold (\<lambda>c a. if is_process pt c then a + ?f c else a) (children d) (getMemory d))"
      using less.hyps ranked_child [OF assms Some] by (intro for_each_fold) simp
    with Some show ?thesis
      by (simp add: currentMemoryRec.simps [of pt pid] below_unfold [OF assms, of pid] fold_add_filter
          kids_def sum_list_concat comp_def)
  qed
qed

definition add_times :: "u64 \<Rightarrow> process_tree \<Rightarrow> int \<Rightarrow> rat \<times> rat \<Rightarrow> rat \<times> rat" where
  "add_times ticks pt pid t =
     (flt (fst t + field_of (getOverallUserTime ticks) pt pid),
      flt (snd t + field_of (getOverallSystemTime ticks) pt pid))"

lemma currentCPUTimeRec_below:
  assumes "ranked rank pt"
  shows "currentCPUTimeRec ticks pt pid t = Some (fold (add_times ticks pt) (below pt pid) t)"
proof (induction "rank pid" arbitrary: pid t rule: less_induct)
  case less
  show ?case
  proof (cases "data_on pt pid")
    case None
    then show ?thesis by (simp add: currentCPUTimeRec.simps [of ticks pt pid] below_unfold [OF assms, of pid])
  next
    case (Some d)
    have "for_each (\<lambda>child t. if is_process pt child then currentCPUTimeRec ticks pt child t else Some t)
          (children d) (add_times ticks pt pid t) =
        Some (fold (\<lambda>c t. if is_process pt c then fold (add_times ticks pt) (below pt c) t else t)
          (children d) (add_times ticks pt pid t))"
      using less.hyps ranked_child [OF assms Some] by (intro for_each_fold) simp
    with Some show ?thesis
      by (simp add: currentCPUTimeRec.simps [of ticks pt pid] below_unfold [OF assms, of pid]
          fold_fold_filter kids_def add_times_def)
  qed
qed

definition stop_events :: "process_tree \<Rightarrow> int \<Rightarrow> int \<Rightarrow> event list" where
  "stop_events pt sig pid = (if field_of children pt pid \<noteq> [] then [Pause 4194304] else []) @ [Kill pid sig]"

lemma sendSignalBottomUpRec_order:
  assumes "ranked rank pt"
  shows "sendSignalBottomUpRec pt sig pid evs =
     Some (evs @ concat (map (stop_events pt sig) (bottom_up pt pid)))"
proof (induction "rank pid" arbitrary: pid evs rule: less_induct)
  case less
  show ?case
  proof (cases "data_on pt pid")
    case None
    then show ?thesis
      by (simp add: sendSignalBottomUpRec.simps [of pt sig pid] bottom_up_unfold [OF assms, of pid])
  next
    case (Some d)
    let ?f = "\<lambda>p. concat (map (stop_events pt sig) (bottom_up pt p))"
    have "for_each (\<lambda>child evs. if is_process pt child then sendSignalBottomUpRec pt sig child evs
          else Some evs) (children d) evs =
        Some (fold (\<lambda>c l. if is_process pt c then l @ ?f c else l) (children d) evs)"
      using less.hyps ranked_child [OF assms Some] by (intro for_each_fold) simp
    with Some show ?thesis
      by (auto simp: sendSignalBottomUpRec.simps [of pt sig pid] bottom_up_unfold [OF assms, of pid]
          fold_append_filter kids_def stop_events_def map_concat comp_def concat_concat_map)
  qed
qed

section \<open>Reading /proc\<close>

text \<open>What the system says of one process: the object made for it, and whether it is valid.\<close>

definition created :: "'a proc_system_scheme \<Rightarrow> int \<Rightarrow> process_data" where
  "created os pid = pd_create os pid 0 (garbage os)"

definition alive :: "'a proc_system_scheme \<Rightarrow> int \<Rightarrow> bool" where
  "alive os pid \<longleftrightarrow> pd_valid (created os pid)"

lemma pd_create_fields:
  "pd_pid (pd_create os pid tid raw) = pid" "pd_tid (pd_create os pid tid raw) = tid"
  "children (pd_create os pid tid raw) = []"
proof -
  obtain pd ok where r: "pd_read os pid tid (pd_init (raw\<lparr>children := [], allocatedCores := []\<rparr>)) = (pd, ok)"
    by fastforce
  from pd_read_frame [OF r] r show "pd_pid (pd_create os pid tid raw) = pid"
    "pd_tid (pd_create os pid tid raw) = tid" "children (pd_create os pid tid raw) = []"
    by (simp_all add: pd_create_def pd_init_def)
qed

lemma created_fields [simp]:
  "pd_pid (created os pid) = pid" "isTask (created os pid) = False" "children (created os pid) = []"
  by (simp_all add: created_def isTask_def pd_create_fields)

lemma isTask_children [simp]: "isTask (d\<lparr>children := cs\<rparr>) = isTask d"
  by (simp add: isTask_def)

lemma add_processes:
  "fold (add_process os) pids pt =
     pt\<lparr>tree := sm.insert_all (map (\<lambda>p. (p, created os p)) (filter (alive os) pids)) (tree pt),
        roots := roots pt @ filter (\<lambda>p. alive os p \<and> pd_ppid (created os p) = runsolverPID pt) pids\<rparr>"
  by (induction pids arbitrary: pt)
    (simp_all add: add_process_def sm.insert_all_def created_def [symmetric] alive_def [symmetric] Let_def)

text \<open>The links: a map whose entries are all valid gets, for each of them, its children in order.\<close>

definition linked :: "(int \<Rightarrow> process_data option) \<Rightarrow> int list \<Rightarrow> int \<Rightarrow> process_data \<Rightarrow> process_data" where
  "linked T ks p d =
     d\<lparr>children := children d @ filter (\<lambda>c. p \<noteq> - 1 \<and> (case T c of None \<Rightarrow> False | Some e \<Rightarrow> pd_ppid e = p)) ks\<rparr>"

lemma link_children:
  assumes "\<forall>k\<in>set ks. \<exists>d. map_find (tree pt) k = Some d \<and> pd_valid d"
  shows "\<exists>m. fold link_child ks (pt, evs) = (pt\<lparr>tree := m\<rparr>, evs) \<and>
     map_find m = (\<lambda>p. map_option (linked (map_find (tree pt)) ks p) (map_find (tree pt) p)) \<and>
     map_keys m = map_keys (tree pt)"
  using assms
proof (induction ks rule: rev_induct)
  case Nil
  have "map_find (tree pt) = (\<lambda>p. map_option (linked (map_find (tree pt)) [] p) (map_find (tree pt) p))"
    by (auto simp: linked_def fun_eq_iff map_option_case split: option.split)
  then show ?case by (intro exI [of _ "tree pt"]) simp
next
  case (snoc k ks)
  let ?T = "map_find (tree pt)"
  from snoc obtain m where m: "fold link_child ks (pt, evs) = (pt\<lparr>tree := m\<rparr>, evs)"
    "map_find m = (\<lambda>p. map_option (linked ?T ks p) (?T p))" "map_keys m = map_keys (tree pt)" by auto
  from snoc.prems obtain d where d: "?T k = Some d" "pd_valid d" by auto
  let ?e = "linked ?T ks k d"
  have e: "map_find m k = Some ?e" "pd_valid ?e" "pd_ppid ?e = pd_ppid d"
    using d m(2) by (simp_all add: linked_def)
  have skip: "linked ?T (ks @ [k]) p x = linked ?T ks p x" if "p = - 1 \<or> pd_ppid d \<noteq> p" for p x
    using that d(1) by (auto simp: linked_def)
  have extend: "linked ?T (ks @ [k]) p x = addChild k (linked ?T ks p x)" if "p \<noteq> - 1" "pd_ppid d = p" for p x
    using that d(1) by (simp add: linked_def addChild_def)
  have same_dom: "map_find m p = None \<longleftrightarrow> ?T p = None" for p by (simp add: m(2))
  let ?m = "if pd_ppid d = - 1 \<or> ?T (pd_ppid d) = None then m else map_adjust (pd_ppid d) (addChild k) m"
  have "fold link_child (ks @ [k]) (pt, evs) = (pt\<lparr>tree := ?m\<rparr>, evs)"
    using m(1) e same_dom by (simp add: link_child_def Let_def)
  moreover have "map_find ?m p = map_option (linked ?T (ks @ [k]) p) (?T p)" for p
  proof (cases "p = - 1 \<or> pd_ppid d \<noteq> p \<or> ?T p = None")
    case True
    then show ?thesis using skip [of p] by (cases "?T p") (auto simp: m(2) find_adjust)
  next
    case False
    then obtain x where "?T p = Some x" "p \<noteq> - 1" "pd_ppid d = p" by auto
    then show ?thesis using extend [of p x] by (simp add: m(2) find_adjust)
  qed
  moreover have "map_keys ?m = map_keys (tree pt)" using m(3) by simp
  ultimately show ?case by (intro exI [of _ ?m] conjI ext)
qed

text \<open>
  Tasks: a tree that has the processes of another one, with tasks added as further children.
\<close>

definition with_tasks :: "process_tree \<Rightarrow> process_tree \<Rightarrow> bool" where
  "with_tasks pt0 pt \<longleftrightarrow> wf_map (tree pt) \<and> roots pt = roots pt0 \<and> runsolverPID pt = runsolverPID pt0 \<and>
     treeHasAllProcesses pt = treeHasAllProcesses pt0 \<and>
     (\<forall>p d. map_find (tree pt0) p = Some d \<longrightarrow>
        (\<exists>ts. map_find (tree pt) p = Some (d\<lparr>children := children d @ ts\<rparr>) \<and>
           (\<forall>t\<in>set ts. map_find (tree pt0) t = None \<and> map_find (tree pt) t \<noteq> None))) \<and>
     (\<forall>p d. map_find (tree pt0) p = None \<longrightarrow> map_find (tree pt) p = Some d \<longrightarrow>
        isTask d \<and> pd_valid d \<and> children d = [])"

definition fresh_tasks :: "'a proc_system_scheme \<Rightarrow> process_tree \<Rightarrow> bool" where
  "fresh_tasks os pt \<longleftrightarrow> (\<forall>pid names tid. task_entries os pid = Tasks names \<longrightarrow>
     tid \<in> set (entry_pids names) \<longrightarrow> tid \<noteq> pid \<longrightarrow> tid \<noteq> 0 \<and> map_find (tree pt) tid = None)"

lemma with_tasks_refl: "wf_map (tree pt) \<Longrightarrow> with_tasks pt pt"
  by (auto simp: with_tasks_def intro!: exI [of _ "[]"])

lemma add_task_ok:
  assumes w: "with_tasks pt0 pt" and p: "map_find (tree pt0) pid = Some d0"
    and t: "tid \<noteq> pid \<longrightarrow> tid \<noteq> 0 \<and> map_find (tree pt0) tid = None"
  shows "with_tasks pt0 (add_task os pid tid pt)"
proof (cases "tid \<noteq> pid \<and> pd_valid (pd_create os pid tid (garbage os))")
  case False
  then show ?thesis using w by (auto simp: add_task_def Let_def)
next
  case True
  let ?pd = "pd_create os pid tid (garbage os)"
  let ?T = "map_find (tree pt)" and ?S = "map_find (tree pt0)"
  from True have step: "add_task os pid tid pt =
      pt\<lparr>tree := map_adjust pid (addChild tid) (map_put tid ?pd (tree pt))\<rparr>"
    by (simp add: add_task_def Let_def)
  have wf: "wf_map (tree pt)" using w by (simp add: with_tasks_def)
  have new: "map_find (tree (add_task os pid tid pt)) =
      (?T(tid \<mapsto> ?pd))(pid := map_option (addChild tid) (?T pid))"
    using True by (simp add: step find_adjust find_put [OF wf])
  have none: "?S tid = None" "isTask ?pd" "children ?pd = []"
    using t True by (simp_all add: isTask_def pd_create_fields)
  have old: "\<exists>ts. map_find (tree (add_task os pid tid pt)) q = Some (d\<lparr>children := children d @ ts\<rparr>) \<and>
      (\<forall>t\<in>set ts. ?S t = None \<and> map_find (tree (add_task os pid tid pt)) t \<noteq> None)"
    if q: "?S q = Some d" for q d
  proof -
    obtain ts where ts: "?T q = Some (d\<lparr>children := children d @ ts\<rparr>)" "\<forall>t\<in>set ts. ?S t = None \<and> ?T t \<noteq> None"
      using w q unfolding with_tasks_def by blast
    have "q \<noteq> tid" using q none(1) by auto
    show ?thesis
    proof (cases "q = pid")
      case True
      with ts show ?thesis
        using none(1) p by (intro exI [of _ "ts @ [tid]"]) (auto simp: new addChild_def)
    next
      case False
      with ts \<open>q \<noteq> tid\<close> show ?thesis using p by (intro exI [of _ ts]) (auto simp: new)
    qed
  qed
  have others: "isTask d \<and> pd_valid d \<and> children d = []"
    if "?S q = None" "map_find (tree (add_task os pid tid pt)) q = Some d" for q d
    using that w p none True by (auto simp: new with_tasks_def split: if_splits)
  show ?thesis
    using w old others wf unfolding with_tasks_def by (auto simp: step wf_put)
qed

lemma add_tasks_ok:
  assumes "with_tasks pt0 pt" and "map_find (tree pt0) pid = Some d0"
    and "\<forall>tid\<in>set tids. tid \<noteq> pid \<longrightarrow> tid \<noteq> 0 \<and> map_find (tree pt0) tid = None"
  shows "with_tasks pt0 (fold (add_task os pid) tids pt)"
  using assms
proof (induction tids arbitrary: pt)
  case (Cons tid tids)
  then show ?case using add_task_ok [OF Cons.prems(1,2), of tid os] by simp
qed simp

lemma readProcessTasks_ok:
  assumes "with_tasks pt0 (fst st)" and "map_find (tree pt0) pid = Some d0" and "fresh_tasks os pt0"
  shows "with_tasks pt0 (fst (readProcessTasks os pid st))"
proof (cases "task_entries os pid")
  case (Tasks names)
  then have "\<forall>tid\<in>set (entry_pids names). tid \<noteq> pid \<longrightarrow> tid \<noteq> 0 \<and> map_find (tree pt0) tid = None"
    using assms(3) by (auto simp: fresh_tasks_def)
  then show ?thesis using add_tasks_ok assms(1,2) Tasks
    by (auto simp: readProcessTasks_def split: prod.splits)
qed (use assms(1) in \<open>auto simp: readProcessTasks_def split: prod.splits\<close>)

lemma with_tasks_process:
  assumes "with_tasks pt0 pt" and "map_find (tree pt0) p = Some d" and "\<not> isTask d"
  shows "is_process pt p"
  using assms by (fastforce simp: with_tasks_def is_process_def isTask_def)

lemma with_tasks_task:
  assumes "with_tasks pt0 pt" and "map_find (tree pt0) p = None"
  shows "\<not> is_process pt p"
  using assms by (auto simp: with_tasks_def is_process_def split: option.splits)

lemma readTasksRec_ok:
  assumes "with_tasks pt0 (fst st)" and "map_find (tree pt0) pid = Some d0"
    and "fresh_tasks os pt0" and "ranked rank pt0"
  shows "\<exists>st'. readTasksRec os pid st = Some st' \<and> with_tasks pt0 (fst st')"
  using assms(1,2)
proof (induction "rank pid" arbitrary: pid st d0 rule: less_induct)
  case less
  show ?case
  proof (cases "data_on (fst st) pid = None")
    case True
    with less.prems show ?thesis by (simp add: readTasksRec.simps [of os pid st])
  next
    case valid: False
    let ?st = "readProcessTasks os pid st"
    let ?body = "\<lambda>child st. if is_process (fst st) child then readTasksRec os child st else Some st"
    let ?cs = "case map_find (tree (fst ?st)) pid of None \<Rightarrow> [] | Some data \<Rightarrow> children data"
    have rec: "readTasksRec os pid st = for_each ?body ?cs ?st"
      by (subst readTasksRec.simps) (simp only: if_not_P [OF valid] Let_def)
    have w: "with_tasks pt0 (fst ?st)" using readProcessTasks_ok [OF less.prems assms(3)] .
    then obtain ts where ts: "map_find (tree (fst ?st)) pid = Some (d0\<lparr>children := children d0 @ ts\<rparr>)"
      "\<forall>t\<in>set ts. map_find (tree pt0) t = None"
      using less.prems(2) unfolding with_tasks_def by blast
    have "\<exists>st'. for_each ?body ?cs ?st = Some st' \<and> with_tasks pt0 (fst st')"
    proof (rule for_each_ok [of "\<lambda>st. with_tasks pt0 (fst st)"])
      show "with_tasks pt0 (fst ?st)" by (rule w)
    next
      fix c and u :: "process_tree \<times> event list" assume c: "c \<in> set ?cs" and u: "with_tasks pt0 (fst u)"
      show "\<exists>u'. ?body c u = Some u' \<and> with_tasks pt0 (fst u')"
      proof (cases "map_find (tree pt0) c")
        case None
        with with_tasks_task [OF u] u show ?thesis by simp
      next
        case known: (Some e)
        with c ts have "c \<in> set (children d0)" by auto
        then have "rank c < rank pid" using assms(4) less.prems(2) by (auto simp: ranked_def)
        with less.hyps [of c u e] u known
        have "\<exists>u'. readTasksRec os c u = Some u' \<and> with_tasks pt0 (fst u')" by blast
        with u show ?thesis by metis
      qed
    qed
    with rec show ?thesis by simp
  qed
qed

section \<open>The processes of the solver\<close>

text \<open>
  The processes that the system lists and describes, and who their parents are. The
  descendants of a process are those that lead to it from parent to parent.
\<close>

definition known :: "'a proc_system_scheme \<Rightarrow> string list \<Rightarrow> int \<Rightarrow> bool" where
  "known os names p \<longleftrightarrow> p \<in> set (entry_pids names) \<and> alive os p"

definition parents :: "'a proc_system_scheme \<Rightarrow> string list \<Rightarrow> (int \<times> int) set" where
  "parents os names = {(c, p). known os names c \<and> p = pd_ppid (created os c)}"

definition descendants :: "'a proc_system_scheme \<Rightarrow> string list \<Rightarrow> int \<Rightarrow> int set" where
  "descendants os names p = {c. (c, p) \<in> (parents os names)\<^sup>+}"

text \<open>
  A consistent listing: no pid twice, no process above itself, and tasks other than the main
  one have numbers that are no pids.
\<close>

definition consistent :: "'a proc_system_scheme \<Rightarrow> string list \<Rightarrow> (int \<Rightarrow> nat) \<Rightarrow> bool" where
  "consistent os names rank \<longleftrightarrow> distinct (entry_pids names) \<and>
     (\<forall>c p. (c, p) \<in> parents os names \<longrightarrow> known os names p \<longrightarrow> rank c < rank p) \<and>
     (\<forall>pid tasks tid. task_entries os pid = Tasks tasks \<longrightarrow> tid \<in> set (entry_pids tasks) \<longrightarrow>
        tid \<noteq> pid \<longrightarrow> tid \<noteq> 0 \<and> tid \<notin> set (entry_pids names))"

lemma parents_functional: "single_valued (parents os names)"
  by (auto simp: single_valued_def parents_def)

lemma parents_known: "(c, p) \<in> (parents os names)\<^sup>+ \<Longrightarrow> known os names c"
  by (induction rule: converse_trancl_induct) (auto simp: parents_def)

lemma rank_up:
  assumes "consistent os names rank" and "(c, p) \<in> (parents os names)\<^sup>*" and "known os names p"
  shows "rank c \<le> rank p"
  using assms(2)
proof (induction rule: converse_rtrancl_induct)
  case (step b c)
  then have "known os names c"
    using parents_known assms(3) by (metis rtranclD)
  with step assms(1) show ?case unfolding consistent_def by fastforce
qed simp

lemma parent_not_below:
  assumes "consistent os names rank" and "(k, p) \<in> parents os names"
  shows "(p, k) \<notin> (parents os names)\<^sup>*"
proof
  assume up: "(p, k) \<in> (parents os names)\<^sup>*"
  have k: "known os names k" using assms(2) by (simp add: parents_def)
  then have "known os names p" using up parents_known by (metis rtranclD)
  with assms have "rank k < rank p" unfolding consistent_def by blast
  with rank_up [OF assms(1) up k] show False by simp
qed

lemma siblings_disjoint:
  assumes "consistent os names rank" and "(k1, p) \<in> parents os names" "(k2, p) \<in> parents os names"
    and "k1 \<noteq> k2" and "(c, k1) \<in> (parents os names)\<^sup>*" "(c, k2) \<in> (parents os names)\<^sup>*"
  shows False
proof -
  have up: False if k: "(k, p) \<in> parents os names" "(k', p) \<in> parents os names" "k \<noteq> k'"
      "(k, k') \<in> (parents os names)\<^sup>*" for k k'
  proof -
    obtain q where "(k, q) \<in> parents os names" "(q, k') \<in> (parents os names)\<^sup>*"
      using k(3,4) by (metis converse_rtranclE)
    moreover from this(1) k(1) have "q = p" by (simp add: parents_def)
    ultimately show False using parent_not_below [OF assms(1) k(2)] by simp
  qed
  show False
    using single_valued_confluent [OF parents_functional assms(5,6)] up assms(2-4) by metis
qed

lemma distinct_concat_map:
  assumes "distinct ks" and "\<And>k. k \<in> set ks \<Longrightarrow> distinct (f k)"
    and "\<And>k1 k2. k1 \<in> set ks \<Longrightarrow> k2 \<in> set ks \<Longrightarrow> k1 \<noteq> k2 \<Longrightarrow> set (f k1) \<inter> set (f k2) = {}"
  shows "distinct (concat (map f ks))"
  using assms
proof (induction ks)
  case (Cons k ks)
  then have "distinct (concat (map f ks))" by simp
  moreover have "set (f k) \<inter> set (concat (map f ks)) = {}"
    using Cons.prems(1,3) by (fastforce simp: disjoint_iff)
  ultimately show ?case using Cons.prems(2) by simp
qed simp

text \<open>A tree that agrees with a listing: the known processes, each with its children.\<close>

definition agrees :: "'a proc_system_scheme \<Rightarrow> string list \<Rightarrow> process_tree \<Rightarrow> bool" where
  "agrees os names pt \<longleftrightarrow>
     (\<forall>p. known os names p \<longrightarrow> (\<exists>d. data_on pt p = Some d \<and> (\<exists>cs. d = (created os p)\<lparr>children := cs\<rparr>) \<and>
        distinct (kids pt d) \<and> set (kids pt d) = {c. (c, p) \<in> parents os names})) \<and>
     (\<exists>rank. ranked rank pt)"

lemma below_agrees:
  assumes "consistent os names rank" and "agrees os names pt" and "known os names p"
  shows "distinct (below pt p) \<and> set (below pt p) = {c. (c, p) \<in> (parents os names)\<^sup>*}"
  using assms(3)
proof (induction "rank p" arbitrary: p rule: less_induct)
  case less
  from assms(2) obtain rank' where ranked: "ranked rank' pt" by (auto simp: agrees_def)
  from assms(2) less.prems obtain d where d: "data_on pt p = Some d" "distinct (kids pt d)"
    "set (kids pt d) = {c. (c, p) \<in> parents os names}" by (auto simp: agrees_def)
  have kid: "known os names k \<and> rank k < rank p" if "k \<in> set (kids pt d)" for k
    using that d(3) assms(1) less.prems by (auto simp: parents_def consistent_def)
  have sub: "distinct (below pt k)" "set (below pt k) = {c. (c, k) \<in> (parents os names)\<^sup>*}"
    if "k \<in> set (kids pt d)" for k
    using less.hyps kid [OF that] by blast+
  have unfold: "below pt p = p # concat (map (below pt) (kids pt d))"
    using below_unfold [OF ranked, of p] d(1) by simp
  have "set (below pt p) = insert p (\<Union>k\<in>{k. (k, p) \<in> parents os names}. {c. (c, k) \<in> (parents os names)\<^sup>*})"
    using sub(2) d(3) by (auto simp: unfold)
  also have "\<dots> = {c. (c, p) \<in> (parents os names)\<^sup>*}"
    by (auto elim: rtranclE intro: rtrancl_into_rtrancl)
  finally have "set (below pt p) = {c. (c, p) \<in> (parents os names)\<^sup>*}" .
  moreover have "distinct (concat (map (below pt) (kids pt d)))"
  proof (rule distinct_concat_map [OF d(2) sub(1)])
    fix k1 k2 assume "k1 \<in> set (kids pt d)" "k2 \<in> set (kids pt d)" "k1 \<noteq> k2"
    then show "set (below pt k1) \<inter> set (below pt k2) = {}"
      using siblings_disjoint [OF assms(1)] sub(2) d(3) by blast
  qed
  moreover have "p \<notin> set (concat (map (below pt) (kids pt d)))"
    using parent_not_below [OF assms(1)] sub(2) d(3) by auto
  ultimately show ?case by (simp add: unfold)
qed

definition solver_pids :: "process_tree \<Rightarrow> int list" where
  "solver_pids pt = concat (map (below pt) (roots pt))"

lemma solver_pids_agrees:
  assumes "consistent os names rank" and "agrees os names pt"
    and "distinct (roots pt)" and "set (roots pt) = {r. (r, R) \<in> parents os names}"
  shows "distinct (solver_pids pt) \<and> set (solver_pids pt) = descendants os names R"
proof -
  have sub: "distinct (below pt r)" "set (below pt r) = {c. (c, r) \<in> (parents os names)\<^sup>*}"
    if "r \<in> set (roots pt)" for r
    using below_agrees [OF assms(1,2), of r] that assms(4) by (auto simp: parents_def)
  have "distinct (solver_pids pt)"
    unfolding solver_pids_def
  proof (rule distinct_concat_map [OF assms(3) sub(1)])
    fix r1 r2 assume "r1 \<in> set (roots pt)" "r2 \<in> set (roots pt)" "r1 \<noteq> r2"
    then show "set (below pt r1) \<inter> set (below pt r2) = {}"
      using siblings_disjoint [OF assms(1)] sub(2) assms(4) by blast
  qed
  moreover have "set (solver_pids pt) = descendants os names R"
    using sub(2) assms(4)
    by (auto simp: solver_pids_def descendants_def dest: tranclD2 intro: rtrancl_into_trancl1)
  ultimately show ?thesis by blast
qed

text \<open>The global data is no part of the tree.\<close>

lemma meminfo_loop_frame:
  "tree (meminfo_loop i key v npt) = tree (snd npt) \<and> roots (meminfo_loop i key v npt) = roots (snd npt) \<and>
   runsolverPID (meminfo_loop i key v npt) = runsolverPID (snd npt)"
proof (induction i key v npt rule: meminfo_loop.induct)
  case (1 i key v npt)
  have f: "tree (snd (meminfo_field key v npt)) = tree (snd npt) \<and>
      roots (snd (meminfo_field key v npt)) = roots (snd npt) \<and>
      runsolverPID (snd (meminfo_field key v npt)) = runsolverPID (snd npt)" for key v
    by (auto simp: meminfo_field_def split: prod.splits)
  show ?case
    using 1 f by (subst (1 2 3) meminfo_loop.simps) (auto simp: Let_def split: prod.splits)
qed

lemma readGlobalData_frame:
  "tree (readGlobalData os pt) = tree pt \<and> roots (readGlobalData os pt) = roots pt \<and>
   runsolverPID (readGlobalData os pt) = runsolverPID pt"
  using meminfo_loop_frame by (auto simp: readGlobalData_def Let_def split: option.splits)

lemma data_on_with_tasks:
  assumes "with_tasks pt0 pt" and "map_find (tree pt0) p = Some d" and "pd_valid d"
  obtains ts where "data_on pt p = Some (d\<lparr>children := children d @ ts\<rparr>)"
    "\<forall>t\<in>set ts. map_find (tree pt0) t = None"
proof -
  obtain ts where "map_find (tree pt) p = Some (d\<lparr>children := children d @ ts\<rparr>)"
    "\<forall>t\<in>set ts. map_find (tree pt0) t = None"
    using assms(1,2) unfolding with_tasks_def by blast
  with assms(3) that show ?thesis by (simp add: data_on_Some)
qed

lemma with_tasks_ranked:
  assumes "with_tasks pt0 pt" and "ranked rank pt0"
    and "\<And>p d c. map_find (tree pt0) p = Some d \<Longrightarrow> c \<in> set (children d) \<Longrightarrow> map_find (tree pt0) c \<noteq> None"
  shows "ranked (\<lambda>p. if map_find (tree pt0) p = None then 0 else Suc (rank p)) pt"
  unfolding ranked_def
proof (intro allI impI ballI)
  fix p d c assume d: "map_find (tree pt) p = Some d" and c: "c \<in> set (children d)"
  show "(if map_find (tree pt0) c = None then 0 else Suc (rank c)) <
      (if map_find (tree pt0) p = None then 0 else Suc (rank p))"
  proof (cases "map_find (tree pt0) p")
    case None
    with assms(1) d c show ?thesis unfolding with_tasks_def by fastforce
  next
    case (Some d0)
    then obtain ts where ts: "d = d0\<lparr>children := children d0 @ ts\<rparr>" "\<forall>t\<in>set ts. map_find (tree pt0) t = None"
      using assms(1) d unfolding with_tasks_def by fastforce
    with c consider "c \<in> set (children d0)" | "map_find (tree pt0) c = None" by auto
    then show ?thesis
    proof cases
      case 1
      with Some assms(2) have "rank c < rank p" by (auto simp: ranked_def)
      with Some assms(3) [OF Some 1] show ?thesis by simp
    next
      case 2
      with Some show ?thesis by simp
    qed
  qed
qed

lemma readProcesses_agrees:
  assumes "proc_entries os = Some names" and "consistent os names rank"
  shows "\<exists>pt' evs. readProcesses os pt = returns (pt', evs) \<and> agrees os names pt' \<and>
     treeHasAllProcesses pt' \<and> roots pt' =
       filter (\<lambda>p. alive os p \<and> pd_ppid (created os p) = runsolverPID pt) (entry_pids names)"
proof -
  let ?pids = "entry_pids names" and ?g = "readGlobalData os (pt_clear pt)"
  define pt1 where "pt1 = (fold (add_process os) ?pids ?g)\<lparr>treeHasAllProcesses := True\<rparr>"
  let ?roots = "filter (\<lambda>p. alive os p \<and> pd_ppid (created os p) = runsolverPID pt) ?pids"
  have g: "tree ?g = []" "roots ?g = []" "runsolverPID ?g = runsolverPID pt"
    using readGlobalData_frame [of os "pt_clear pt"] by (simp_all add: pt_clear_def)
  have wf1: "wf_map (tree pt1)"
    using sm.ok_insert_all [OF wf_empty] by (simp add: pt1_def add_processes g)
  have T1: "map_find (tree pt1) p = (if known os names p then Some (created os p) else None)" for p
  proof -
    have "map_of (rev (map (\<lambda>p. (p, created os p)) (filter (alive os) ?pids))) p =
        (if p \<in> set (filter (alive os) ?pids) then Some (created os p) else None)"
      unfolding rev_map map_of_map_restrict by (simp add: restrict_map_def)
    then show ?thesis
      by (simp add: pt1_def add_processes g sm.lookup_insert_all [OF wf_empty] known_def map_add_def
          split: option.split)
  qed
  have roots1: "roots pt1 = ?roots" "runsolverPID pt1 = runsolverPID pt" "treeHasAllProcesses pt1"
    by (simp_all add: pt1_def add_processes g)
  have "\<forall>k\<in>set (map_keys (tree pt1)). \<exists>d. map_find (tree pt1) k = Some d \<and> pd_valid d"
  proof
    fix k assume "k \<in> set (map_keys (tree pt1))"
    then have "map_find (tree pt1) k \<noteq> None" by (auto simp: dom_find [symmetric])
    then show "\<exists>d. map_find (tree pt1) k = Some d \<and> pd_valid d"
      using T1 [of k] by (auto simp: known_def alive_def split: if_splits)
  qed
  from link_children [OF this, of "[]"] obtain m where m: "identifyChildren pt1 = (pt1\<lparr>tree := m\<rparr>, [])"
    "map_find m = (\<lambda>p. map_option (linked (map_find (tree pt1)) (map_keys (tree pt1)) p) (map_find (tree pt1) p))"
    "map_keys m = map_keys (tree pt1)" by (auto simp: identifyChildren_def)
  let ?pt2 = "pt1\<lparr>tree := m\<rparr>" and ?ks = "map_keys (tree pt1)"
  let ?cs = "\<lambda>p. filter (\<lambda>c. pd_ppid (created os c) = p) ?ks"
  have ks: "k \<in> set ?ks \<longleftrightarrow> known os names k" for k
  proof -
    have "k \<in> set ?ks \<longleftrightarrow> map_find (tree pt1) k \<noteq> None" by (auto simp: dom_find [symmetric])
    then show ?thesis using T1 [of k] by (auto split: if_splits)
  qed
  have dks: "distinct ?ks" using wf1 unfolding wf_map_def by (simp add: strict_sorted_iff)
  have wf2: "wf_map m" using wf1 m(3) unfolding wf_map_def by simp
  have T2: "map_find m p = (if known os names p then Some ((created os p)\<lparr>children := ?cs p\<rparr>) else None)" for p
  proof (cases "known os names p")
    case True
    then have "p \<noteq> - 1" by (auto simp: known_def entry_pids_def atoi_def)
    then have "filter (\<lambda>c. p \<noteq> - 1 \<and> (case map_find (tree pt1) c of None \<Rightarrow> False | Some e \<Rightarrow> pd_ppid e = p)) ?ks
        = ?cs p"
      using ks by (intro filter_cong) (auto simp: T1)
    with True show ?thesis by (simp add: m(2) T1 linked_def)
  qed (simp add: m(2) T1)
  have none: "map_find (tree ?pt2) p = None \<longleftrightarrow> \<not> known os names p" for p by (simp add: T2)
  have ranked2: "ranked rank ?pt2"
    using assms(2) ks by (auto simp: ranked_def T2 consistent_def parents_def split: if_splits)
  have fresh: "fresh_tasks os ?pt2"
    using assms(2) unfolding fresh_tasks_def none consistent_def known_def by blast
  have start: "with_tasks ?pt2 (fst (?pt2, []))" using with_tasks_refl [of ?pt2] wf2 by simp
  have "\<exists>st. for_each (readTasksRec os) (roots ?pt2) (?pt2, []) = Some st \<and> with_tasks ?pt2 (fst st)"
  proof (rule for_each_ok [of "\<lambda>st. with_tasks ?pt2 (fst st)", OF start])
    fix r and u :: "process_tree \<times> event list" assume r: "r \<in> set (roots ?pt2)" and u: "with_tasks ?pt2 (fst u)"
    have "known os names r" using r roots1(1) by (auto simp: known_def)
    then have "map_find (tree ?pt2) r = Some ((created os r)\<lparr>children := ?cs r\<rparr>)" by (simp add: T2)
    from readTasksRec_ok [OF u this fresh ranked2]
    show "\<exists>u'. readTasksRec os r u = Some u' \<and> with_tasks ?pt2 (fst u')" .
  qed
  then obtain pt3 evs where pt3: "for_each (readTasksRec os) (roots ?pt2) (?pt2, []) = Some (pt3, evs)"
    "with_tasks ?pt2 pt3" by auto
  have run: "readProcesses os pt = returns (pt3, evs)"
    using pt3(1) m(1) assms(1) by (simp add: readProcesses_def Let_def pt1_def)
  have data: "\<exists>d. data_on pt3 p = Some d \<and> (\<exists>cs. d = (created os p)\<lparr>children := cs\<rparr>) \<and>
      distinct (kids pt3 d) \<and> set (kids pt3 d) = {c. (c, p) \<in> parents os names}"
    if p: "known os names p" for p
  proof -
    have d: "map_find (tree ?pt2) p = Some ((created os p)\<lparr>children := ?cs p\<rparr>)" using p by (simp add: T2)
    have "pd_valid ((created os p)\<lparr>children := ?cs p\<rparr>)" using p by (simp add: known_def alive_def)
    from data_on_with_tasks [OF pt3(2) d this] obtain ts where ts:
      "data_on pt3 p = Some ((created os p)\<lparr>children := ?cs p @ ts\<rparr>)"
      "\<forall>t\<in>set ts. map_find (tree ?pt2) t = None" by auto
    have "is_process pt3 c" if "c \<in> set (?cs p)" for c
      using that ks T2 [of c] by (intro with_tasks_process [OF pt3(2)]) (auto simp: isTask_def [symmetric])
    moreover have "\<not> is_process pt3 t" if "t \<in> set ts" for t
      using that ts(2) with_tasks_task [OF pt3(2)] by blast
    ultimately have kids: "kids pt3 ((created os p)\<lparr>children := ?cs p @ ts\<rparr>) = ?cs p"
      by (simp add: kids_def filter_True filter_False del: filter_filter)
    have "set (?cs p) = {c. (c, p) \<in> parents os names}" using ks by (auto simp: parents_def)
    with ts(1) kids dks show ?thesis by (auto intro!: exI [of _ "(created os p)\<lparr>children := ?cs p @ ts\<rparr>"])
  qed
  have "ranked (\<lambda>p. if map_find (tree ?pt2) p = None then 0 else Suc (rank p)) pt3"
  proof (rule with_tasks_ranked [OF pt3(2) ranked2])
    fix p d c assume "map_find (tree ?pt2) p = Some d" "c \<in> set (children d)"
    with T2 [of p] have "c \<in> set (?cs p)" by (cases "known os names p") auto
    then have "known os names c" using ks by simp
    with none [of c] show "map_find (tree ?pt2) c \<noteq> None" by blast
  qed
  with data have "agrees os names pt3" unfolding agrees_def by blast
  moreover have "treeHasAllProcesses pt3" "roots pt3 = ?roots"
    using pt3(2) roots1 by (simp_all add: with_tasks_def)
  ultimately show ?thesis using run by blast
qed

section \<open>Sums over the roots\<close>

lemma fold_add: "fold (\<lambda>x (a :: int). a + g x) xs a = a + sum_list (map g xs)"
  by (induction xs arbitrary: a) simp_all

lemma fold_concat_map: "fold (\<lambda>x. fold f (g x)) xs s = fold f (concat (map g xs)) s"
  by (induction xs arbitrary: s) simp_all

lemma pt_sums:
  assumes "ranked rank pt"
  shows "pt_currentVSize pt = Some (sum_list (map (field_of getVSize pt) (solver_pids pt)))"
    and "pt_currentMemory pt = Some (sum_list (map (field_of getMemory pt) (solver_pids pt)))"
    and "currentTimes ticks pt = Some (fold (add_times ticks pt) (solver_pids pt) (0, 0))"
proof -
  have "pt_currentVSize pt =
      Some (fold (\<lambda>r a. a + sum_list (map (field_of getVSize pt) (below pt r))) (roots pt) 0)"
    unfolding pt_currentVSize_def
    by (rule for_each_fold) (simp add: currentVSizeRec_below [OF assms])
  then show "pt_currentVSize pt = Some (sum_list (map (field_of getVSize pt) (solver_pids pt)))"
    by (simp add: fold_add solver_pids_def sum_list_concat comp_def)
  have "pt_currentMemory pt =
      Some (fold (\<lambda>r a. a + sum_list (map (field_of getMemory pt) (below pt r))) (roots pt) 0)"
    unfolding pt_currentMemory_def
    by (rule for_each_fold) (simp add: currentMemoryRec_below [OF assms])
  then show "pt_currentMemory pt = Some (sum_list (map (field_of getMemory pt) (solver_pids pt)))"
    by (simp add: fold_add solver_pids_def sum_list_concat comp_def)
  have "currentTimes ticks pt = Some (fold (\<lambda>r. fold (add_times ticks pt) (below pt r)) (roots pt) (0, 0))"
    unfolding currentTimes_def by (rule for_each_fold) (simp add: currentCPUTimeRec_below [OF assms])
  then show "currentTimes ticks pt = Some (fold (add_times ticks pt) (solver_pids pt) (0, 0))"
    by (simp add: fold_concat_map solver_pids_def)
qed

lemma sum_agrees:
  assumes "consistent os names rank" and "agrees os names pt"
    and "distinct (roots pt)" and "set (roots pt) = {r. (r, R) \<in> parents os names}"
    and f: "\<And>d cs. f (d\<lparr>children := cs\<rparr>) = f d"
  shows "sum_list (map (field_of f pt) (solver_pids pt)) = (\<Sum>p\<in>descendants os names R. f (created os p))"
proof -
  note pids = solver_pids_agrees [OF assms(1-4)]
  have "field_of f pt p = f (created os p)" if "p \<in> descendants os names R" for p
  proof -
    have "known os names p" using that parents_known by (auto simp: descendants_def)
    with assms(2) obtain cs where "data_on pt p = Some ((created os p)\<lparr>children := cs\<rparr>)"
      unfolding agrees_def by blast
    then show ?thesis by (simp add: f)
  qed
  then have "map (field_of f pt) (solver_pids pt) = map (\<lambda>p. f (created os p)) (solver_pids pt)"
    using pids by (intro map_cong) auto
  then show ?thesis using pids by (simp add: sum_list_distinct_conv_sum_set)
qed

section \<open>Children first\<close>

definition children_first :: "process_tree \<Rightarrow> int list \<Rightarrow> bool" where
  "children_first pt l \<longleftrightarrow> (\<forall>xs p ys d. l = xs @ p # ys \<longrightarrow> data_on pt p = Some d \<longrightarrow>
     (\<forall>c\<in>set (kids pt d). data_on pt c \<noteq> None \<longrightarrow> c \<in> set xs))"

lemma children_first_append:
  assumes "children_first pt a" and "children_first pt b"
  shows "children_first pt (a @ b)"
  unfolding children_first_def
proof (intro allI impI ballI)
  fix xs p ys d c
  assume eq: "a @ b = xs @ p # ys" and d: "data_on pt p = Some d" "c \<in> set (kids pt d)" "data_on pt c \<noteq> None"
  from eq obtain us where "a = xs @ us \<and> us @ b = p # ys \<or> a @ us = xs \<and> b = us @ p # ys"
    by (auto simp: append_eq_append_conv2)
  then consider "b = [] @ p # ys" | us' where "a = xs @ p # us'" | "a @ us = xs" "b = us @ p # ys"
    by (cases us) auto
  then show "c \<in> set xs"
  proof cases
    case 1
    then show ?thesis using assms(2) d unfolding children_first_def by fastforce
  next
    case 2
    then show ?thesis using assms(1) d unfolding children_first_def by blast
  next
    case 3
    then show ?thesis using assms(2) d unfolding children_first_def by auto
  qed
qed

lemma children_first_snoc:
  assumes "children_first pt a" and "\<And>d c. data_on pt p = Some d \<Longrightarrow> c \<in> set (kids pt d) \<Longrightarrow>
      data_on pt c \<noteq> None \<Longrightarrow> c \<in> set a"
  shows "children_first pt (a @ [p])"
  unfolding children_first_def
proof (intro allI impI ballI)
  fix xs q ys d c
  assume "a @ [p] = xs @ q # ys" "data_on pt q = Some d" "c \<in> set (kids pt d)" "data_on pt c \<noteq> None"
  then show "c \<in> set xs"
    using assms unfolding children_first_def by (cases ys rule: rev_cases) auto
qed

lemma children_first_concat: "(\<And>k. k \<in> set ks \<Longrightarrow> children_first pt (f k)) \<Longrightarrow> children_first pt (concat (map f ks))"
  by (induction ks) (auto intro: children_first_append simp: children_first_def [of _ "[]"])

lemma bottom_up_self: "ranked rank pt \<Longrightarrow> data_on pt p \<noteq> None \<Longrightarrow> p \<in> set (bottom_up pt p)"
  by (auto simp: bottom_up_unfold)

lemma bottom_up_first:
  assumes "ranked rank pt"
  shows "children_first pt (bottom_up pt p) \<and> mset (bottom_up pt p) = mset (below pt p)"
proof (induction "rank p" arbitrary: p rule: less_induct)
  case less
  show ?case
  proof (cases "data_on pt p")
    case None
    then show ?thesis
      by (simp add: bottom_up_unfold [OF assms, of p] below_unfold [OF assms, of p] children_first_def)
  next
    case (Some d)
    have sub: "children_first pt (bottom_up pt k)" "mset (bottom_up pt k) = mset (below pt k)"
      if "k \<in> set (kids pt d)" for k
      using less kids_ranked [OF assms Some that] by blast+
    have "children_first pt (concat (map (bottom_up pt) (kids pt d)) @ [p])"
      using Some bottom_up_self [OF assms] sub(1)
      by (intro children_first_snoc children_first_concat) auto
    moreover have "mset (concat (map (bottom_up pt) ks)) = mset (concat (map (below pt) ks))"
      if "set ks \<subseteq> set (kids pt d)" for ks
      using that sub(2) by (induction ks) auto
    ultimately show ?thesis
      using Some by (simp add: bottom_up_unfold [OF assms, of p] below_unfold [OF assms, of p])
  qed
qed

section \<open>Fresh data\<close>

text \<open>The data was read from the system in its present state, up to the list of children.\<close>

definition read_now :: "'a proc_system_scheme \<Rightarrow> process_data \<Rightarrow> bool" where
  "read_now os d \<longleftrightarrow> (\<exists>old new cs. pd_read os (pd_pid d) (pd_tid d) old = (new, True) \<and> d = new\<lparr>children := cs\<rparr>)"

definition all_fresh :: "'a proc_system_scheme \<Rightarrow> process_tree \<Rightarrow> bool" where
  "all_fresh os pt \<longleftrightarrow> wf_map (tree pt) \<and> (\<forall>p d. data_on pt p = Some d \<longrightarrow> read_now os d)"

lemma ranked_put:
  assumes "ranked rank pt" and "map_find (tree pt) p = Some d" and "children d' = children d"
    and "wf_map (tree pt)"
  shows "ranked rank (pt\<lparr>tree := map_put p d' (tree pt)\<rparr>)"
  using assms by (auto simp: ranked_def find_put)

lemma updateProcessesDataRec_fresh:
  assumes "ranked rank pt" and "all_fresh os pt"
  shows "\<exists>ok pt'. updateProcessesDataRec os p pt = Some (ok, pt') \<and> ranked rank pt' \<and> all_fresh os pt'"
  using assms
proof (induction "rank p" arbitrary: p pt rule: less_induct)
  case less
  have wf: "wf_map (tree pt)" using less.prems(2) by (simp add: all_fresh_def)
  show ?case
  proof (cases "map_find (tree pt) p")
    case None
    then have "updateProcessesDataRec os p pt = Some (False, pt)"
      by (simp add: updateProcessesDataRec.simps [of os p pt])
    with less.prems show ?thesis by blast
  next
    case (Some d)
    obtain d' ok where u: "pd_update os d = (d', ok)" by fastforce
    then have r: "pd_read os (pd_pid d) (pd_tid d) d = (d', ok)" by (simp add: pd_update_def)
    note frame = pd_read_frame [OF r]
    show ?thesis
    proof (cases ok)
      case False
      let ?pt = "pt\<lparr>tree := map_erase p (tree pt)\<rparr>"
      have "updateProcessesDataRec os p pt = Some (False, ?pt)"
        using Some u False by (simp add: updateProcessesDataRec.simps [of os p pt])
      moreover have "ranked rank ?pt" using less.prems(1) by (auto simp: ranked_def find_erase)
      moreover have "all_fresh os ?pt"
        using less.prems(2) by (auto simp: all_fresh_def data_on_Some find_erase wf_erase split: if_splits)
      ultimately show ?thesis by blast
    next
      case True
      let ?pt = "pt\<lparr>tree := map_put p d' (tree pt)\<rparr>"
      let ?body = "\<lambda>child pt. Option.bind (updateProcessesDataRec os child pt) (\<lambda>(_, pt). Some pt)"
      have ranked: "ranked rank ?pt" using ranked_put [OF less.prems(1) Some frame(4) wf] .
      have "read_now os d'" unfolding read_now_def
        by (rule exI [of _ d], rule exI [of _ d'], rule exI [of _ "children d'"])
          (use r frame(1,2) True in simp)
      then have fresh: "all_fresh os ?pt"
        using less.prems(2) wf by (auto simp: all_fresh_def data_on_Some find_put wf_put split: if_splits)
      have step: "\<exists>v'. ?body c v = Some v' \<and> ranked rank v' \<and> all_fresh os v'"
        if c: "c \<in> set (children d')" and v: "ranked rank v \<and> all_fresh os v" for c v
      proof -
        have "rank c < rank p" using less.prems(1) Some c frame(4) by (auto simp: ranked_def)
        with less.hyps v obtain ok' v' where "updateProcessesDataRec os c v = Some (ok', v')"
          "ranked rank v'" "all_fresh os v'" by blast
        then show ?thesis by simp
      qed
      obtain pt' where "for_each ?body (children d') ?pt = Some pt'" "ranked rank pt'" "all_fresh os pt'"
        using for_each_ok [of "\<lambda>v. ranked rank v \<and> all_fresh os v" ?pt "children d'" ?body] ranked fresh step
        by blast
      moreover from this(1) have "updateProcessesDataRec os p pt = Some (True, pt')"
        using Some u True by (simp add: updateProcessesDataRec.simps [of os p pt])
      ultimately show ?thesis by blast
    qed
  qed
qed

lemma cloneRec_invalid:
  assumes "ranked rank src"
    and "wf_map (tree pt)" "\<forall>p d. map_find (tree pt) p = Some d \<longrightarrow> \<not> pd_valid d \<and>
      (\<exists>d0. map_find (tree src) p = Some d0 \<and> children d = children d0)"
  shows "\<exists>pt'. cloneRec raw src p pt = Some pt' \<and> wf_map (tree pt') \<and> roots pt' = roots pt \<and>
     (\<forall>p d. map_find (tree pt') p = Some d \<longrightarrow> \<not> pd_valid d \<and>
      (\<exists>d0. map_find (tree src) p = Some d0 \<and> children d = children d0))"
  using assms(2,3)
proof (induction "rank p" arbitrary: p pt rule: less_induct)
  case less
  let ?P = "\<lambda>v. wf_map (tree v) \<and> roots v = roots pt \<and> (\<forall>p d. map_find (tree v) p = Some d \<longrightarrow> \<not> pd_valid d \<and>
      (\<exists>d0. map_find (tree src) p = Some d0 \<and> children d = children d0))"
  show ?case
  proof (cases "data_on src p")
    case None
    then show ?thesis using less.prems by (simp add: cloneRec.simps [of raw src p pt])
  next
    case (Some d)
    let ?pt = "pt\<lparr>tree := map_put p (pd_copy raw d) (tree pt)\<rparr>"
    have start: "?P ?pt"
      using less.prems Some by (auto simp: wf_put find_put pd_copy_def data_on_Some)
    have "\<exists>v'. cloneRec raw src c v = Some v' \<and> ?P v'" if "c \<in> set (children d)" "?P v" for c v
      using less.hyps [OF ranked_child [OF assms(1) Some that(1)], of v] that(2) by auto
    with start obtain pt' where "for_each (cloneRec raw src) (children d) ?pt = Some pt'" "?P pt'"
      using for_each_ok [of ?P ?pt "children d" "cloneRec raw src"] by blast
    then show ?thesis using Some by (simp add: cloneRec.simps [of raw src p pt])
  qed
qed

lemma pt_copy_invalid:
  assumes "ranked rank src"
  shows "\<exists>pt. pt_copy raw raw_data src = Some pt \<and> ranked rank pt \<and> wf_map (tree pt) \<and>
     roots pt = roots src \<and> (\<forall>p. data_on pt p = None)"
proof -
  let ?P = "\<lambda>v. wf_map (tree v) \<and> roots v = roots src \<and> (\<forall>p d. map_find (tree v) p = Some d \<longrightarrow> \<not> pd_valid d \<and>
      (\<exists>d0. map_find (tree src) p = Some d0 \<and> children d = children d0))"
  have "\<exists>pt. pt_copy raw raw_data src = Some pt \<and> ?P pt"
    unfolding pt_copy_def clone_def
  proof (rule for_each_ok)
    fix c and v :: process_tree assume "?P v"
    then show "\<exists>v'. cloneRec raw_data src c v = Some v' \<and> ?P v'"
      using cloneRec_invalid [OF assms, of v raw_data c] by auto
  qed simp
  then obtain pt where pt: "pt_copy raw raw_data src = Some pt" "?P pt" by blast
  moreover have "ranked rank pt"
    using pt(2) assms unfolding ranked_def by (metis (no_types, lifting))
  moreover have "data_on pt p = None" for p
    using pt(2) by (auto simp: data_on_def split: option.splits)
  ultimately show ?thesis by blast
qed

lemma agrees_fresh:
  assumes "agrees os names pt" and "data_on pt p = Some d" and "known os names p"
  shows "read_now os d"
proof -
  obtain cs where d: "d = (created os p)\<lparr>children := cs\<rparr>" using assms unfolding agrees_def by force
  let ?raw = "pd_init ((garbage os)\<lparr>children := [], allocatedCores := []\<rparr>)"
  obtain new ok where r: "pd_read os p 0 ?raw = (new, ok)" by fastforce
  have "new = created os p" using r by (simp add: created_def pd_create_def)
  moreover have ok using pd_read_frame(3) [OF r] assms(3) \<open>new = created os p\<close>
    by (simp add: known_def alive_def)
  moreover have "pd_tid d = 0" using d by (simp add: created_def pd_create_fields)
  moreover have "pd_pid d = p" using d by simp
  ultimately show ?thesis
    unfolding read_now_def using r d by (intro exI [of _ ?raw] exI [of _ new] exI [of _ cs]) simp
qed

lemma below_data: "ranked rank pt \<Longrightarrow> p \<in> set (below pt r) \<Longrightarrow> \<exists>d. data_on pt p = Some d"
proof (induction "rank r" arbitrary: r rule: less_induct)
  case less
  show ?case
  proof (cases "data_on pt r")
    case None
    with less.prems show ?thesis by (simp add: below_unfold [of rank pt r])
  next
    case (Some d)
    with less.prems consider "p = r" | k where "k \<in> set (kids pt d)" "p \<in> set (below pt k)"
      by (auto simp: below_unfold [of rank pt r])
    then show ?thesis
      using Some less kids_ranked [OF less.prems(1) Some] by cases auto
  qed
qed

lemma solver_pids_data: "ranked rank pt \<Longrightarrow> p \<in> set (solver_pids pt) \<Longrightarrow> \<exists>d. data_on pt p = Some d"
  using below_data by (auto simp: solver_pids_def)

section \<open>Properties\<close>

text \<open>
  Property C6: readProcesses always ends on a consistent /proc, and afterwards the processes
  that the sums, signals and dumps visit are exactly the descendants of runsolver, each of
  them once; its direct children are the roots, and currentVSize and currentMemory are the sums
  over those processes of what /proc says of them. Tasks are not counted again.
\<close>

theorem readProcesses_finds_descendants:
  assumes "proc_entries os = Some names" and "consistent os names rank"
  shows "\<exists>pt' evs. readProcesses os pt = returns (pt', evs) \<and>
     roots pt' = filter (\<lambda>p. alive os p \<and> pd_ppid (created os p) = runsolverPID pt) (entry_pids names) \<and>
     distinct (solver_pids pt') \<and> set (solver_pids pt') = descendants os names (runsolverPID pt) \<and>
     pt_currentVSize pt' = Some (\<Sum>p\<in>descendants os names (runsolverPID pt). getVSize (created os p)) \<and>
     pt_currentMemory pt' = Some (\<Sum>p\<in>descendants os names (runsolverPID pt). getMemory (created os p))"
proof -
  obtain pt' evs where r: "readProcesses os pt = returns (pt', evs)" "agrees os names pt'"
    "roots pt' = filter (\<lambda>p. alive os p \<and> pd_ppid (created os p) = runsolverPID pt) (entry_pids names)"
    using readProcesses_agrees [OF assms, of pt] by blast
  have roots: "distinct (roots pt')" "set (roots pt') = {r. (r, runsolverPID pt) \<in> parents os names}"
    using assms(2) r(3) by (auto simp: consistent_def parents_def known_def)
  obtain rank' where ranked: "ranked rank' pt'" using r(2) by (auto simp: agrees_def)
  have "getVSize (d\<lparr>children := cs\<rparr>) = getVSize d" "getMemory (d\<lparr>children := cs\<rparr>) = getMemory d" for d cs
    by (simp_all add: getVSize_def getMemory_def)
  note sums = sum_agrees [of _ _ _ _ _ getVSize, OF assms(2) r(2) roots this(1)]
    sum_agrees [of _ _ _ _ _ getMemory, OF assms(2) r(2) roots this(2)]
  show ?thesis
    using r(1,3) solver_pids_agrees [OF assms(2) r(2) roots] pt_sums(1,2) [OF ranked] sums by auto
qed

definition demo_system :: proc_system where
  "demo_system =
     \<lparr>proc_stat = proc_stat (demo_procfs ''sleep''), proc_statm = proc_statm (demo_procfs ''sleep''),
      proc_status = proc_status (demo_procfs ''sleep''), proc_affinity = \<lambda>_. {0},
      proc_entries = Some [''self'', ''42''], task_entries = \<lambda>_. No_entry, loadavg_file = None,
      meminfo_file = None, uptime_file = None, cmdline_file = \<lambda>_. None,
      garbage = \<lparr>pd_valid = True, pd_uid = 0, pd_gid = 0, pd_pid = 7, pd_tid = 7, pd_ppid = 7,
        pd_pgrp = 7, utime = 7, stime = 7, cutime = 7, cstime = 7, starttime = 7, vsize = 7, rss = 7,
        swap = 7, children = [7], statLine = [], statmLine = [], allocatedCores = [7],
        selected = True\<rparr>\<rparr>"

lemma demo_system_facts:
  shows "entry_pids [''self'', ''42''] = [42]" and "alive demo_system 42"
    and "pd_ppid (created demo_system 42) = 1" and "getVSize (created demo_system 42) = 8000"
    and "getMemory (created demo_system 42) = 800"
    and "parents demo_system [''self'', ''42''] = {(42, 1)}"
    and "descendants demo_system [''self'', ''42''] 1 = {42}"
    and "consistent demo_system [''self'', ''42''] (\<lambda>_. 0)"
proof -
  show pids: "entry_pids [''self'', ''42''] = [42]"
    by (simp add: entry_pids_def atoi_def isdigit_def digits_value_def digit_value_def)
  obtain pd' where pd': "pd_read demo_system 42 0 (pd_init ((garbage demo_system)
      \<lparr>children := [], allocatedCores := []\<rparr>)) = (pd', True)" "pd_valid pd'" "pd_ppid pd' = 1"
    "vsize pd' = 8192000" "unat (rss pd') = 800" "unat (swap pd') = 0"
    using demo_read [of demo_system] by (fastforce simp: demo_system_def)
  then have c: "created demo_system 42 = pd'" by (simp add: created_def pd_create_def)
  show alive: "alive demo_system 42" and pp: "pd_ppid (created demo_system 42) = 1"
    and "getVSize (created demo_system 42) = 8000"
    using c pd' by (simp_all add: alive_def getVSize_def)
  have "rss pd' = 800" "swap pd' = 0" using pd'(5,6) by (simp_all add: word_unat_eq_iff)
  then show "getMemory (created demo_system 42) = 800" using c by (simp add: getMemory_def)
  show par: "parents demo_system [''self'', ''42''] = {(42, 1)}"
    using alive pp by (auto simp: parents_def known_def pids)
  have "(c, 1) \<in> {(42, 1 :: int)}\<^sup>+ \<longleftrightarrow> c = 42" for c :: int
    by (auto elim: tranclE converse_tranclE)
  then show "descendants demo_system [''self'', ''42''] 1 = {42}"
    by (simp add: descendants_def par)
  show "consistent demo_system [''self'', ''42''] (\<lambda>_. 0)"
    by (auto simp: consistent_def pids par known_def) (simp_all add: demo_system_def)
qed

definition demo_tree :: process_tree where
  "demo_tree = \<lparr>tree = [], roots = [], loadavgLine = [], memTotal = 0, memFree = 0, swapTotal = 0,
     swapFree = 0, elapsed = 0, uptime = 0, completedCPUTime = 0, treeHasAllProcesses = False,
     runsolverPID = 1\<rparr>"

text \<open>A process 42 with a child 43.\<close>

definition demo_family :: process_tree where
  "demo_family = demo_tree\<lparr>roots := [42],
     tree := [(42, (garbage demo_system)\<lparr>pd_tid := 0, children := [43]\<rparr>),
              (43, (garbage demo_system)\<lparr>pd_tid := 0, children := []\<rparr>)]\<rparr>"

lemma demo_family_ranked: "ranked (\<lambda>p. if p = 42 then 1 else 0) demo_family"
  by (auto simp: ranked_def demo_family_def map_find_def split: if_splits)

theorem readProcesses_finds_descendants_witness:
  "\<exists>pt' evs. readProcesses demo_system demo_tree = returns (pt', evs) \<and> roots pt' = [42] \<and>
     pt_currentVSize pt' = Some 8000 \<and> pt_currentMemory pt' = Some 800"
proof -
  have "proc_entries demo_system = Some [''self'', ''42'']" "runsolverPID demo_tree = 1"
    by (simp_all add: demo_system_def demo_tree_def)
  with readProcesses_finds_descendants [OF this(1) demo_system_facts(8), of demo_tree]
  show ?thesis by (auto simp: demo_system_facts)
qed

text \<open>
  Property C7: the signal sent bottom up reaches every process of the solver as often as the
  sums count it, no process before all its children with data have received it, and a process
  that has children only after a pause (of 4194304 ns).
\<close>

theorem sendSignalBottomUp_children_first:
  assumes "ranked rank pt"
  shows "\<exists>order. sendSignalBottomUp pt sig = Some (concat (map (stop_events pt sig) order)) \<and>
     mset order = mset (solver_pids pt) \<and> children_first pt order"
proof (intro exI conjI)
  let ?order = "concat (map (bottom_up pt) (roots pt))"
  have "sendSignalBottomUp pt sig =
      Some (fold (\<lambda>r l. l @ concat (map (stop_events pt sig) (bottom_up pt r))) (roots pt) [])"
    unfolding sendSignalBottomUp_def
    by (rule for_each_fold) (simp add: sendSignalBottomUpRec_order [OF assms])
  then show "sendSignalBottomUp pt sig = Some (concat (map (stop_events pt sig) ?order))"
    by (simp add: fold_append_concat map_concat comp_def concat_concat_map)
  have "mset (concat (map (bottom_up pt) rs)) = mset (concat (map (below pt) rs))" for rs
    by (induction rs) (simp_all add: bottom_up_first [OF assms])
  then show "mset ?order = mset (solver_pids pt)" by (simp add: solver_pids_def)
  show "children_first pt ?order"
    using bottom_up_first [OF assms] by (intro children_first_concat) blast
qed

text \<open>
  After the copy that starts a sampling and its update, all data that the sums
  and the displays look at was read from /proc in this sampling, whether the processes were
  only updated or looked for again because one of them was gone; data of an earlier sampling
  is never shown again.
\<close>

theorem updateProcessesData_fresh:
  assumes "ranked rank src" and "proc_entries os = Some names" and "consistent os names rank'"
  shows "\<exists>pt pt' evs. pt_copy raw raw_data src = Some pt \<and>
     updateProcessesData os pt = returns (pt', evs) \<and>
     (\<forall>p\<in>set (solver_pids pt'). \<exists>d. data_on pt' p = Some d \<and> read_now os d)"
proof -
  obtain pt where pt: "pt_copy raw raw_data src = Some pt" "ranked rank pt" "wf_map (tree pt)"
    "\<forall>p. data_on pt p = None"
    using pt_copy_invalid [OF assms(1)] by blast
  let ?body = "\<lambda>root_pid (allRootsOK, pt). if allRootsOK then updateProcessesDataRec os root_pid pt
      else Some (False, pt)"
  let ?P = "\<lambda>(ok :: bool, v). ranked rank v \<and> all_fresh os v"
  have "?P (True, pt)" using pt by (simp add: all_fresh_def)
  moreover have "\<exists>u'. ?body r u = Some u' \<and> ?P u'" if "?P u" for r u
  proof (cases u)
    case (Pair ok v)
    with that updateProcessesDataRec_fresh [of rank v os r] show ?thesis by (cases ok) auto
  qed
  ultimately obtain ok pt1 where loop: "for_each ?body (roots pt) (True, pt) = Some (ok, pt1)"
    "ranked rank pt1" "all_fresh os pt1"
    using for_each_ok [of ?P "(True, pt)" "roots pt" ?body] by auto
  show ?thesis
  proof (cases ok)
    case True
    then have "updateProcessesData os pt = returns (pt1, [])"
      using loop(1) by (simp add: updateProcessesData_def)
    moreover have "\<exists>d. data_on pt1 p = Some d \<and> read_now os d" if "p \<in> set (solver_pids pt1)" for p
      using that solver_pids_data [OF loop(2)] loop(3) unfolding all_fresh_def by blast
    ultimately show ?thesis using pt(1) by blast
  next
    case False
    then have run: "updateProcessesData os pt = readProcesses os pt1"
      using loop(1) by (simp add: updateProcessesData_def)
    obtain pt' evs where r: "readProcesses os pt1 = returns (pt', evs)" "agrees os names pt'"
      "roots pt' = filter (\<lambda>p. alive os p \<and> pd_ppid (created os p) = runsolverPID pt1) (entry_pids names)"
      using readProcesses_agrees [OF assms(2,3), of pt1] by blast
    have roots: "distinct (roots pt')" "set (roots pt') = {r. (r, runsolverPID pt1) \<in> parents os names}"
      using assms(3) r(3) by (auto simp: consistent_def parents_def known_def)
    obtain rank'' where ranked: "ranked rank'' pt'" using r(2) by (auto simp: agrees_def)
    have "\<exists>d. data_on pt' p = Some d \<and> read_now os d" if p: "p \<in> set (solver_pids pt')" for p
    proof -
      have "known os names p"
        using p solver_pids_agrees [OF assms(3) r(2) roots] parents_known by (auto simp: descendants_def)
      then show ?thesis using solver_pids_data [OF ranked p] agrees_fresh [OF r(2)] by blast
    qed
    then show ?thesis using pt(1) run r(1) by auto
  qed
qed

theorem updateProcessesData_fresh_witness:
  "\<exists>pt pt' evs. pt_copy demo_tree (garbage demo_system) demo_family = Some pt \<and>
     updateProcessesData demo_system pt = returns (pt', evs) \<and>
     (\<forall>p\<in>set (solver_pids pt'). \<exists>d. data_on pt' p = Some d \<and> read_now demo_system d)"
proof -
  have "proc_entries demo_system = Some [''self'', ''42'']" by (simp add: demo_system_def)
  with demo_family_ranked show ?thesis using demo_system_facts(8) by (rule updateProcessesData_fresh)
qed

theorem sendSignalBottomUp_children_first_witness:
  "\<exists>order. sendSignalBottomUp demo_family 15 = Some (concat (map (stop_events demo_family 15) order)) \<and>
     mset order = mset (solver_pids demo_family) \<and> children_first demo_family order"
  using sendSignalBottomUp_children_first [OF demo_family_ranked] .

end
