(* ===== verification/Process_History.thy ===== *)
theory Process_History
  imports Process_Tree "HOL-Library.Sublist"
begin

text \<open>
  ProcessHistory.hh: the history of process trees, which keeps recent samples densely and old
  ones sparsely in cells of two. The trees are given by their addresses; \<open>mem\<close> is the tree at
  an address, and the addresses deleted are returned in order.
\<close>

section \<open>State\<close>

record 'p history =
  nbcell :: nat
  nbitem :: "nat list"
  history :: "'p list"

text \<open>\<open>null\<close> is the null pointer that resize stores.\<close>

definition ph_construct :: "'p \<Rightarrow> nat \<Rightarrow> 'p history" where
  "ph_construct null n = \<lparr>nbcell = n, nbitem = replicate n 0, history = replicate (2 * n) null\<rparr>"

definition ph_destroy :: "'p history \<Rightarrow> 'p list" where
  "ph_destroy h =
     concat (map (\<lambda>cell. map (\<lambda>i. history h ! (2 * cell + i)) [0..<nbitem h ! cell])
       (takeWhile (\<lambda>cell. 0 < nbitem h ! cell) [0..<nbcell h]))"

text \<open>
  The loop of push: the trees deleted so far are collected. nbitem[0] does not exist in a
  history without cells.
\<close>

function push_loop :: "nat \<Rightarrow> 'p \<Rightarrow> 'p history \<Rightarrow> 'p list \<Rightarrow> 'p history \<times> 'p list" where
  "push_loop cell elem h dropped =
     (if nbitem h ! cell < 2 then
        (h\<lparr>history := (history h)[2 * cell + nbitem h ! cell := elem],
           nbitem := (nbitem h)[cell := Suc (nbitem h ! cell)]\<rparr>, dropped)
      else
        let h1 = h\<lparr>nbitem := (nbitem h)[cell := 0]\<rparr>;
            tmp = history h1 ! (2 * cell);
            dropped = dropped @ [history h1 ! (2 * cell + 1)];
            h2 = h1\<lparr>history := (history h1)[2 * cell + nbitem h1 ! cell := elem],
                    nbitem := (nbitem h1)[cell := Suc (nbitem h1 ! cell)]\<rparr>
        in if Suc cell < nbcell h2 then push_loop (Suc cell) tmp h2 dropped
           else (h2, dropped @ [tmp]))"
  by pat_completeness auto
termination by (relation "measure (\<lambda>(cell, elem, h, dropped). nbcell h - cell)") auto

declare push_loop.simps [simp del]

definition push :: "'p \<Rightarrow> 'p history \<Rightarrow> ('p history \<times> 'p list) result" where
  "push elem h =
     (if nbcell h = 0 then Inl (Undefined ''nbitem[0]'') else Inr (push_loop 0 elem h []))"

definition dumpHistory :: "u64 \<Rightarrow> ('p \<Rightarrow> process_tree) \<Rightarrow> rat \<Rightarrow> 'p history \<Rightarrow> string option" where
  "dumpHistory ticks mem elapsedLimit h =
     (let dump = (\<lambda>p out. Option.bind (dumpProcessTree ticks (mem p)) (\<lambda>t.
                 Option.bind (dumpCPUTimeAndVSize ticks (mem p)) (\<lambda>u. Some (out @ t @ u))))
      in Option.bind
        (for_each (\<lambda>cell out.
            if nbitem h ! cell = 0 \<or> elapsed (mem (history h ! (2 * cell))) \<le> elapsedLimit then Some out
            else dump (history h ! (2 * cell)) out)
          (rev [0..<nbcell h]) [])
        (\<lambda>out. if nbitem h ! 0 = 2 then dump (history h ! 1) out else Some out))"

section \<open>Abstraction: a list of cells\<close>

definition cells :: "'p history \<Rightarrow> 'p list list" where
  "cells h = map (\<lambda>c. map (\<lambda>i. history h ! (2 * c + i)) [0..<nbitem h ! c]) [0..<nbcell h]"

definition wf_history :: "'p history \<Rightarrow> bool" where
  "wf_history h \<longleftrightarrow> length (nbitem h) = nbcell h \<and> length (history h) = 2 * nbcell h \<and>
     (\<forall>c<nbcell h. nbitem h ! c \<le> 2)"

text \<open>No empty cell stands before one with items.\<close>

fun packed :: "'p list list \<Rightarrow> bool" where
  "packed [] \<longleftrightarrow> True"
| "packed (c # cs) \<longleftrightarrow> packed cs \<and> (c = [] \<longrightarrow> concat cs = [])"

text \<open>The specification of push on cells: the new cells, and what is given up.\<close>

fun push_cells :: "'p \<Rightarrow> 'p list list \<Rightarrow> 'p list list \<times> 'p list" where
  "push_cells elem [] = ([], [elem])"
| "push_cells elem (c # cs) =
     (if length c < 2 then ((c @ [elem]) # cs, [])
      else let (cs', dropped) = push_cells (c ! 0) cs in ([elem] # cs', c ! 1 # dropped))"

lemma length_cells [simp]: "length (cells h) = nbcell h"
  by (simp add: cells_def)

lemma cells_nth: "c < nbcell h \<Longrightarrow> cells h ! c = map (\<lambda>i. history h ! (2 * c + i)) [0..<nbitem h ! c]"
  by (simp add: cells_def)

lemma drop_cells: "c < nbcell h \<Longrightarrow> drop c (cells h) = cells h ! c # drop (Suc c) (cells h)"
  by (simp add: Cons_nth_drop_Suc)

text \<open>Changing one cell in the arrays changes that cell of the abstraction.\<close>

lemma cells_update:
  assumes "wf_history h" and "c < nbcell h" and "n < 2"
  shows "cells (h\<lparr>history := (history h)[2 * c + n := x], nbitem := (nbitem h)[c := Suc n]\<rparr>) =
     (cells h)[c := map (\<lambda>i. history h ! (2 * c + i)) [0..<n] @ [x]]"
proof (rule nth_equalityI)
  fix k assume "k < length (cells (h\<lparr>history := (history h)[2 * c + n := x], nbitem := (nbitem h)[c := Suc n]\<rparr>))"
  then have k: "k < nbcell h" by simp
  show "cells (h\<lparr>history := (history h)[2 * c + n := x], nbitem := (nbitem h)[c := Suc n]\<rparr>) ! k =
      (cells h)[c := map (\<lambda>i. history h ! (2 * c + i)) [0..<n] @ [x]] ! k"
  proof (cases "k = c")
    case True
    have "2 * c + n < length (history h)" using assms by (simp add: wf_history_def)
    with True k assms show ?thesis by (simp add: cells_nth wf_history_def)
  next
    case False
    have "(history h)[2 * c + n := x] ! (2 * k + i) = history h ! (2 * k + i)" if "i < nbitem h ! k" for i
    proof -
      have "i < 2" using that assms(1) k by (fastforce simp: wf_history_def)
      then have "2 * k + i \<noteq> 2 * c + n" using False assms(3) by presburger
      then show ?thesis by simp
    qed
    with False k show ?thesis by (simp add: cells_nth)
  qed
qed simp

lemma push_loop_refines:
  assumes "wf_history h" and "k < nbcell h"
  shows "wf_history (fst (push_loop k x h dr)) \<and> nbcell (fst (push_loop k x h dr)) = nbcell h \<and>
     cells (fst (push_loop k x h dr)) = take k (cells h) @ fst (push_cells x (drop k (cells h))) \<and>
     snd (push_loop k x h dr) = dr @ snd (push_cells x (drop k (cells h)))"
  using assms
proof (induction "nbcell h - k" arbitrary: k x h dr rule: less_induct)
  case less
  let ?n = "nbitem h ! k"
  have len: "length (cells h ! k) = ?n" using less.prems(2) by (simp add: cells_nth)
  have split: "drop k (cells h) = cells h ! k # drop (Suc k) (cells h)" by (rule drop_cells [OF less.prems(2)])
  show ?case
  proof (cases "?n < 2")
    case True
    let ?h = "h\<lparr>history := (history h)[2 * k + ?n := x], nbitem := (nbitem h)[k := Suc ?n]\<rparr>"
    have "push_loop k x h dr = (?h, dr)" using True by (simp add: push_loop.simps [of k])
    moreover have "wf_history ?h"
      using less.prems True by (auto simp: wf_history_def nth_list_update)
    moreover have "cells ?h = (cells h)[k := cells h ! k @ [x]]"
      using cells_update [OF less.prems True, of x] less.prems(2) by (simp add: cells_nth)
    ultimately show ?thesis
      using True len less.prems(2) by (simp add: split upd_conv_take_nth_drop)
  next
    case False
    then have n: "?n = 2" using less.prems by (fastforce simp: wf_history_def)
    let ?h = "h\<lparr>history := (history h)[2 * k := x], nbitem := (nbitem h)[k := Suc 0]\<rparr>"
    let ?tmp = "history h ! (2 * k)" and ?dr = "dr @ [history h ! (2 * k + 1)]"
    have "k < length (nbitem h)" using less.prems by (simp add: wf_history_def)
    then have step: "push_loop k x h dr =
        (if Suc k < nbcell h then push_loop (Suc k) ?tmp ?h ?dr else (?h, ?dr @ [?tmp]))"
      using n by (simp add: push_loop.simps [of k] Let_def)
    have wf: "wf_history ?h" using less.prems by (auto simp: wf_history_def nth_list_update)
    have cells: "cells ?h = take k (cells h) @ [x] # drop (Suc k) (cells h)"
      using cells_update [OF less.prems, of 0 x] less.prems(2) by (simp add: upd_conv_take_nth_drop)
    have full: "cells h ! k = [?tmp, history h ! (2 * k + 1)]"
      using less.prems(2) n by (simp add: cells_nth upt_rec)
    show ?thesis
    proof (cases "Suc k < nbcell h")
      case True
      have "take (Suc k) (cells ?h) = take k (cells h) @ [[x]]"
        "drop (Suc k) (cells ?h) = drop (Suc k) (cells h)"
        using less.prems(2) by (simp_all add: cells)
      with less.hyps [of ?h "Suc k" ?tmp ?dr] wf True step split full show ?thesis
        by (simp add: case_prod_beta)
    next
      case False
      then have "drop (Suc k) (cells h) = []" by simp
      with False step wf cells split full show ?thesis by simp
    qed
  qed
qed

section \<open>Facts about the specification\<close>

lemma push_cells_length: "length (fst (push_cells x cs)) = length cs"
  by (induction x cs rule: push_cells.induct) (auto simp: case_prod_beta)

lemma two_items: "length c \<le> 2 \<Longrightarrow> \<not> length c < 2 \<Longrightarrow> c = [c ! 0, c ! 1]"
  by (cases c; cases "tl c") auto

lemma push_cells_mset:
  assumes "\<forall>c\<in>set cs. length c \<le> 2"
  shows "mset (concat (fst (push_cells x cs))) + mset (snd (push_cells x cs)) = {#x#} + mset (concat cs)"
  using assms
proof (induction x cs rule: push_cells.induct)
  case (2 x c cs)
  show ?case
  proof (cases "length c < 2")
    case True
    then show ?thesis by simp
  next
    case False
    with "2.prems" have c: "c = [c ! 0, c ! 1]" by (intro two_items) simp_all
    have "mset (concat (fst (push_cells (c ! 0) cs))) + mset (snd (push_cells (c ! 0) cs)) =
        {#c ! 0#} + mset (concat cs)"
      using 2 False by simp
    moreover have "mset c = {#c ! 0, c ! 1#}" using c by (metis mset.simps)
    ultimately show ?thesis using False by (simp add: case_prod_beta)
  qed
qed simp

text \<open>Oldest first: the cells from the last to the first.\<close>

definition oldest_first :: "'p list list \<Rightarrow> 'p list" where
  "oldest_first cs = concat (rev cs)"

lemma push_cells_order:
  assumes "\<forall>c\<in>set cs. length c \<le> 2"
  shows "subseq (oldest_first (fst (push_cells x cs))) (oldest_first cs @ [x])"
  using assms
proof (induction x cs rule: push_cells.induct)
  case (2 x c cs)
  show ?case
  proof (cases "length c < 2")
    case True
    then show ?thesis by (simp add: oldest_first_def)
  next
    case False
    with "2.prems" have c: "c = [c ! 0, c ! 1]" by (intro two_items) simp_all
    have "subseq (oldest_first (fst (push_cells (c ! 0) cs))) (oldest_first cs @ [c ! 0])"
      using 2 False by simp
    then have "subseq (oldest_first (fst (push_cells (c ! 0) cs)) @ [x]) ((oldest_first cs @ [c ! 0]) @ [c ! 1, x])"
      by (intro list_emb_append_mono) auto
    moreover have "oldest_first (c # cs) @ [x] = (oldest_first cs @ [c ! 0]) @ [c ! 1, x]"
      by (subst c) (simp add: oldest_first_def)
    ultimately have "subseq (oldest_first (fst (push_cells (c ! 0) cs)) @ [x]) (oldest_first (c # cs) @ [x])"
      by (simp only:)
    with False show ?thesis by (simp add: case_prod_beta oldest_first_def)
  qed
qed (simp add: oldest_first_def)

lemma push_cells_newest:
  "cs \<noteq> [] \<Longrightarrow> fst (push_cells x cs) \<noteq> [] \<and> hd (fst (push_cells x cs)) \<noteq> [] \<and> last (hd (fst (push_cells x cs))) = x"
  by (cases cs) (auto simp: case_prod_beta)

lemma push_cells_nonempty: "cs \<noteq> [] \<Longrightarrow> concat (fst (push_cells x cs)) \<noteq> []"
  by (cases cs) (auto simp: case_prod_beta)

lemma push_cells_packed:
  assumes "packed cs" and "\<forall>c\<in>set cs. length c \<le> 2"
  shows "packed (fst (push_cells x cs))"
  using assms by (induction x cs rule: push_cells.induct) (auto simp: case_prod_beta)

lemma push_cells_sizes:
  assumes "\<forall>c\<in>set cs. length c \<le> 2"
  shows "\<forall>c\<in>set (fst (push_cells x cs)). length c \<le> 2"
  using assms by (induction x cs rule: push_cells.induct) (auto simp: case_prod_beta)

lemma cells_sizes: "wf_history h \<Longrightarrow> \<forall>c\<in>set (cells h). length c \<le> 2"
  by (auto simp: cells_def wf_history_def)

lemma concat_packed:
  "packed (map g ks) \<Longrightarrow> concat (map g (takeWhile (\<lambda>k. g k \<noteq> []) ks)) = concat (map g ks)"
proof (induction ks)
  case (Cons k ks)
  have "packed (map g ks) \<and> (g k = [] \<longrightarrow> concat (map g ks) = [])"
    using Cons.prems unfolding list.map packed.simps .
  then have "packed (map g ks)" and "g k = [] \<Longrightarrow> concat (map g ks) = []" by blast+
  with Cons.IH show ?case by (cases "g k = []") (simp_all del: concat_eq_Nil_conv)
qed simp

lemma ph_destroy_cells:
  assumes "packed (cells h)"
  shows "ph_destroy h = concat (cells h)"
proof -
  let ?g = "\<lambda>c. map (\<lambda>i. history h ! (2 * c + i)) [0..<nbitem h ! c]"
  have "(\<lambda>c. 0 < nbitem h ! c) = (\<lambda>c. ?g c \<noteq> [])" by (rule ext) simp
  then have "ph_destroy h = concat (map ?g (takeWhile (\<lambda>c. ?g c \<noteq> []) [0..<nbcell h]))"
    unfolding ph_destroy_def by (rule arg_cong)
  also have "\<dots> = concat (map ?g [0..<nbcell h])"
    using assms unfolding cells_def by (rule concat_packed)
  finally show ?thesis by (simp only: cells_def)
qed

definition good_history :: "'p history \<Rightarrow> bool" where
  "good_history h \<longleftrightarrow> wf_history h \<and> packed (cells h) \<and> 0 < nbcell h"

lemma cells_construct: "cells (ph_construct null n) = replicate n []"
  by (rule nth_equalityI) (simp_all add: cells_nth ph_construct_def)

lemma good_construct: "0 < n \<Longrightarrow> good_history (ph_construct null n)"
proof -
  have "packed (replicate n [])" by (induction n) simp_all
  then show "0 < n \<Longrightarrow> good_history (ph_construct null n)"
    by (simp add: good_history_def wf_history_def cells_construct) (simp add: ph_construct_def)
qed

lemma push_ok:
  assumes "good_history h"
  shows "\<exists>h' dropped. push x h = Inr (h', dropped) \<and> good_history h' \<and>
     cells h' = fst (push_cells x (cells h)) \<and> dropped = snd (push_cells x (cells h))"
proof -
  have wf: "wf_history h" "packed (cells h)" "0 < nbcell h" using assms by (simp_all add: good_history_def)
  note r = push_loop_refines [OF wf(1,3), of x "[]"]
  then have "good_history (fst (push_loop 0 x h []))"
    using wf push_cells_packed [OF wf(2) cells_sizes [OF wf(1)], of x] by (simp add: good_history_def)
  with r wf(3) show ?thesis
    by (cases "push_loop 0 x h []") (simp add: push_def)
qed

lemma mset_oldest_first [simp]: "mset (oldest_first cs) = mset (concat cs)"
  by (induction cs) (simp_all add: oldest_first_def)

text \<open>What push does to the trees that are kept, oldest first.\<close>

lemma push_kept:
  assumes "good_history h"
  shows "\<exists>h' dropped. push x h = Inr (h', dropped) \<and> good_history h' \<and>
     oldest_first (cells h') \<noteq> [] \<and> last (oldest_first (cells h')) = x \<and>
     mset (oldest_first (cells h')) + mset dropped = {#x#} + mset (oldest_first (cells h))"
proof -
  obtain h' dropped where h': "push x h = Inr (h', dropped)" "good_history h'"
    "cells h' = fst (push_cells x (cells h))" "dropped = snd (push_cells x (cells h))"
    using push_ok [OF assms, of x] by blast
  have "cells h \<noteq> []" using assms by (auto simp: good_history_def cells_def)
  then obtain c cs where c: "cells h' = c # cs" "c \<noteq> []" "last c = x"
    using push_cells_newest [of "cells h" x] by (metis h'(3) list.exhaust_sel)
  have "mset (oldest_first (cells h')) + mset dropped = {#x#} + mset (oldest_first (cells h))"
    unfolding mset_oldest_first h'(3,4)
    using assms by (intro push_cells_mset cells_sizes) (simp only: good_history_def)
  with h'(1,2) c show ?thesis by (simp add: oldest_first_def)
qed

section \<open>A history in use\<close>

text \<open>The trees pushed in turn, and then the destructor: all addresses deleted, in order.\<close>

definition push_next :: "'p \<Rightarrow> 'p history \<times> 'p list \<Rightarrow> ('p history \<times> 'p list) result" where
  "push_next x st = and_then (push x (fst st)) (\<lambda>(h, dropped). Inr (h, snd st @ dropped))"

definition ph_lifetime :: "'p \<Rightarrow> nat \<Rightarrow> 'p list \<Rightarrow> 'p list result" where
  "ph_lifetime null n xs =
     and_then (for_each_result push_next xs (ph_construct null n, []))
       (\<lambda>(h, deleted). Inr (deleted @ ph_destroy h))"

lemma pushes_conserve:
  assumes "good_history h"
  shows "\<exists>h' deleted'. for_each_result push_next xs (h, deleted) = Inr (h', deleted') \<and> good_history h' \<and>
     mset (concat (cells h')) + mset deleted' = mset xs + mset (concat (cells h)) + mset deleted"
  using assms
proof (induction xs arbitrary: h deleted)
  case (Cons x xs)
  obtain h1 dropped where h1: "push x h = Inr (h1, dropped)" "good_history h1"
    "cells h1 = fst (push_cells x (cells h))" "dropped = snd (push_cells x (cells h))"
    using push_ok [OF Cons.prems, of x] by blast
  have "mset (concat (cells h1)) + mset dropped = {#x#} + mset (concat (cells h))"
    using push_cells_mset [OF cells_sizes, of h x] Cons.prems h1(3,4) by (simp add: good_history_def)
  with Cons.IH [OF h1(2), of "deleted @ dropped"] h1(1) show ?case
    by (auto simp: push_next_def)
qed simp

section \<open>Properties\<close>

text \<open>
  Property C15: push, on the arrays of the class, does what it does on a list of cells of at
  most two trees: it ends, keeps the sizes and keeps empty cells at the end; the new tree is
  kept, and is the last one of the first cell; what is kept is a part of what was there with
  the new tree behind, in the order in which the trees were pushed.
\<close>

theorem push_refines_cells:
  assumes "good_history h"
  shows "\<exists>h' dropped. push x h = Inr (h', dropped) \<and> good_history h' \<and>
     cells h' = fst (push_cells x (cells h)) \<and> dropped = snd (push_cells x (cells h)) \<and>
     subseq (oldest_first (cells h')) (oldest_first (cells h) @ [x]) \<and>
     last (oldest_first (cells h')) = x \<and> history h' ! (nbitem h' ! 0 - 1) = x"
proof -
  obtain h' dropped where h': "push x h = Inr (h', dropped)" "good_history h'"
    "cells h' = fst (push_cells x (cells h))" "dropped = snd (push_cells x (cells h))"
    using push_ok [OF assms, of x] by blast
  have ne: "cells h \<noteq> []" "cells h' \<noteq> []" using assms h'(2) by (auto simp: good_history_def cells_def)
  then obtain c cs where c: "cells h' = c # cs" "c \<noteq> []" "last c = x"
    using push_cells_newest [OF ne(1), of x] by (metis h'(3) list.exhaust_sel)
  have "last (oldest_first (cells h')) = x" using c by (simp add: oldest_first_def)
  moreover have "history h' ! (nbitem h' ! 0 - 1) = x"
  proof -
    have "c = map (\<lambda>i. history h' ! i) [0..<nbitem h' ! 0]"
      using c(1) h'(2) cells_nth [of 0 h'] by (simp add: good_history_def)
    with c(2,3) show ?thesis by (simp add: last_map)
  qed
  moreover have "subseq (oldest_first (cells h')) (oldest_first (cells h) @ [x])"
    using push_cells_order [OF cells_sizes, of h x] assms h'(3) by (simp add: good_history_def)
  ultimately show ?thesis using h' by blast
qed

theorem push_refines_cells_witness:
  "\<exists>h' dropped. push (5 :: nat) (ph_construct 0 10) = Inr (h', dropped) \<and> history h' ! (nbitem h' ! 0 - 1) = 5"
  using push_refines_cells [OF good_construct [of 10 "0 :: nat"], of 5] by auto

text \<open>
  Property C33: over its whole life a history deletes every tree pushed into it exactly once:
  nothing is leaked, nothing deleted twice.
\<close>

theorem history_deletes_once:
  assumes "0 < n"
  shows "\<exists>deleted. ph_lifetime null n xs = Inr deleted \<and> mset deleted = mset xs"
proof -
  obtain h deleted where r: "for_each_result push_next xs (ph_construct null n, []) = Inr (h, deleted)"
    "good_history h" "mset (concat (cells h)) + mset deleted = mset xs"
    using pushes_conserve [OF good_construct [OF assms, of null], of xs "[]"]
    by (auto simp: cells_construct)
  have "ph_destroy h = concat (cells h)"
    using r(2) by (intro ph_destroy_cells) (simp only: good_history_def)
  with r(1) have "ph_lifetime null n xs = Inr (deleted @ concat (cells h))" by (simp add: ph_lifetime_def)
  moreover have "mset (deleted @ concat (cells h)) = mset xs"
    using r(3) by (simp only: mset_append add.commute)
  ultimately show ?thesis by blast
qed

theorem history_deletes_once_witness:
  "\<exists>deleted. ph_lifetime 0 2 [1, 2, 3, 4, 5, 6, 7 :: nat] = Inr deleted \<and> mset deleted = {#1, 2, 3, 4, 5, 6, 7#}"
  using history_deletes_once [of 2 0 "[1, 2, 3, 4, 5, 6, 7 :: nat]"] by (simp only: mset.simps zero_less_numeral simp_thms)

end
