(* ===== verification/Signal_Names.thy ===== *)
theory Signal_Names
  imports Printing
begin

text \<open>SignalNames.cc: the names of the signals and the numbers of the names.\<close>

definition signalNames :: "string list" where
  "signalNames = [''???'', ''SIGHUP'', ''SIGINT'', ''SIGQUIT'', ''SIGILL'', ''SIGTRAP'', ''SIGABRT'',
     ''SIGBUS'', ''SIGFPE'', ''SIGKILL'', ''SIGUSR1'', ''SIGSEGV'', ''SIGUSR2'', ''SIGPIPE'', ''SIGALRM'',
     ''SIGTERM'', ''SIGSTKFLT'', ''SIGCHLD'', ''SIGCONT'', ''SIGSTOP'', ''SIGTSTP'', ''SIGTTIN'',
     ''SIGTTOU'', ''SIGURG'', ''SIGXCPU'', ''SIGXFSZ'', ''SIGVTALRM'', ''SIGPROF'', ''SIGWINCH'',
     ''SIGIO'', ''SIGPWR'', ''SIGSYS'']"

text \<open>The test lets through the number of names, which is one too many for an index.\<close>

definition getSignalName :: "int \<Rightarrow> string result" where
  "getSignalName sig =
     (if 0 < sig \<and> sig \<le> int (length signalNames) then
        if nat sig < length signalNames then Inr (signalNames ! nat sig)
        else Inl (Undefined ''signalNames'')
      else Inr ''???'')"

definition toupper :: "char \<Rightarrow> char" where
  "toupper c = (if 97 \<le> code_of c \<and> code_of c \<le> 122 then char_of (code_of c - 32) else c)"

fun find_name :: "string \<Rightarrow> string \<Rightarrow> int \<Rightarrow> string list \<Rightarrow> int" where
  "find_name uc ucsig i [] = - 1"
| "find_name uc ucsig i (s # names) =
     (if s = uc \<or> s = ucsig then i else find_name uc ucsig (i + 1) names)"

definition getSignalNum :: "string \<Rightarrow> int" where
  "getSignalNum name =
     (let uc = map toupper name in find_name uc (''SIG'' @ uc) 0 signalNames)"

lemma length_signalNames: "length signalNames = 32"
  by (simp add: signalNames_def)

lemma find_name_bounds:
  "find_name uc ucsig i names = k \<Longrightarrow> k \<noteq> - 1 \<Longrightarrow> 0 \<le> i \<Longrightarrow>
   i \<le> k \<and> k < i + int (length names) \<and> (names ! nat (k - i) = uc \<or> names ! nat (k - i) = ucsig)"
proof (induction uc ucsig i names rule: find_name.induct)
  case (1 uc ucsig i)
  then show ?case by simp
next
  case (2 uc ucsig i s names)
  show ?case
  proof (cases "s = uc \<or> s = ucsig")
    case True
    with 2 show ?thesis by auto
  next
    case False
    with 2 have *: "i + 1 \<le> k" "k < i + 1 + int (length names)"
      "names ! nat (k - (i + 1)) = uc \<or> names ! nat (k - (i + 1)) = ucsig" by auto
    then have "nat (k - i) = Suc (nat (k - (i + 1)))" by simp
    with * show ?thesis by simp
  qed
qed

lemma find_name_first:
  "(\<forall>s\<in>set names. s \<noteq> uc \<and> s \<noteq> ucsig) \<Longrightarrow> s = uc \<or> s = ucsig \<Longrightarrow>
   find_name uc ucsig i (names @ s # more_names) = i + int (length names)"
  by (induction names arbitrary: i) auto

lemma distinct_signalNames: "distinct signalNames"
  by code_simp

definition tolower :: "char \<Rightarrow> char" where
  "tolower c = (if 65 \<le> code_of c \<and> code_of c \<le> 90 then char_of (code_of c + 32) else c)"

definition capital :: "char \<Rightarrow> bool" where
  "capital c \<longleftrightarrow> isdigit c \<or> 65 \<le> code_of c \<and> code_of c \<le> 90"

lemma toupper_capital: "capital c \<Longrightarrow> toupper c = c" "capital c \<Longrightarrow> toupper (tolower c) = c"
  by (auto simp: capital_def isdigit_def toupper_def tolower_def)

lemma signalNames_letters:
  "\<forall>s\<in>set (tl signalNames). take 3 s = ''SIG'' \<and> take 3 (drop 3 s) \<noteq> ''SIG'' \<and> drop 3 s \<noteq> ''???'' \<and>
     list_all capital s"
  by (simp add: signalNames_def capital_def isdigit_def)

lemma signalNames_shape:
  assumes "s \<in> set (tl signalNames)"
  shows "take 3 s = ''SIG''" "take 3 (drop 3 s) \<noteq> ''SIG''" "drop 3 s \<noteq> ''???''"
    and "map toupper s = s" "map toupper (map tolower (drop 3 s)) = drop 3 s"
proof -
  have l: "list_all capital s" using signalNames_letters assms by blast
  show "take 3 s = ''SIG''" "take 3 (drop 3 s) \<noteq> ''SIG''" "drop 3 s \<noteq> ''???''"
    using signalNames_letters assms by blast+
  show "map toupper s = s"
    using l by (simp add: list_all_iff toupper_capital map_idI)
  have "\<forall>c\<in>set (drop 3 s). capital c" using l by (auto simp: list_all_iff dest: in_set_dropD)
  then show "map toupper (map tolower (drop 3 s)) = drop 3 s"
    by (simp add: toupper_capital map_idI)
qed

lemma nth_in_tl: "0 < j \<Longrightarrow> j < length xs \<Longrightarrow> xs ! j \<in> set (tl xs)"
  by (cases xs; cases j) auto

lemma getSignalNum_nth:
  assumes i: "0 < i" "i < length signalNames"
    and n: "map toupper name = signalNames ! i \<or> ''SIG'' @ map toupper name = signalNames ! i"
  shows "getSignalNum name = int i"
proof -
  let ?uc = "map toupper name" and ?s = "signalNames ! i"
  have tl: "signalNames ! j \<in> set (tl signalNames)" if "0 < j" "j < length signalNames" for j
    using that by (rule nth_in_tl)
  have other: "signalNames ! j \<noteq> ?uc \<and> signalNames ! j \<noteq> ''SIG'' @ ?uc" if j: "j < i" for j
  proof -
    have ne: "signalNames ! j \<noteq> ?s"
      using j i distinct_signalNames by (simp add: nth_eq_iff_index_eq)
    have shape_i: "take 3 ?s = ''SIG''" "take 3 (drop 3 ?s) \<noteq> ''SIG''" "drop 3 ?s \<noteq> ''???''"
      using signalNames_shape [OF tl [OF i]] by simp_all
    show ?thesis
    proof (cases "?uc = ?s")
      case True
      have "signalNames ! j \<noteq> ''SIG'' @ ?s"
      proof
        assume eq: "signalNames ! j = ''SIG'' @ ?s"
        have "0 < j" using eq by (cases j) (auto simp: signalNames_def)
        with j i tl [of j] have "take 3 (drop 3 (signalNames ! j)) \<noteq> ''SIG''"
          using signalNames_shape(2) by auto
        with eq shape_i(1) show False by simp
      qed
      with True ne show ?thesis by simp
    next
      case False
      with n have s: "?s = ''SIG'' @ ?uc" by simp
      have "signalNames ! j \<noteq> ?uc"
      proof
        assume eq: "signalNames ! j = ?uc"
        show False
        proof (cases "j = 0")
          case True
          with eq s shape_i(3) show False by (simp add: signalNames_def)
        next
          case False
          with j i tl [of j] have "take 3 (signalNames ! j) = ''SIG''"
            using signalNames_shape(1) by auto
          with eq s shape_i(2) show False by simp
        qed
      qed
      with ne s show ?thesis by simp
    qed
  qed
  have split: "signalNames = take i signalNames @ ?s # drop (Suc i) signalNames"
    using i(2) by (rule id_take_nth_drop)
  have "\<forall>s\<in>set (take i signalNames). s \<noteq> ?uc \<and> s \<noteq> ''SIG'' @ ?uc"
    using other i(2) by (auto simp: in_set_conv_nth)
  from find_name_first [OF this, of ?s 0 "drop (Suc i) signalNames"] n i(2) split
  show ?thesis by (auto simp: getSignalNum_def)
qed

section \<open>Properties\<close>

text \<open>
  For the signals 1 to 31 the two functions are inverse to each other: the name
  of a signal, in capitals or small letters, with or without SIG, has its number.
\<close>

theorem signal_round_trip:
  assumes "1 \<le> sig" and "sig \<le> 31"
  shows "\<exists>name. getSignalName sig = Inr (''SIG'' @ name) \<and>
     getSignalNum (''SIG'' @ name) = sig \<and> getSignalNum name = sig \<and>
     getSignalNum (map tolower name) = sig"
proof -
  define i where "i = nat sig"
  then have i: "0 < i" "i < length signalNames" "sig = int i"
    using assms by (auto simp: length_signalNames)
  let ?s = "signalNames ! i" and ?n = "drop 3 (signalNames ! i)"
  have "?s \<in> set (tl signalNames)" using i(1,2) by (rule nth_in_tl)
  from signalNames_shape(1,4,5) [OF this] have shape: "take 3 ?s = ''SIG''" "map toupper ?s = ?s"
    "map toupper (map tolower ?n) = ?n" by simp_all
  then have s: "?s = ''SIG'' @ ?n" by (metis append_take_drop_id)
  have up: "map toupper ?n = ?n" using shape(2) by (metis drop_map)
  have "getSignalName sig = Inr (''SIG'' @ ?n)"
    using i s by (simp add: getSignalName_def)
  moreover have "getSignalNum ?s = sig" "getSignalNum ?n = sig" "getSignalNum (map tolower ?n) = sig"
    using getSignalNum_nth [OF i(1,2)] shape(2,3) s up i(3) by auto
  ultimately show ?thesis using s by metis
qed

theorem signal_round_trip_witness:
  "\<exists>name. getSignalName 9 = Inr (''SIG'' @ name) \<and> getSignalNum (map tolower name) = 9"
  using signal_round_trip [of 9] by auto

text \<open>
  A number that getSignalNum gives, other than -1, belongs to a signal name
  that equals the argument in capitals, with or without SIG.
\<close>

theorem getSignalNum_sound:
  assumes "getSignalNum name = sig" and "sig \<noteq> - 1"
  shows "0 \<le> sig \<and> sig \<le> 31 \<and> (let s = signalNames ! nat sig in
     s = map toupper name \<or> s = ''SIG'' @ map toupper name)"
  using find_name_bounds [of "map toupper name" "''SIG'' @ map toupper name" 0 signalNames sig] assms
  by (simp add: getSignalNum_def length_signalNames Let_def)

theorem getSignalNum_sound_witness:
  "getSignalNum ''term'' = 15 \<and> signalNames ! 15 = ''SIG'' @ map toupper ''term''"
proof -
  have n: "getSignalNum ''term'' = 15" by code_simp
  have "signalNames ! 15 \<noteq> map toupper ''term''" by code_simp
  with getSignalNum_sound [OF n] n show ?thesis by (auto simp: Let_def)
qed

text \<open>
  GetSignalName reads beyond its table for 32 and for no other number.\<close>

theorem getSignalName_overrun: "getSignalName sig = Inl (Undefined e) \<longleftrightarrow> sig = 32 \<and> e = ''signalNames''"
  by (auto simp: getSignalName_def length_signalNames)

end
