(* ===== verification/Stop_Threads.thy ===== *)
theory Stop_Threads
  imports Signal_Names
begin

text \<open>
  runsolver.cc of runsolver-3.3.4-patched: how its threads start, stop the solver and end. Where
  3.4.0 has one watcher thread, this version has a timer thread that samples, a thread that
  stops the solver, a thread that takes the signals, and the main thread, which agree by flags
  that are read and written under a mutex and by conditions that are waited for. Each access to
  a flag is a step of its own; the order of the steps is arbitrary. What a sample finds in
  /proc is the argument of the step that takes it.
\<close>

section \<open>The flags\<close>

record flags =
  solverIsRunningFlag :: bool
  timerThreadShouldShutdown :: bool
  stopSolverInvokedByCallerFlag :: bool
  stopSolverShouldExecuteFlag :: bool
  timerThreadStopped :: bool

definition no_flags :: flags where
  "no_flags = \<lparr>solverIsRunningFlag = False, timerThreadShouldShutdown = False,
     stopSolverInvokedByCallerFlag = False, stopSolverShouldExecuteFlag = False,
     timerThreadStopped = False\<rparr>"

definition setSolverIsRunning :: "bool \<Rightarrow> flags \<Rightarrow> flags" where
  "setSolverIsRunning running f = f\<lparr>solverIsRunningFlag := running\<rparr>"

definition setTimerThreadShouldShutdown :: "bool \<Rightarrow> flags \<Rightarrow> flags" where
  "setTimerThreadShouldShutdown b f = f\<lparr>timerThreadShouldShutdown := b\<rparr>"

definition initStopSolverInvokedByCallerFlag :: "flags \<Rightarrow> flags" where
  "initStopSolverInvokedByCallerFlag f = f\<lparr>stopSolverInvokedByCallerFlag := False\<rparr>"

definition compareAndSetStopSolverInvokedByCallerFlag :: "bool \<Rightarrow> bool \<Rightarrow> flags \<Rightarrow> bool \<times> flags" where
  "compareAndSetStopSolverInvokedByCallerFlag expect newValue f =
     (if stopSolverInvokedByCallerFlag f = expect
      then (True, f\<lparr>stopSolverInvokedByCallerFlag := newValue\<rparr>) else (False, f))"

definition initStopSolverShouldExecuteFlag :: "flags \<Rightarrow> flags" where
  "initStopSolverShouldExecuteFlag f = f\<lparr>stopSolverShouldExecuteFlag := False\<rparr>"

definition setStopSolverShouldExecuteFlag :: "flags \<Rightarrow> flags" where
  "setStopSolverShouldExecuteFlag f = f\<lparr>stopSolverShouldExecuteFlag := True\<rparr>"

definition initTimerThreadStopped :: "flags \<Rightarrow> flags" where
  "initTimerThreadStopped f = f\<lparr>timerThreadStopped := False\<rparr>"

definition setTimerThreadStopped :: "flags \<Rightarrow> flags" where
  "setTimerThreadStopped f = f\<lparr>timerThreadStopped := True\<rparr>"

text \<open>A wait returns once its condition holds.\<close>

definition waitForStopSolverShouldExecuteFlag :: "flags \<Rightarrow> unit option" where
  "waitForStopSolverShouldExecuteFlag f = (if stopSolverShouldExecuteFlag f then Some () else None)"

definition waitForTimerThreadStopped :: "flags \<Rightarrow> unit option" where
  "waitForTimerThreadStopped f = (if timerThreadStopped f then Some () else None)"

lemmas flag_defs = setSolverIsRunning_def setTimerThreadShouldShutdown_def
  initStopSolverInvokedByCallerFlag_def compareAndSetStopSolverInvokedByCallerFlag_def
  initStopSolverShouldExecuteFlag_def setStopSolverShouldExecuteFlag_def
  initTimerThreadStopped_def setTimerThreadStopped_def
  waitForStopSolverShouldExecuteFlag_def waitForTimerThreadStopped_def

section \<open>Positions of the threads\<close>

text \<open>
  A call of stopSolver stands before its exchange of the flag, before the request to the timer
  thread, before the message, or before the release of the stopping thread.
\<close>

datatype stop_pc = Swap string | Ask string | Announce string | Release

datatype main_pc =
    M_install | M_init_invoked | M_init_stopped | M_init_execute | M_init_shutdown | M_init_running
  | M_fork | M_running | M_first_look | M_make_timer | M_make_stopper | M_wait | M_stop stop_pc
  | M_ask | M_ended | M_join_timer | M_join_stamper | M_join_stopper | M_kill | M_report

text \<open>
  A list is what remains of the limits that a sample found to be exceeded: what is printed,
  and the message for stopSolver.
\<close>

type_synonym reasons = "(string \<times> string) list"

datatype timer_pc =
    T_unborn | T_test | T_sleep | T_poll | T_sample | T_limits reasons | T_stop stop_pc reasons
  | T_show | T_abort | T_leave | T_signal | T_over

datatype stopper_pc =
    S_unborn | S_begin | S_wait_go | S_wait_timer | S_sample | S_limits reasons
  | S_stop stop_pc reasons | S_show | S_term | S_sleep | S_asleep | S_check | S_over bool

datatype signals_pc = G_unborn | G_wait | G_ask | G_stop stop_pc | G_over

datatype child_status = Unborn | Running | Zombie | Reaped

record session =
  flags :: flags
  main_at :: main_pc
  timer_at :: timer_pc
  stopper_at :: stopper_pc
  signals_at :: signals_pc
  child :: child_status
  childpid :: int
  blocked :: "int set" \<comment> \<open>the signal mask of runsolver\<close>
  child_blocked :: "int set" \<comment> \<open>the signal mask of the solver\<close>
  stamping :: bool
  stamper_over :: bool
  delay :: int
  log :: "event list"

definition put :: "event list \<Rightarrow> session \<Rightarrow> session" where
  "put evs s = s\<lparr>log := log s @ evs\<rparr>"

definition with_flags :: "(flags \<Rightarrow> flags) \<Rightarrow> session \<Rightarrow> session" where
  "with_flags f s = s\<lparr>flags := f (flags s)\<rparr>"

section \<open>Stopping the solver\<close>

text \<open>One step of a call of stopSolver; without a position it has returned.\<close>

fun stopSolver_step :: "stop_pc \<Rightarrow> session \<Rightarrow> stop_pc option \<times> session" where
  "stopSolver_step (Swap msg) s =
     (case compareAndSetStopSolverInvokedByCallerFlag False True (flags s) of
        (changed, f) \<Rightarrow> (if changed then Some (Ask msg) else None, s\<lparr>flags := f\<rparr>))"
| "stopSolver_step (Ask msg) s =
     (Some (Announce msg), with_flags (setTimerThreadShouldShutdown True) s)"
| "stopSolver_step (Announce msg) s =
     (Some Release, put [Print (replicate 3 newline @ ''Shutdown Reason:'' @ [newline] @ msg @ [newline])] s)"
| "stopSolver_step Release s = (None, with_flags setStopSolverShouldExecuteFlag s)"

text \<open>
  What one call of readProcessData finds: whether the root process has ended, and which of
  the limits on CPU time, wall clock time and virtual size are reached.
\<close>

record sample =
  root_ended :: bool
  over_cpu :: bool
  over_wall :: bool
  over_vsize :: bool
  display_due :: bool

definition exceeded :: "sample \<Rightarrow> reasons" where
  "exceeded x =
     (if over_cpu x then [(''runsolver_max_cpu_time_exceeded'' @ [newline],
        ''Maximum CPU time exceeded: sending SIGTERM then SIGKILL'')] else []) @
     (if over_wall x then [([],
        ''Maximum wall clock time exceeded: sending SIGTERM then SIGKILL'')] else []) @
     (if over_vsize x then [(''runsolver_max_memory_limit_exceeded'' @ [newline],
        ''Maximum VSize exceeded: sending SIGTERM then SIGKILL'')] else [])"

section \<open>The timer thread\<close>

fun timer_step :: "sample \<Rightarrow> session \<Rightarrow> session option" where
  "timer_step x s =
     (case timer_at s of
        T_unborn \<Rightarrow> None
      | T_test \<Rightarrow> Some (s\<lparr>timer_at := if solverIsRunningFlag (flags s) then T_sleep else T_leave\<rparr>)
      | T_sleep \<Rightarrow> Some (s\<lparr>timer_at := T_poll\<rparr>)
      | T_poll \<Rightarrow> Some (s\<lparr>timer_at := if timerThreadShouldShutdown (flags s) then T_leave else T_sample\<rparr>)
      | T_sample \<Rightarrow> Some (s\<lparr>timer_at := if root_ended x then T_abort else T_limits (exceeded x)\<rparr>)
      | T_limits [] \<Rightarrow> Some (s\<lparr>timer_at := if display_due x then T_show else T_test\<rparr>)
      | T_limits ((note, msg) # ls) \<Rightarrow> Some (put [Print note] (s\<lparr>timer_at := T_stop (Swap msg) ls\<rparr>))
      | T_stop pc ls \<Rightarrow>
          (case stopSolver_step pc s of
             (Some pc', s') \<Rightarrow> Some (s'\<lparr>timer_at := T_stop pc' ls\<rparr>)
           | (None, s') \<Rightarrow> Some (s'\<lparr>timer_at := T_limits ls\<rparr>))
      | T_show \<Rightarrow> Some (s\<lparr>timer_at := T_test\<rparr>)
      | T_abort \<Rightarrow> Some (put [Print ''Root process has terminated, timer thread aborting'']
            (with_flags (setSolverIsRunning False) (s\<lparr>timer_at := T_leave\<rparr>)))
      | T_leave \<Rightarrow> Some (put (if timerThreadShouldShutdown (flags s)
              then [Print ''Timer Thread detected shutdown flag, shutting down''] else [])
            (s\<lparr>timer_at := T_signal\<rparr>))
      | T_signal \<Rightarrow> Some (with_flags setTimerThreadStopped (s\<lparr>timer_at := T_over\<rparr>))
      | T_over \<Rightarrow> None)"

section \<open>The thread that stops the solver\<close>

definition SIGALRM :: int where
  "SIGALRM = 14"

definition SIGINT :: int where
  "SIGINT = 2"

definition SIGTERM :: int where
  "SIGTERM = 15"

definition SIGKILL :: int where
  "SIGKILL = 9"

lemmas signal_defs = SIGALRM_def SIGINT_def SIGTERM_def SIGKILL_def

definition sendSIGTERM_group :: "session \<Rightarrow> session" where
  "sendSIGTERM_group s =
     put [Print ([newline] @ ''Sending SIGTERM to '' @ dec_int (- childpid s) @ [newline]),
          Kill (- childpid s) SIGTERM] s"

definition sendSIGKILL_group :: "session \<Rightarrow> session" where
  "sendSIGKILL_group s =
     put [Print ([newline] @ ''Sending SIGKILL to '' @ dec_int (- childpid s) @ [newline]),
          Kill (- childpid s) SIGKILL] s"

text \<open>
  The argument \<open>interrupted\<close> says whether the sleep of \<open>waitAndSendSIGKILL\<close> is interrupted
  by a signal; it then goes on with the time that is left.
\<close>

fun stopper_step :: "sample \<Rightarrow> bool \<Rightarrow> session \<Rightarrow> session option" where
  "stopper_step x interrupted s =
     (case stopper_at s of
        S_unborn \<Rightarrow> None
      | S_begin \<Rightarrow> Some (put [Print (''Stop Solver Thread: Started'' @ [newline])] (s\<lparr>stopper_at := S_wait_go\<rparr>))
      | S_wait_go \<Rightarrow>
          (case waitForStopSolverShouldExecuteFlag (flags s) of None \<Rightarrow> None
           | Some _ \<Rightarrow> Some (put [Print (''Stop Solver Thread: Should Execute'' @ [newline])]
               (s\<lparr>stopper_at := S_wait_timer\<rparr>)))
      | S_wait_timer \<Rightarrow>
          (case waitForTimerThreadStopped (flags s) of None \<Rightarrow> None
           | Some _ \<Rightarrow> Some (put [Print (''Stop Solver Thread: Timer Thread Stopped'' @ [newline])]
               (s\<lparr>stopper_at := S_sample\<rparr>)))
      | S_sample \<Rightarrow> Some (s\<lparr>stopper_at := if root_ended x then S_show else S_limits (exceeded x)\<rparr>)
      | S_limits [] \<Rightarrow> Some (s\<lparr>stopper_at := S_show\<rparr>)
      | S_limits ((note, msg) # ls) \<Rightarrow> Some (put [Print note] (s\<lparr>stopper_at := S_stop (Swap msg) ls\<rparr>))
      | S_stop pc ls \<Rightarrow>
          (case stopSolver_step pc s of
             (Some pc', s') \<Rightarrow> Some (s'\<lparr>stopper_at := S_stop pc' ls\<rparr>)
           | (None, s') \<Rightarrow> Some (s'\<lparr>stopper_at := S_limits ls\<rparr>))
      | S_show \<Rightarrow> Some (s\<lparr>stopper_at := S_term\<rparr>)
      | S_term \<Rightarrow> Some (put [Print (''Stop Solver Thread: SIGTERM sent, waiting and sending SIGKILL'' @ [newline]),
            Print (''Sleeping '' @ dec_int (delay s) @ '' seconds'' @ [newline])]
            (sendSIGTERM_group (s\<lparr>stopper_at := S_sleep\<rparr>)))
      | S_sleep \<Rightarrow> Some (s\<lparr>stopper_at := if solverIsRunningFlag (flags s) then S_asleep else S_check\<rparr>)
      | S_asleep \<Rightarrow> Some (s\<lparr>stopper_at := if interrupted then S_sleep else S_check\<rparr>)
      | S_check \<Rightarrow> Some (put [Print (''Stop Solver Thread: DONE'' @ [newline])]
            (if solverIsRunningFlag (flags s) then sendSIGKILL_group (s\<lparr>stopper_at := S_over True\<rparr>)
             else s\<lparr>stopper_at := S_over False\<rparr>))
      | S_over _ \<Rightarrow> None)"

section \<open>The thread that takes the signals\<close>

definition getSignalMask :: "int set" where
  "getSignalMask = {SIGALRM, SIGINT, SIGTERM}"

text \<open>sigwait has returned the signal signo; SIGALRM is ignored.\<close>

definition signal_received :: "int \<Rightarrow> session \<Rightarrow> session option" where
  "signal_received signo s =
     (if signals_at s = G_wait \<and> signo \<in> getSignalMask then
        if signo = SIGINT \<or> signo = SIGTERM then
          Some (put [Print (''Recieved signal '' @ (case getSignalName signo of Inr n \<Rightarrow> n | Inl _ \<Rightarrow> []) @
            '' setting flag.'')] (s\<lparr>signals_at := G_ask\<rparr>))
        else Some s
      else None)"

fun signals_step :: "session \<Rightarrow> session option" where
  "signals_step s =
     (case signals_at s of
        G_unborn \<Rightarrow> None
      | G_wait \<Rightarrow> None
      | G_ask \<Rightarrow> Some (with_flags (setTimerThreadShouldShutdown True)
          (s\<lparr>signals_at := G_stop (Swap ''Received SIGTERM or SIGINT, killing child'')\<rparr>))
      | G_stop pc \<Rightarrow>
          (case stopSolver_step pc s of
             (Some pc', s') \<Rightarrow> Some (s'\<lparr>signals_at := G_stop pc'\<rparr>)
           | (None, s') \<Rightarrow> Some (s'\<lparr>signals_at := G_over\<rparr>))
      | G_over \<Rightarrow> None)"

section \<open>The main thread\<close>

definition installSignalHandler :: "session \<Rightarrow> session" where
  "installSignalHandler s = s\<lparr>blocked := blocked s \<union> getSignalMask, signals_at := G_wait\<rparr>"

text \<open>fork copies the signal mask, and exec keeps it.\<close>

definition fork_child :: "session \<Rightarrow> session" where
  "fork_child s = s\<lparr>child := Running, child_blocked := blocked s\<rparr>"

fun main_thread_step :: "session \<Rightarrow> session option" where
  "main_thread_step s =
     (case main_at s of
        M_install \<Rightarrow> Some (installSignalHandler (s\<lparr>main_at := M_init_invoked\<rparr>))
      | M_init_invoked \<Rightarrow> Some (with_flags initStopSolverInvokedByCallerFlag (s\<lparr>main_at := M_init_stopped\<rparr>))
      | M_init_stopped \<Rightarrow> Some (with_flags initTimerThreadStopped (s\<lparr>main_at := M_init_execute\<rparr>))
      | M_init_execute \<Rightarrow> Some (with_flags initStopSolverShouldExecuteFlag (s\<lparr>main_at := M_init_shutdown\<rparr>))
      | M_init_shutdown \<Rightarrow> Some (with_flags (setTimerThreadShouldShutdown False) (s\<lparr>main_at := M_init_running\<rparr>))
      | M_init_running \<Rightarrow> Some (with_flags (setSolverIsRunning False) (s\<lparr>main_at := M_fork\<rparr>))
      | M_fork \<Rightarrow> Some (fork_child (s\<lparr>main_at := M_running\<rparr>))
      | M_running \<Rightarrow> Some (with_flags (setSolverIsRunning True) (s\<lparr>main_at := M_first_look\<rparr>))
      | M_first_look \<Rightarrow> Some (s\<lparr>main_at := M_make_timer\<rparr>)
      | M_make_timer \<Rightarrow> Some (s\<lparr>timer_at := T_test, main_at := M_make_stopper\<rparr>)
      | M_make_stopper \<Rightarrow> Some (s\<lparr>stopper_at := S_begin, main_at := M_wait\<rparr>)
      | M_wait \<Rightarrow>
          (if child s = Zombie then Some (s\<lparr>child := Reaped,
             main_at := M_stop (Swap ''Solver termination detected (return from wait4)'')\<rparr>) else None)
      | M_stop pc \<Rightarrow>
          (case stopSolver_step pc s of
             (Some pc', s') \<Rightarrow> Some (s'\<lparr>main_at := M_stop pc'\<rparr>)
           | (None, s') \<Rightarrow> Some (s'\<lparr>main_at := M_ask\<rparr>))
      | M_ask \<Rightarrow> Some (put [Print (''Requesting Timer Thread Should Shutdown '' @ [newline])]
          (with_flags (setTimerThreadShouldShutdown True) (s\<lparr>main_at := M_ended\<rparr>)))
      | M_ended \<Rightarrow> Some (put [Print (''Setting solver is running = false '' @ [newline])]
          (with_flags (setSolverIsRunning False) (s\<lparr>main_at := M_join_timer\<rparr>)))
      | M_join_timer \<Rightarrow>
          (if timer_at s = T_over then Some (put [Print (''Joining on timer Thread '' @ [newline]),
             Print (''Timer Thread Done'' @ [newline])] (s\<lparr>main_at := M_join_stamper\<rparr>)) else None)
      | M_join_stamper \<Rightarrow>
          (if stamping s \<longrightarrow> stamper_over s then
             Some (put [Print (''Waiting for stop solver thread'' @ [newline])] (s\<lparr>main_at := M_join_stopper\<rparr>))
           else None)
      | M_join_stopper \<Rightarrow>
          (case stopper_at s of
             S_over _ \<Rightarrow> Some (put [Print (''Sending fallback SIGKILL signal to process group'' @ [newline])]
               (s\<lparr>main_at := M_kill\<rparr>))
           | _ \<Rightarrow> None)
      | M_kill \<Rightarrow> Some (put [Kill (- childpid s) SIGKILL] (s\<lparr>main_at := M_report\<rparr>))
      | M_report \<Rightarrow> None)"

section \<open>Runs\<close>

text \<open>
  A step of one of the threads, a signal to runsolver, the end of the solver, or the end of its
  output: the time stamper thread ends when nobody has the pipe open for writing any more,
  neither the solver nor a process that it has started.
\<close>

datatype move = Main | Timer sample | Stopper sample bool | Signals | Receive int
  | Solver_ends | Output_ends

fun take_step :: "move \<Rightarrow> session \<Rightarrow> session option" where
  "take_step Main s = main_thread_step s"
| "take_step (Timer x) s = timer_step x s"
| "take_step (Stopper x b) s = stopper_step x b s"
| "take_step Signals s = signals_step s"
| "take_step (Receive signo) s = signal_received signo s"
| "take_step Solver_ends s = (if child s = Running then Some (s\<lparr>child := Zombie\<rparr>) else None)"
| "take_step Output_ends s =
     (if stamping s \<and> \<not> stamper_over s \<and> child s \<noteq> Unborn
      then Some (s\<lparr>stamper_over := True\<rparr>) else None)"

fun perform :: "move list \<Rightarrow> session \<Rightarrow> session option" where
  "perform [] s = Some s"
| "perform (m # ms) s = (case take_step m s of None \<Rightarrow> None | Some s' \<Rightarrow> perform ms s')"

text \<open>The beginning of \<open>run\<close>, in a process with the signal mask \<open>mask\<close>.\<close>

definition session_start :: "int \<Rightarrow> bool \<Rightarrow> int \<Rightarrow> int set \<Rightarrow> session" where
  "session_start pid stamps d msk =
     \<lparr>flags = no_flags, main_at = M_install, timer_at = T_unborn, stopper_at = S_unborn,
      signals_at = G_unborn, child = Unborn, childpid = pid, blocked = msk, child_blocked = {},
      stamping = stamps, stamper_over = False, delay = d, log = []\<rparr>"

text \<open>Just before the fork, when no signal has come so far.\<close>

definition session_ready :: "int \<Rightarrow> bool \<Rightarrow> int \<Rightarrow> int set \<Rightarrow> session" where
  "session_ready pid stamps d msk =
     (session_start pid stamps d msk)
       \<lparr>main_at := M_fork, blocked := msk \<union> getSignalMask, signals_at := G_wait\<rparr>"

lemma perform_append:
  "perform (ms @ ns) s = (case perform ms s of None \<Rightarrow> None | Some s' \<Rightarrow> perform ns s')"
  by (induction ms arbitrary: s) (auto split: option.splits)

lemma ready_reached: "perform (replicate 6 Main) (session_start pid stamps d msk) = Some (session_ready pid stamps d msk)"
  by (simp add: numeral_eq_Suc session_start_def session_ready_def installSignalHandler_def with_flags_def flag_defs no_flags_def)

declare main_thread_step.simps [simp del] timer_step.simps [simp del]
  stopper_step.simps [simp del] signals_step.simps [simp del]

section \<open>Invariants\<close>

fun stage :: "main_pc \<Rightarrow> nat" where
  "stage M_install = 0"
| "stage M_init_invoked = 1"
| "stage M_init_stopped = 2"
| "stage M_init_execute = 3"
| "stage M_init_shutdown = 4"
| "stage M_init_running = 5"
| "stage M_fork = 6"
| "stage M_running = 7"
| "stage M_first_look = 8"
| "stage M_make_timer = 9"
| "stage M_make_stopper = 10"
| "stage M_wait = 11"
| "stage (M_stop _) = 12"
| "stage M_ask = 13"
| "stage M_ended = 14"
| "stage M_join_timer = 15"
| "stage M_join_stamper = 16"
| "stage M_join_stopper = 17"
| "stage M_kill = 18"
| "stage M_report = 19"

text \<open>Which threads work on the tree of processes and its history.\<close>

fun main_samples :: "main_pc \<Rightarrow> bool" where
  "main_samples M_first_look = True"
| "main_samples M_report = True"
| "main_samples _ = False"

fun timer_samples :: "timer_pc \<Rightarrow> bool" where
  "timer_samples T_sample = True"
| "timer_samples (T_limits _) = True"
| "timer_samples (T_stop _ _) = True"
| "timer_samples T_show = True"
| "timer_samples _ = False"

fun stopper_samples :: "stopper_pc \<Rightarrow> bool" where
  "stopper_samples S_sample = True"
| "stopper_samples (S_limits _) = True"
| "stopper_samples (S_stop _ _) = True"
| "stopper_samples S_show = True"
| "stopper_samples _ = False"

text \<open>Whether the stopping thread has passed its two waits, and what it has sent.\<close>

fun stopper_free :: "stopper_pc \<Rightarrow> bool" where
  "stopper_free S_unborn = False"
| "stopper_free S_begin = False"
| "stopper_free S_wait_go = False"
| "stopper_free S_wait_timer = False"
| "stopper_free _ = True"

fun stopper_sent :: "stopper_pc \<Rightarrow> int list" where
  "stopper_sent S_sleep = [SIGTERM]"
| "stopper_sent S_asleep = [SIGTERM]"
| "stopper_sent S_check = [SIGTERM]"
| "stopper_sent (S_over killed) = (if killed then [SIGTERM, SIGKILL] else [SIGTERM])"
| "stopper_sent _ = []"

fun is_kill :: "event \<Rightarrow> bool" where
  "is_kill (Kill _ _) = True"
| "is_kill _ = False"

definition sent :: "event list \<Rightarrow> event list" where
  "sent evs = filter is_kill evs"

lemma sent_simps [simp]:
  "sent [] = []" "sent (Print t # evs) = sent evs" "sent (Kill p k # evs) = Kill p k # sent evs"
  "sent (Pause n # evs) = sent evs" "sent (evs @ evs') = sent evs @ sent evs'"
  by (simp_all add: sent_def)

definition to_group :: "session \<Rightarrow> int list \<Rightarrow> event list" where
  "to_group s = map (Kill (- childpid s))"

definition reached :: "nat \<Rightarrow> main_pc \<Rightarrow> bool" where
  "reached k pc \<longleftrightarrow> k \<le> stage pc"

definition session_ok :: "session \<Rightarrow> bool" where
  "session_ok s \<longleftrightarrow>
     (timer_at s = T_unborn \<longleftrightarrow> \<not> reached 10 (main_at s)) \<and>
     (stopper_at s = S_unborn \<longleftrightarrow> \<not> reached 11 (main_at s)) \<and>
     (child s = Unborn \<longleftrightarrow> \<not> reached 7 (main_at s)) \<and>
     (child s = Reaped \<longleftrightarrow> reached 12 (main_at s)) \<and>
     (timerThreadStopped (flags s) \<longleftrightarrow> timer_at s = T_over) \<and>
     (stopper_free (stopper_at s) \<longrightarrow> timer_at s = T_over) \<and>
     (reached 16 (main_at s) \<longrightarrow> timer_at s = T_over) \<and>
     (reached 18 (main_at s) \<longrightarrow> (\<exists>b. stopper_at s = S_over b)) \<and>
     (reached 14 (main_at s) \<longrightarrow> timerThreadShouldShutdown (flags s)) \<and>
     (reached 15 (main_at s) \<longrightarrow> \<not> solverIsRunningFlag (flags s)) \<and>
     sent (log s) = to_group s (stopper_sent (stopper_at s) @ (if main_at s = M_report then [SIGKILL] else [])) \<and>
     (\<not> reached 1 (main_at s) \<longrightarrow> signals_at s = G_unborn) \<and>
     (reached 1 (main_at s) \<longrightarrow> getSignalMask \<subseteq> blocked s) \<and>
     (child s \<noteq> Unborn \<longrightarrow> getSignalMask \<subseteq> child_blocked s)"

text \<open>A step of stopSolver changes two flags and the log.\<close>

definition stop_frame :: "session \<Rightarrow> session \<Rightarrow> bool" where
  "stop_frame s s' \<longleftrightarrow>
     main_at s' = main_at s \<and> timer_at s' = timer_at s \<and> stopper_at s' = stopper_at s \<and>
     signals_at s' = signals_at s \<and> child s' = child s \<and> childpid s' = childpid s \<and>
     blocked s' = blocked s \<and> child_blocked s' = child_blocked s \<and> stamping s' = stamping s \<and>
     stamper_over s' = stamper_over s \<and> delay s' = delay s \<and> sent (log s') = sent (log s) \<and>
     solverIsRunningFlag (flags s') = solverIsRunningFlag (flags s) \<and>
     timerThreadStopped (flags s') = timerThreadStopped (flags s) \<and>
     (timerThreadShouldShutdown (flags s) \<longrightarrow> timerThreadShouldShutdown (flags s')) \<and>
     (stopSolverInvokedByCallerFlag (flags s) \<longrightarrow> stopSolverInvokedByCallerFlag (flags s')) \<and>
     (stopSolverShouldExecuteFlag (flags s) \<longrightarrow> stopSolverShouldExecuteFlag (flags s'))"

lemma stopSolver_step_frame: "stopSolver_step pc s = (r, s') \<Longrightarrow> stop_frame s s'"
  by (cases pc) (auto simp: stop_frame_def flag_defs with_flags_def put_def split: if_splits)

lemma session_ok_start: "session_ok (session_start pid stamps d msk)"
  by (simp add: session_ok_def session_start_def no_flags_def to_group_def reached_def)

lemma session_ok_main: "session_ok s \<Longrightarrow> pred_option session_ok (main_thread_step s)"
proof (cases "main_at s")
  case (M_stop pc)
  assume ok: "session_ok s"
  obtain r s' where r: "stopSolver_step pc s = (r, s')" by (cases "stopSolver_step pc s")
  from r have f: "stop_frame s s'" by (rule stopSolver_step_frame)
  with ok M_stop show ?thesis
    by (simp add: session_ok_def reached_def main_thread_step.simps r stop_frame_def to_group_def split: option.splits)
next
  case M_join_stopper
  assume "session_ok s"
  with M_join_stopper show ?thesis
    by (cases "stopper_at s") (simp_all add: session_ok_def reached_def main_thread_step.simps put_def to_group_def)
qed (simp_all add: session_ok_def reached_def main_thread_step.simps with_flags_def put_def flag_defs
    to_group_def installSignalHandler_def fork_child_def)

lemma session_ok_timer: "session_ok s \<Longrightarrow> pred_option session_ok (timer_step x s)"
proof (cases "timer_at s")
  case (T_stop pc ls)
  assume ok: "session_ok s"
  obtain r s' where r: "stopSolver_step pc s = (r, s')" by (cases "stopSolver_step pc s")
  from r have f: "stop_frame s s'" by (rule stopSolver_step_frame)
  with ok T_stop show ?thesis
    by (simp add: session_ok_def timer_step.simps r stop_frame_def to_group_def split: option.splits)
next
  case (T_limits ls)
  assume "session_ok s"
  with T_limits show ?thesis
    by (cases ls) (auto simp: session_ok_def timer_step.simps put_def to_group_def)
qed (simp_all add: session_ok_def timer_step.simps with_flags_def put_def flag_defs to_group_def)

lemma reached_10 [simp]: "reached 11 pc \<Longrightarrow> reached 10 pc"
  by (simp add: reached_def)

lemma not_report [simp]: "\<not> reached 18 pc \<Longrightarrow> pc \<noteq> M_report"
  by (auto simp: reached_def)

lemma session_ok_stopper: "session_ok s \<Longrightarrow> pred_option session_ok (stopper_step x b s)"
proof (cases "stopper_at s")
  case (S_stop pc ls)
  assume ok: "session_ok s"
  obtain r s' where r: "stopSolver_step pc s = (r, s')" by (cases "stopSolver_step pc s")
  from r have f: "stop_frame s s'" by (rule stopSolver_step_frame)
  with ok S_stop show ?thesis
    by (simp add: session_ok_def stopper_step.simps r stop_frame_def to_group_def split: option.splits)
next
  case (S_limits ls)
  assume "session_ok s"
  with S_limits show ?thesis
    by (cases ls) (auto simp: session_ok_def stopper_step.simps put_def to_group_def)
next
  case S_check
  assume ok: "session_ok s"
  show ?thesis
  proof (cases "reached 15 (main_at s)")
    case True
    with ok S_check show ?thesis by (simp add: session_ok_def stopper_step.simps put_def to_group_def)
  next
    case False
    with ok S_check show ?thesis
      by (simp add: session_ok_def stopper_step.simps put_def to_group_def sendSIGKILL_group_def)
  qed
qed (simp_all add: session_ok_def stopper_step.simps with_flags_def put_def flag_defs to_group_def
    sendSIGTERM_group_def sendSIGKILL_group_def)

lemma session_ok_signals: "session_ok s \<Longrightarrow> pred_option session_ok (signals_step s)"
proof (cases "signals_at s")
  case (G_stop pc)
  assume ok: "session_ok s"
  obtain r s' where r: "stopSolver_step pc s = (r, s')" by (cases "stopSolver_step pc s")
  from r have f: "stop_frame s s'" by (rule stopSolver_step_frame)
  with ok G_stop show ?thesis
    by (simp add: session_ok_def signals_step.simps r stop_frame_def to_group_def split: option.splits)
qed (simp_all add: session_ok_def signals_step.simps with_flags_def put_def flag_defs to_group_def)

lemma session_ok_step: "session_ok s \<Longrightarrow> pred_option session_ok (take_step m s)"
proof (cases m)
  case (Receive signo)
  assume "session_ok s"
  with Receive show ?thesis
    by (cases "reached 1 (main_at s)") (simp_all add: session_ok_def signal_received_def put_def to_group_def)
next
  case Solver_ends
  assume "session_ok s"
  with Solver_ends show ?thesis by (cases "child s") (simp_all add: session_ok_def to_group_def)
next
  case Output_ends
  assume "session_ok s"
  with Output_ends show ?thesis by (simp add: session_ok_def to_group_def)
qed (simp_all add: session_ok_main session_ok_timer session_ok_stopper session_ok_signals)

lemma perform_inv:
  assumes "perform ms s = Some t" and "P s"
    and "\<And>m u. m \<in> set ms \<Longrightarrow> P u \<Longrightarrow> pred_option P (take_step m u)"
  shows "P t"
  using assms
proof (induction ms arbitrary: s)
  case (Cons m ms)
  from Cons.prems(1) obtain u where u: "take_step m s = Some u" "perform ms u = Some t"
    by (auto split: option.splits)
  from Cons.prems(3) [of m s] Cons.prems(2) u(1) have "P u" by simp
  with Cons.IH [OF u(2)] Cons.prems(3) show ?case by (meson list.set_intros(2))
qed simp

lemma session_ok_perform: "perform ms s = Some t \<Longrightarrow> session_ok s \<Longrightarrow> session_ok t"
  by (erule perform_inv) (auto intro: session_ok_step)

end
