(* ===== verification/Stop_Runs.thy ===== *)
theory Stop_Runs
  imports Stop_Threads
begin

text \<open>
  The runs of the threads of \<open>Stop_Threads\<close>: that a stop which was asked for is carried out, that
  runsolver ends after the solver has ended, and the runs in which it does not.
\<close>

section \<open>A stop that was asked for is carried out\<close>

text \<open>
  The thread that has won the exchange of the flag is on its way to release the stopping
  thread.
\<close>

fun winning :: "stop_pc \<Rightarrow> bool" where
  "winning (Swap _) = False"
| "winning _ = True"

fun main_winning :: "main_pc \<Rightarrow> bool" where
  "main_winning (M_stop pc) = winning pc"
| "main_winning _ = False"

fun timer_winning :: "timer_pc \<Rightarrow> bool" where
  "timer_winning (T_stop pc ls) = winning pc"
| "timer_winning _ = False"

fun stopper_winning :: "stopper_pc \<Rightarrow> bool" where
  "stopper_winning (S_stop pc ls) = winning pc"
| "stopper_winning _ = False"

fun signals_winning :: "signals_pc \<Rightarrow> bool" where
  "signals_winning (G_stop pc) = winning pc"
| "signals_winning _ = False"

definition stop_pending :: "session \<Rightarrow> bool" where
  "stop_pending s \<longleftrightarrow>
     main_winning (main_at s) \<or> timer_winning (timer_at s) \<or> stopper_winning (stopper_at s) \<or>
     signals_winning (signals_at s)"

definition stop_ok :: "session \<Rightarrow> bool" where
  "stop_ok s \<longleftrightarrow>
     reached 6 (main_at s) \<and>
     (stop_pending s \<longrightarrow> stopSolverInvokedByCallerFlag (flags s)) \<and>
     (stopSolverInvokedByCallerFlag (flags s) \<longrightarrow>
        stopSolverShouldExecuteFlag (flags s) \<or> stop_pending s) \<and>
     (reached 13 (main_at s) \<longrightarrow> stopSolverInvokedByCallerFlag (flags s)) \<and>
     (\<not> reached 10 (main_at s) \<longrightarrow> timer_at s = T_unborn) \<and>
     (\<not> reached 11 (main_at s) \<longrightarrow> stopper_at s = S_unborn)"

lemma stop_ok_ready: "stop_ok (session_ready pid stamps d msk)"
  by (simp add: stop_ok_def stop_pending_def session_ready_def session_start_def reached_def no_flags_def)

text \<open>What a step of stopSolver does to the caller's position and to the flags.\<close>

definition stop_move :: "stop_pc \<Rightarrow> session \<Rightarrow> stop_pc option \<Rightarrow> session \<Rightarrow> bool" where
  "stop_move pc s r s' \<longleftrightarrow>
     stop_frame s s' \<and>
     (winning pc \<and> stopSolverInvokedByCallerFlag (flags s) \<or> \<not> winning pc \<longrightarrow>
        stopSolverInvokedByCallerFlag (flags s')) \<and>
     (case r of
        None \<Rightarrow> stopSolverShouldExecuteFlag (flags s') \<or> \<not> winning pc \<and> flags s' = flags s
      | Some pc' \<Rightarrow> winning pc')"

lemma stopSolver_move: "stopSolver_step pc s = (r, s') \<Longrightarrow> stop_move pc s r s'"
  using stopSolver_step_frame [of pc s r s']
  by (cases pc) (auto simp: stop_move_def flag_defs with_flags_def put_def split: if_splits)

lemma stop_ok_call:
  assumes ok: "stop_ok s" and mv: "stop_move pc s r s'"
    and "stop_pending s \<longleftrightarrow> winning pc \<or> others" and "stop_pending t \<longleftrightarrow> r \<noteq> None \<or> others"
    and "flags t = flags s'" and "reached 6 (main_at t)"
    and "\<not> reached 10 (main_at t) \<longrightarrow> timer_at t = T_unborn"
    and "\<not> reached 11 (main_at t) \<longrightarrow> stopper_at t = S_unborn"
  shows "stop_ok t"
proof -
  have "stopSolverInvokedByCallerFlag (flags s')"
    using ok mv assms(3) by (auto simp: stop_ok_def stop_move_def)
  moreover have "stopSolverShouldExecuteFlag (flags s') \<or> r \<noteq> None \<or> others"
  proof (cases r)
    case None
    with mv have "stopSolverShouldExecuteFlag (flags s') \<or> \<not> winning pc \<and> flags s' = flags s"
      by (simp add: stop_move_def)
    with ok assms(3) calculation show ?thesis by (auto simp: stop_ok_def)
  qed simp
  ultimately show ?thesis using assms(4-) by (simp add: stop_ok_def)
qed

lemma stop_move_same:
  assumes "stop_move pc s r s'"
  shows "main_at s' = main_at s" "timer_at s' = timer_at s" "stopper_at s' = stopper_at s"
    "signals_at s' = signals_at s"
  using assms by (simp_all add: stop_move_def stop_frame_def)

lemma stop_move_winning: "stop_move pc s (Some pc') s' \<Longrightarrow> winning pc'"
  by (simp add: stop_move_def)

lemma stop_ok_unborn:
  assumes "stop_ok s"
  shows "reached 6 (main_at s)" "\<not> reached 10 (main_at s) \<longrightarrow> timer_at s = T_unborn"
    "\<not> reached 11 (main_at s) \<longrightarrow> stopper_at s = S_unborn"
  using assms by (simp_all add: stop_ok_def)

lemma stop_ok_main: "stop_ok s \<Longrightarrow> pred_option stop_ok (main_thread_step s)"
proof (cases "main_at s")
  case (M_stop pc)
  assume ok: "stop_ok s"
  obtain r s' where r: "stopSolver_step pc s = (r, s')" by (cases "stopSolver_step pc s")
  then have mv: "stop_move pc s r s'" by (rule stopSolver_move)
  let ?t = "case r of None \<Rightarrow> s'\<lparr>main_at := M_ask\<rparr> | Some pc' \<Rightarrow> s'\<lparr>main_at := M_stop pc'\<rparr>"
  let ?others = "timer_winning (timer_at s) \<or> stopper_winning (stopper_at s) \<or> signals_winning (signals_at s)"
  have "stop_ok ?t"
  proof (rule stop_ok_call [OF ok mv])
    show "stop_pending s \<longleftrightarrow> winning pc \<or> ?others" by (simp add: stop_pending_def M_stop)
    show "stop_pending ?t \<longleftrightarrow> r \<noteq> None \<or> ?others"
      using mv by (cases r) (simp_all add: stop_pending_def stop_move_same [OF mv] stop_move_winning)
  qed (simp_all add: reached_def split: option.split)
  moreover have "main_thread_step s = Some ?t" by (simp add: main_thread_step.simps M_stop r split: option.split)
  ultimately show ?thesis by simp
qed (auto simp: stop_ok_def stop_pending_def reached_def main_thread_step.simps with_flags_def put_def flag_defs
    fork_child_def split: stopper_pc.splits if_splits)

lemma stop_ok_timer: "stop_ok s \<Longrightarrow> pred_option stop_ok (timer_step x s)"
proof (cases "timer_at s")
  case (T_stop pc ls)
  assume ok: "stop_ok s"
  obtain r s' where r: "stopSolver_step pc s = (r, s')" by (cases "stopSolver_step pc s")
  then have mv: "stop_move pc s r s'" by (rule stopSolver_move)
  let ?t = "case r of None \<Rightarrow> s'\<lparr>timer_at := T_limits ls\<rparr> | Some pc' \<Rightarrow> s'\<lparr>timer_at := T_stop pc' ls\<rparr>"
  let ?others = "main_winning (main_at s) \<or> stopper_winning (stopper_at s) \<or> signals_winning (signals_at s)"
  have "stop_ok ?t"
  proof (rule stop_ok_call [OF ok mv])
    show "stop_pending s \<longleftrightarrow> winning pc \<or> ?others" by (auto simp: stop_pending_def T_stop)
    show "stop_pending ?t \<longleftrightarrow> r \<noteq> None \<or> ?others"
      using mv by (cases r) (simp_all add: stop_pending_def stop_move_same [OF mv] stop_move_winning)
  qed (use stop_ok_unborn [OF ok] in \<open>simp_all add: stop_move_same [OF mv] T_stop split: option.split\<close>)
  moreover have "timer_step x s = Some ?t" by (simp add: timer_step.simps T_stop r split: option.split)
  ultimately show ?thesis by simp
next
  case (T_limits ls)
  assume "stop_ok s"
  with T_limits show ?thesis
    by (cases ls) (auto simp: stop_ok_def stop_pending_def timer_step.simps put_def)
qed (simp_all add: stop_ok_def stop_pending_def timer_step.simps with_flags_def put_def flag_defs)

lemma stop_ok_stopper: "stop_ok s \<Longrightarrow> pred_option stop_ok (stopper_step x b s)"
proof (cases "stopper_at s")
  case (S_stop pc ls)
  assume ok: "stop_ok s"
  obtain r s' where r: "stopSolver_step pc s = (r, s')" by (cases "stopSolver_step pc s")
  then have mv: "stop_move pc s r s'" by (rule stopSolver_move)
  let ?t = "case r of None \<Rightarrow> s'\<lparr>stopper_at := S_limits ls\<rparr> | Some pc' \<Rightarrow> s'\<lparr>stopper_at := S_stop pc' ls\<rparr>"
  let ?others = "main_winning (main_at s) \<or> timer_winning (timer_at s) \<or> signals_winning (signals_at s)"
  have "stop_ok ?t"
  proof (rule stop_ok_call [OF ok mv])
    show "stop_pending s \<longleftrightarrow> winning pc \<or> ?others" by (auto simp: stop_pending_def S_stop)
    show "stop_pending ?t \<longleftrightarrow> r \<noteq> None \<or> ?others"
      using mv by (cases r) (simp_all add: stop_pending_def stop_move_same [OF mv] stop_move_winning)
  qed (use stop_ok_unborn [OF ok] in \<open>simp_all add: stop_move_same [OF mv] S_stop split: option.split\<close>)
  moreover have "stopper_step x b s = Some ?t" by (simp add: stopper_step.simps S_stop r split: option.split)
  ultimately show ?thesis by simp
next
  case (S_limits ls)
  assume "stop_ok s"
  with S_limits show ?thesis
    by (cases ls) (auto simp: stop_ok_def stop_pending_def stopper_step.simps put_def)
next
  case (S_over killed)
  then show ?thesis by (simp add: stopper_step.simps)
qed (simp_all add: stop_ok_def stop_pending_def stopper_step.simps with_flags_def put_def flag_defs
    sendSIGTERM_group_def sendSIGKILL_group_def)

lemma stop_ok_signals: "stop_ok s \<Longrightarrow> pred_option stop_ok (signals_step s)"
proof (cases "signals_at s")
  case (G_stop pc)
  assume ok: "stop_ok s"
  obtain r s' where r: "stopSolver_step pc s = (r, s')" by (cases "stopSolver_step pc s")
  then have mv: "stop_move pc s r s'" by (rule stopSolver_move)
  let ?t = "case r of None \<Rightarrow> s'\<lparr>signals_at := G_over\<rparr> | Some pc' \<Rightarrow> s'\<lparr>signals_at := G_stop pc'\<rparr>"
  let ?others = "main_winning (main_at s) \<or> timer_winning (timer_at s) \<or> stopper_winning (stopper_at s)"
  have "stop_ok ?t"
  proof (rule stop_ok_call [OF ok mv])
    show "stop_pending s \<longleftrightarrow> winning pc \<or> ?others" by (auto simp: stop_pending_def G_stop)
    show "stop_pending ?t \<longleftrightarrow> r \<noteq> None \<or> ?others"
      using mv by (cases r) (simp_all add: stop_pending_def stop_move_same [OF mv] stop_move_winning)
  qed (use stop_ok_unborn [OF ok] in \<open>simp_all add: stop_move_same [OF mv] G_stop split: option.split\<close>)
  moreover have "signals_step s = Some ?t" by (simp add: signals_step.simps G_stop r split: option.split)
  ultimately show ?thesis by simp
qed (simp_all add: stop_ok_def stop_pending_def signals_step.simps with_flags_def put_def flag_defs)

lemma stop_ok_step: "stop_ok s \<Longrightarrow> pred_option stop_ok (take_step m s)"
  by (cases m) (simp_all add: stop_ok_main stop_ok_timer stop_ok_stopper stop_ok_signals,
    auto simp: stop_ok_def stop_pending_def signal_received_def put_def)

lemma stop_ok_perform: "perform ms s = Some t \<Longrightarrow> stop_ok s \<Longrightarrow> stop_ok t"
  by (erule perform_inv) (auto intro: stop_ok_step)

section \<open>How many steps are left\<close>

fun stop_rank :: "stop_pc \<Rightarrow> nat" where
  "stop_rank (Swap _) = 4"
| "stop_rank (Ask _) = 3"
| "stop_rank (Announce _) = 2"
| "stop_rank Release = 1"

text \<open>
  The ranks count the steps of a thread once \<open>getSolverIsRunning\<close> is false: the loops of the timer
  thread and of the sleep then end.
\<close>

fun timer_rank :: "timer_pc \<Rightarrow> nat" where
  "timer_rank T_unborn = 0"
| "timer_rank T_over = 0"
| "timer_rank T_signal = 1"
| "timer_rank T_leave = 2"
| "timer_rank T_test = 3"
| "timer_rank T_abort = 3"
| "timer_rank T_show = 4"
| "timer_rank (T_limits ls) = 5 + 6 * length ls"
| "timer_rank (T_stop pc ls) = 5 + 6 * length ls + stop_rank pc"
| "timer_rank T_sample = 24"
| "timer_rank T_poll = 25"
| "timer_rank T_sleep = 26"

fun stopper_rank :: "stopper_pc \<Rightarrow> nat" where
  "stopper_rank S_unborn = 0"
| "stopper_rank (S_over _) = 0"
| "stopper_rank S_check = 1"
| "stopper_rank S_sleep = 2"
| "stopper_rank S_asleep = 3"
| "stopper_rank S_term = 4"
| "stopper_rank S_show = 5"
| "stopper_rank (S_limits ls) = 6 + 6 * length ls"
| "stopper_rank (S_stop pc ls) = 6 + 6 * length ls + stop_rank pc"
| "stopper_rank S_sample = 25"
| "stopper_rank S_wait_timer = 26"
| "stopper_rank S_wait_go = 27"
| "stopper_rank S_begin = 28"

fun signals_rank :: "signals_pc \<Rightarrow> nat" where
  "signals_rank G_unborn = 0"
| "signals_rank G_over = 0"
| "signals_rank (G_stop pc) = stop_rank pc"
| "signals_rank G_ask = 5"
| "signals_rank G_wait = 6"

definition steps_left :: "session \<Rightarrow> nat" where
  "steps_left s = (19 - stage (main_at s)) + timer_rank (timer_at s) + stopper_rank (stopper_at s) +
     signals_rank (signals_at s) + (if stamper_over s then 0 else 1)"

lemma stop_rank_pos [simp]: "0 < stop_rank pc" "stop_rank pc \<noteq> 0"
  by (cases pc; simp)+

lemma stopSolver_rank: "stopSolver_step pc s = (Some pc', s') \<Longrightarrow> stop_rank pc' < stop_rank pc"
  by (cases pc) (auto split: if_splits prod.splits)

lemma length_exceeded: "length (exceeded x) \<le> 3"
  by (simp add: exceeded_def)

lemma timer_ranks:
  assumes "timer_step x s = Some t" and "\<not> solverIsRunningFlag (flags s)"
  shows "timer_rank (timer_at t) < timer_rank (timer_at s) \<and> main_at t = main_at s \<and>
    stopper_at t = stopper_at s \<and> signals_at t = signals_at s \<and> stamper_over t = stamper_over s"
proof (cases "timer_at s")
  case (T_stop pc ls)
  obtain r s' where r: "stopSolver_step pc s = (r, s')" by (cases "stopSolver_step pc s")
  from stopSolver_step_frame [OF r] have f: "main_at s' = main_at s" "stopper_at s' = stopper_at s"
    "signals_at s' = signals_at s" "stamper_over s' = stamper_over s" by (simp_all add: stop_frame_def)
  show ?thesis
  proof (cases r)
    case None
    with assms T_stop r f show ?thesis by (auto simp: timer_step.simps)
  next
    case (Some pc')
    with stopSolver_rank r have "stop_rank pc' < stop_rank pc" by simp
    with Some assms T_stop r f show ?thesis by (auto simp: timer_step.simps)
  qed
next
  case (T_limits ls)
  with assms show ?thesis by (cases ls) (auto simp: timer_step.simps put_def)
next
  case T_sample
  with assms length_exceeded [of x] show ?thesis by (auto simp: timer_step.simps)
qed (use assms in \<open>auto simp: timer_step.simps put_def with_flags_def\<close>)

lemma stopper_ranks:
  assumes "stopper_step x b s = Some t" and "\<not> solverIsRunningFlag (flags s)"
  shows "stopper_rank (stopper_at t) < stopper_rank (stopper_at s) \<and> main_at t = main_at s \<and>
    timer_at t = timer_at s \<and> signals_at t = signals_at s \<and> stamper_over t = stamper_over s"
proof (cases "stopper_at s")
  case (S_stop pc ls)
  obtain r s' where r: "stopSolver_step pc s = (r, s')" by (cases "stopSolver_step pc s")
  from stopSolver_step_frame [OF r] have f: "main_at s' = main_at s" "timer_at s' = timer_at s"
    "signals_at s' = signals_at s" "stamper_over s' = stamper_over s" by (simp_all add: stop_frame_def)
  show ?thesis
  proof (cases r)
    case None
    with assms S_stop r f show ?thesis by (auto simp: stopper_step.simps)
  next
    case (Some pc')
    with stopSolver_rank r have "stop_rank pc' < stop_rank pc" by simp
    with Some assms S_stop r f show ?thesis by (auto simp: stopper_step.simps)
  qed
next
  case (S_limits ls)
  with assms show ?thesis by (cases ls) (auto simp: stopper_step.simps put_def)
next
  case S_sample
  with assms length_exceeded [of x] show ?thesis by (auto simp: stopper_step.simps)
qed (use assms in \<open>auto simp: stopper_step.simps put_def with_flags_def sendSIGTERM_group_def
    waitForStopSolverShouldExecuteFlag_def waitForTimerThreadStopped_def split: if_splits option.splits\<close>)

lemma signals_ranks:
  assumes "signals_step s = Some t"
  shows "signals_rank (signals_at t) < signals_rank (signals_at s) \<and> main_at t = main_at s \<and>
    timer_at t = timer_at s \<and> stopper_at t = stopper_at s \<and> stamper_over t = stamper_over s"
proof (cases "signals_at s")
  case (G_stop pc)
  obtain r s' where r: "stopSolver_step pc s = (r, s')" by (cases "stopSolver_step pc s")
  from stopSolver_step_frame [OF r] have f: "main_at s' = main_at s" "timer_at s' = timer_at s"
    "stopper_at s' = stopper_at s" "stamper_over s' = stamper_over s" by (simp_all add: stop_frame_def)
  show ?thesis
  proof (cases r)
    case None
    with assms G_stop r f show ?thesis by (auto simp: signals_step.simps)
  next
    case (Some pc')
    with stopSolver_rank r have "stop_rank pc' < stop_rank pc" by simp
    with Some assms G_stop r f show ?thesis by (auto simp: signals_step.simps)
  qed
qed (use assms in \<open>auto simp: signals_step.simps put_def with_flags_def\<close>)

lemma main_ranks:
  assumes "main_thread_step s = Some t" and "reached 15 (main_at s)"
  shows "stage (main_at t) = Suc (stage (main_at s)) \<and> stage (main_at t) \<le> 19 \<and> timer_at t = timer_at s \<and>
    stopper_at t = stopper_at s \<and> signals_at t = signals_at s \<and> stamper_over t = stamper_over s"
  using assms
  by (cases "main_at s") (auto simp: main_thread_step.simps put_def reached_def split: if_splits stopper_pc.splits)

text \<open>At most three limits are ahead of a sampling thread.\<close>

fun timer_short :: "timer_pc \<Rightarrow> bool" where
  "timer_short (T_limits ls) = (length ls \<le> 3)"
| "timer_short (T_stop pc ls) = (length ls \<le> 2)"
| "timer_short _ = True"

fun stopper_short :: "stopper_pc \<Rightarrow> bool" where
  "stopper_short (S_limits ls) = (length ls \<le> 3)"
| "stopper_short (S_stop pc ls) = (length ls \<le> 2)"
| "stopper_short _ = True"

lemma stopSolver_same:
  assumes "stopSolver_step pc s = (r, s')"
  shows "main_at s' = main_at s" "timer_at s' = timer_at s" "stopper_at s' = stopper_at s"
  using stopSolver_step_frame [OF assms] by (simp_all add: stop_frame_def)

lemma timer_short_step: "timer_step x s = Some t \<Longrightarrow> timer_short (timer_at s) \<Longrightarrow> timer_short (timer_at t)"
  using length_exceeded [of x]
  by (auto simp: timer_step.simps put_def with_flags_def
      split: timer_pc.splits list.splits prod.splits option.splits)

lemma stopper_short_step: "stopper_step x b s = Some t \<Longrightarrow> stopper_short (stopper_at s) \<Longrightarrow> stopper_short (stopper_at t)"
  using length_exceeded [of x]
  by (auto simp: stopper_step.simps put_def with_flags_def sendSIGTERM_group_def sendSIGKILL_group_def
      split: stopper_pc.splits list.splits prod.splits option.splits if_splits)

definition short :: "session \<Rightarrow> bool" where
  "short s \<longleftrightarrow> timer_short (timer_at s) \<and> stopper_short (stopper_at s)"

lemma short_main: "main_thread_step s = Some t \<Longrightarrow> short s \<Longrightarrow> short t"
  by (cases "main_at s")
    (auto simp: main_thread_step.simps short_def put_def with_flags_def installSignalHandler_def fork_child_def
      stopSolver_same split: if_splits stopper_pc.splits prod.splits option.splits)

lemma short_signals: "signals_step s = Some t \<Longrightarrow> short s \<Longrightarrow> short t"
  by (cases "signals_at s")
    (auto simp: signals_step.simps short_def put_def with_flags_def stopSolver_same
      split: prod.splits option.splits)

lemma timer_step_stopper: "timer_step x s = Some t \<Longrightarrow> stopper_at t = stopper_at s"
  by (auto simp: timer_step.simps put_def with_flags_def stopSolver_same
      split: timer_pc.splits list.splits prod.splits option.splits)

lemma stopper_step_timer: "stopper_step x b s = Some t \<Longrightarrow> timer_at t = timer_at s"
  by (auto simp: stopper_step.simps put_def with_flags_def sendSIGTERM_group_def sendSIGKILL_group_def
      stopSolver_same split: stopper_pc.splits list.splits prod.splits option.splits if_splits)

lemma short_step: "short s \<Longrightarrow> pred_option short (take_step m s)"
proof (cases m)
  case (Timer x)
  assume "short s"
  with Timer show ?thesis
    by (cases "timer_step x s") (auto simp: short_def timer_short_step timer_step_stopper)
next
  case (Stopper x b)
  assume "short s"
  with Stopper show ?thesis
    by (cases "stopper_step x b s") (auto simp: short_def stopper_short_step stopper_step_timer)
next
  case Main
  assume "short s"
  with Main show ?thesis by (cases "main_thread_step s") (auto intro: short_main)
next
  case Signals
  assume "short s"
  with Signals show ?thesis by (cases "signals_step s") (auto intro: short_signals)
qed (auto simp: short_def signal_received_def put_def)

lemma steps_left_bound:
  assumes "short s" and "main_at s = M_join_timer"
  shows "steps_left s \<le> 65"
proof -
  have r: "stop_rank pc \<le> 4" for pc by (cases pc) simp_all
  have "timer_rank (timer_at s) \<le> 26"
  proof (cases "timer_at s")
    case (T_stop pc ls)
    with assms(1) r [of pc] show ?thesis by (simp add: short_def)
  qed (use assms(1) in \<open>simp_all add: short_def\<close>)
  moreover have "stopper_rank (stopper_at s) \<le> 28"
  proof (cases "stopper_at s")
    case (S_stop pc ls)
    with assms(1) r [of pc] show ?thesis by (simp add: short_def)
  qed (use assms(1) in \<open>simp_all add: short_def\<close>)
  moreover have "signals_rank (signals_at s) \<le> 6"
  proof (cases "signals_at s")
    case (G_stop pc)
    with r [of pc] show ?thesis by simp
  qed simp_all
  ultimately show ?thesis using assms(2) by (simp add: steps_left_def)
qed

lemma steps_left_step:
  assumes "take_step m s = Some t" and "session_ok s" and "reached 15 (main_at s)" and "m \<noteq> Receive SIGALRM"
  shows "steps_left t < steps_left s \<and> reached 15 (main_at t)"
proof -
  have run: "\<not> solverIsRunningFlag (flags s)" and c: "child s = Reaped"
    using assms(2,3) by (auto simp: session_ok_def reached_def)
  show ?thesis
  proof (cases m)
    case Main
    with assms main_ranks [of s t] show ?thesis by (auto simp: steps_left_def reached_def)
  next
    case (Timer x)
    with assms(1,3) run timer_ranks [of x s t] show ?thesis by (auto simp: steps_left_def)
  next
    case (Stopper x b)
    with assms(1,3) run stopper_ranks [of x b s t] show ?thesis by (auto simp: steps_left_def)
  next
    case Signals
    with assms(1,3) signals_ranks [of s t] show ?thesis by (auto simp: steps_left_def)
  qed (use assms c in \<open>auto simp: steps_left_def signal_received_def put_def getSignalMask_def split: if_splits\<close>)
qed

section \<open>Runs that do not go well\<close>

definition stuck :: "session \<Rightarrow> bool" where
  "stuck s \<longleftrightarrow>
     main_thread_step s = None \<and> (\<forall>x. timer_step x s = None) \<and> (\<forall>x b. stopper_step x b s = None) \<and>
     signals_step s = None"

definition calm :: sample where
  "calm = \<lparr>root_ended = False, over_cpu = False, over_wall = False, over_vsize = False, display_due = False\<rparr>"

lemma timer_stuck: "timer_step x s = None \<Longrightarrow> timer_at s = T_unborn \<or> timer_at s = T_over"
  by (auto simp: timer_step.simps split: timer_pc.splits list.splits prod.splits option.splits)

lemma stopper_stuck:
  "stopper_step x b s = None \<Longrightarrow>
   stopper_at s = S_unborn \<or> (\<exists>k. stopper_at s = S_over k) \<or>
   stopper_at s = S_wait_go \<and> \<not> stopSolverShouldExecuteFlag (flags s) \<or>
   stopper_at s = S_wait_timer \<and> \<not> timerThreadStopped (flags s)"
  by (auto simp: stopper_step.simps waitForStopSolverShouldExecuteFlag_def waitForTimerThreadStopped_def
      split: stopper_pc.splits list.splits prod.splits option.splits if_splits)

lemma signals_stuck:
  "signals_step s = None \<Longrightarrow> signals_at s = G_unborn \<or> signals_at s = G_wait \<or> signals_at s = G_over"
  by (auto simp: signals_step.simps split: signals_pc.splits prod.splits option.splits)

lemma main_stuck:
  assumes "main_thread_step s = None" and "reached 15 (main_at s)"
  shows "main_at s = M_report \<or> main_at s = M_join_timer \<and> timer_at s \<noteq> T_over \<or>
    main_at s = M_join_stamper \<and> stamping s \<and> \<not> stamper_over s \<or>
    main_at s = M_join_stopper \<and> (\<forall>k. stopper_at s \<noteq> S_over k)"
  using assms by (cases "main_at s") (auto simp: main_thread_step.simps reached_def split: if_splits stopper_pc.splits)

text \<open>What a stuck state looks like, if no signal came before the fork.\<close>

lemma stuck_end:
  assumes "session_ok s" and "stop_ok s" and "stuck s" and "reached 15 (main_at s)"
  shows "main_at s = M_report \<or> main_at s = M_join_stamper \<and> stamping s \<and> \<not> stamper_over s"
proof -
  have timer: "timer_at s = T_over"
    using assms(1,3,4) timer_stuck [of calm s] by (auto simp: stuck_def session_ok_def reached_def)
  have "stopSolverShouldExecuteFlag (flags s)"
  proof (rule ccontr)
    assume no: "\<not> ?thesis"
    moreover have "stopSolverInvokedByCallerFlag (flags s)"
      using assms(2,4) by (auto simp: stop_ok_def reached_def)
    ultimately have "stop_pending s" using assms(2) by (simp add: stop_ok_def)
    moreover have "\<not> main_winning (main_at s)" using assms(4) by (cases "main_at s") (auto simp: reached_def)
    moreover have "\<not> signals_winning (signals_at s)"
      using signals_stuck [of s] assms(3) by (auto simp: stuck_def)
    moreover have "\<not> stopper_winning (stopper_at s)"
      using stopper_stuck [of calm False s] assms(3) by (auto simp: stuck_def)
    ultimately show False using timer by (simp add: stop_pending_def)
  qed
  moreover have "timerThreadStopped (flags s)" and "stopper_at s \<noteq> S_unborn"
    using assms(1,4) timer by (auto simp: session_ok_def reached_def)
  ultimately have "\<exists>k. stopper_at s = S_over k"
    using stopper_stuck [of calm False s] assms(3) by (auto simp: stuck_def)
  with main_stuck [of s] assms(3,4) timer show ?thesis by (auto simp: stuck_def)
qed

lemma ending:
  assumes "perform ns s = Some t" and "Receive SIGALRM \<notin> set ns"
    and "session_ok s" and "reached 15 (main_at s)"
  shows "length ns + steps_left t \<le> steps_left s \<and> reached 15 (main_at t)"
  using assms
proof (induction ns arbitrary: s)
  case (Cons m ns)
  from Cons.prems(1) obtain u where u: "take_step m s = Some u" "perform ns u = Some t"
    by (auto split: option.splits)
  have "steps_left u < steps_left s \<and> reached 15 (main_at u)"
    using steps_left_step [OF u(1) Cons.prems(3,4)] Cons.prems(2) by auto
  moreover have "session_ok u" using session_ok_step [OF Cons.prems(3), of m] u(1) by simp
  ultimately show ?case using Cons.IH [OF u(2)] Cons.prems(2) by auto
qed simp

text \<open>
  A run that is lost: the flag of the calls of stopSolver is set, but the stopping thread has not
  been released, and nobody is going to do so.
\<close>

definition lost :: "session \<Rightarrow> bool" where
  "lost s \<longleftrightarrow>
     stopSolverInvokedByCallerFlag (flags s) \<and> \<not> stopSolverShouldExecuteFlag (flags s) \<and>
     \<not> stop_pending s \<and> stopper_at s \<in> {S_unborn, S_begin, S_wait_go} \<and>
     reached 6 (main_at s) \<and> \<not> reached 18 (main_at s) \<and> sent (log s) = []"

lemma lost_call:
  assumes "stopSolverInvokedByCallerFlag (flags s)" and "\<not> winning pc"
  shows "stopSolver_step pc s = (None, s)"
  using assms by (cases pc) (simp_all add: compareAndSetStopSolverInvokedByCallerFlag_def)

lemma lost_main: "lost s \<Longrightarrow> pred_option lost (main_thread_step s)"
proof (cases "main_at s")
  case (M_stop pc)
  assume l: "lost s"
  then have "stopSolver_step pc s = (None, s)"
    by (intro lost_call) (simp_all add: lost_def stop_pending_def M_stop)
  with l M_stop show ?thesis by (simp add: main_thread_step.simps lost_def stop_pending_def reached_def)
next
  case M_join_stopper
  assume "lost s"
  with M_join_stopper show ?thesis by (auto simp: main_thread_step.simps lost_def)
qed (simp_all add: lost_def stop_pending_def reached_def main_thread_step.simps with_flags_def put_def flag_defs
    fork_child_def)

lemma lost_timer: "lost s \<Longrightarrow> pred_option lost (timer_step x s)"
proof (cases "timer_at s")
  case (T_stop pc ls)
  assume l: "lost s"
  then have "stopSolver_step pc s = (None, s)"
    by (intro lost_call) (simp_all add: lost_def stop_pending_def T_stop)
  with l T_stop show ?thesis by (simp add: timer_step.simps lost_def stop_pending_def)
next
  case (T_limits ls)
  assume "lost s"
  with T_limits show ?thesis
    by (cases ls) (auto simp: lost_def stop_pending_def timer_step.simps put_def)
qed (simp_all add: lost_def stop_pending_def timer_step.simps with_flags_def put_def flag_defs)

lemma lost_stopper: "lost s \<Longrightarrow> pred_option lost (stopper_step x b s)"
  by (auto simp: lost_def stop_pending_def stopper_step.simps put_def
      waitForStopSolverShouldExecuteFlag_def)

lemma lost_signals: "lost s \<Longrightarrow> pred_option lost (signals_step s)"
proof (cases "signals_at s")
  case (G_stop pc)
  assume l: "lost s"
  then have "stopSolver_step pc s = (None, s)"
    by (intro lost_call) (simp_all add: lost_def stop_pending_def G_stop)
  with l G_stop show ?thesis by (simp add: signals_step.simps lost_def stop_pending_def)
qed (simp_all add: lost_def stop_pending_def signals_step.simps with_flags_def put_def flag_defs)

lemma lost_step: "lost s \<Longrightarrow> pred_option lost (take_step m s)"
  by (cases m) (simp_all add: lost_main lost_timer lost_stopper lost_signals,
    auto simp: lost_def stop_pending_def signal_received_def put_def)

lemma lost_perform: "perform ms s = Some t \<Longrightarrow> lost s \<Longrightarrow> lost t"
  by (erule perform_inv) (auto intro: lost_step)

text \<open>A signal between the first and the third of the calls that reset the flags.\<close>

definition unlucky :: "move list" where
  "unlucky = [Main, Main, Receive SIGTERM, Signals, Signals, Signals, Signals, Signals, Main, Main, Main, Main]"

lemma unlucky_lost:
  "\<exists>s. perform unlucky (session_start pid stamps d msk) = Some s \<and> lost s \<and> main_at s = M_fork"
  by (simp add: unlucky_def session_start_def main_thread_step.simps signals_step.simps signal_received_def
      getSignalMask_def signal_defs installSignalHandler_def with_flags_def put_def flag_defs no_flags_def
      lost_def stop_pending_def reached_def)

text \<open>The solver has ended, but something it has started keeps the pipe open.\<close>

definition abandoned :: "move list" where
  "abandoned = replicate 5 Main @ [Solver_ends] @ replicate 7 Main @ replicate 3 (Timer calm) @ [Main] @
     replicate 9 (Stopper calm False)"

lemma abandoned_stuck:
  "\<exists>s. perform abandoned (session_ready pid True d msk) = Some s \<and> stuck s \<and>
     main_at s = M_join_stamper \<and> child s = Reaped \<and> sent (log s) = [Kill (- pid) SIGTERM]"
  by (simp add: abandoned_def numeral_eq_Suc session_ready_def session_start_def main_thread_step.simps
      timer_step.simps stopper_step.simps signals_step.simps with_flags_def put_def flag_defs no_flags_def
      fork_child_def calm_def exceeded_def sendSIGTERM_group_def stuck_def)

section \<open>Properties\<close>

lemma ready_ok: "session_ok (session_ready pid stamps d msk)"
  using session_ok_perform [OF ready_reached session_ok_start] .

text \<open>The halves of the run \<open>abandoned\<close>.\<close>

definition child_gone :: "move list" where
  "child_gone = replicate 5 Main @ [Solver_ends] @ replicate 7 Main"

definition winding_up :: "move list" where
  "winding_up = replicate 3 (Timer calm) @ [Main] @ replicate 9 (Stopper calm False)"

lemma abandoned_halves:
  "\<exists>s t. perform child_gone (session_ready pid True d msk) = Some s \<and> main_at s = M_join_timer \<and>
     perform winding_up s = Some t \<and> stuck t"
  by (simp add: child_gone_def winding_up_def numeral_eq_Suc session_ready_def session_start_def
      main_thread_step.simps timer_step.simps stopper_step.simps signals_step.simps with_flags_def put_def flag_defs
      no_flags_def fork_child_def calm_def exceeded_def sendSIGTERM_group_def stuck_def)







text \<open>
  SIGTERM is blocked in the solver when it starts. runsolver blocks the signals that it
  wants to take with sigwait before it forks, and does not restore the mask in the child, so
  the SIGTERM that should give the solver a chance to print its best solution is not delivered
  unless the solver unblocks it.
\<close>

theorem solver_blocks_sigterm:
  assumes "perform ms (session_start pid stamps d msk) = Some s" and "child s \<noteq> Unborn"
  shows "SIGTERM \<in> child_blocked s \<and> SIGINT \<in> child_blocked s \<and> SIGALRM \<in> child_blocked s"
proof -
  have "getSignalMask \<subseteq> child_blocked s"
    using session_ok_perform [OF assms(1) session_ok_start] assms(2) by (simp add: session_ok_def)
  then show ?thesis by (simp add: getSignalMask_def)
qed

theorem solver_blocks_sigterm_witness:
  "\<exists>s. perform (replicate 7 Main) (session_start 7 True 2 {}) = Some s \<and> SIGTERM \<in> child_blocked s"
proof -
  have "\<exists>s. perform (replicate 7 Main) (session_start 7 True 2 {}) = Some s \<and> child s \<noteq> Unborn"
    by (simp add: numeral_eq_Suc session_start_def main_thread_step.simps installSignalHandler_def with_flags_def
        flag_defs no_flags_def fork_child_def)
  then obtain s where s: "perform (replicate 7 Main) (session_start 7 True 2 {}) = Some s" "child s \<noteq> Unborn"
    by blast
  from solver_blocks_sigterm [OF s] s(1) show ?thesis by blast
qed

text \<open>
  Property C38: a SIGTERM to runsolver that arrives between the calls of \<open>run\<close> that reset the flags can
  make it useless: in every continuation of the run no signal is sent to the solver any more,
  whatever limits it exceeds, and runsolver does not end even after the solver has ended.
\<close>

theorem early_sigterm_disables:
  "\<exists>ms s. perform ms (session_start pid stamps d msk) = Some s \<and> Receive SIGTERM \<in> set ms \<and>
     main_at s = M_fork \<and>
     (\<forall>ns t. perform ns s = Some t \<longrightarrow> sent (log t) = [] \<and> main_at t \<noteq> M_report)"
proof -
  obtain s where s: "perform unlucky (session_start pid stamps d msk) = Some s" "lost s" "main_at s = M_fork"
    using unlucky_lost by blast
  moreover have "sent (log t) = [] \<and> main_at t \<noteq> M_report" if "perform ns s = Some t" for ns t
    using lost_perform [OF that s(2)] by (auto simp: lost_def reached_def)
  moreover have "Receive SIGTERM \<in> set unlucky" by (simp add: unlucky_def)
  ultimately show ?thesis by blast
qed

theorem early_sigterm_disables_witness:
  "\<exists>ms s. perform ms (session_start 7 False 2 {}) = Some s \<and>
     (\<forall>ns t. perform ns s = Some t \<longrightarrow> sent (log t) = [])"
  using early_sigterm_disables [of 7 False 2 "{}"] by blast


end
