(* ===== verification/Traced_System.thy ===== *)
theory Traced_System
  imports Streams
begin

text \<open>
  SyscallsTracer.hh of runsolver-3.3.4-patched, the part that all its actions share: the registers
  of a stopped process, the system calls, and the reading of a string from its memory. The code
  is for i386: int, long and size_t have 32 bits.
\<close>

section \<open>A stopped process\<close>

text \<open>
  The system call number is in orig_eax, its parameters in ebx, ecx, edx, esi and edi (parm1 to
  parm5), its result in eax.
\<close>

record regs =
  ebx :: i32
  ecx :: i32
  edx :: i32
  esi :: i32
  edi :: i32
  eax :: i32
  orig_eax :: i32
  eip :: i32

text \<open>
  What the system answers while a process is stopped: the word at an address of its memory
  (None: PTRACE_PEEKDATA fails, which gives -1), the stat files in /proc, and the room on the
  stack of the tracer.
\<close>

record tracer_os =
  peek :: "int \<Rightarrow> u32 \<Rightarrow> i32 option"
  stat_of :: "int \<Rightarrow> string option"
  stack_room :: nat

definition peekdata :: "tracer_os \<Rightarrow> int \<Rightarrow> u32 \<Rightarrow> i32" where
  "peekdata os pid p = (case peek os pid p of None \<Rightarrow> - 1 | Some w \<Rightarrow> w)"

section \<open>Effects\<close>

text \<open>
  A text on cout, the registers written back to a process, a call of a handler of the heap
  watcher, and a process that goes on to its next system call, with a signal or 0.
\<close>

datatype quota_call = Call_obj | Call_fn

datatype trace_event = Say string | Set_regs int regs | Quota quota_call | Continue int int

section \<open>System calls\<close>

text \<open>Numbers and flags of the i386 kernel interface that the source names.\<close>

definition SYS_exit :: int where "SYS_exit = 1"
definition SYS_open :: int where "SYS_open = 5"
definition SYS_execve :: int where "SYS_execve = 11"
definition SYS_brk :: int where "SYS_brk = 45"
definition SYS_mmap :: int where "SYS_mmap = 90"
definition SYS_munmap :: int where "SYS_munmap = 91"
definition SYS_socketcall :: int where "SYS_socketcall = 102"
definition SYS_clone :: int where "SYS_clone = 120"
definition SYS_mremap :: int where "SYS_mremap = 163"
definition SYS_mmap2 :: int where "SYS_mmap2 = 192"
definition SYS_exit_group :: int where "SYS_exit_group = 252"

definition CLONE_VM :: i32 where "CLONE_VM = 0x100"
definition CLONE_PTRACE :: i32 where "CLONE_PTRACE = 0x2000"

lemmas SYS_defs = SYS_exit_def SYS_open_def SYS_execve_def SYS_brk_def SYS_mmap_def SYS_munmap_def
  SYS_socketcall_def SYS_clone_def SYS_mremap_def SYS_mmap2_def SYS_exit_group_def

section \<open>Strings in the memory of a process\<close>

text \<open>The bytes of a word in memory, the low one first.\<close>

definition word_chars :: "i32 \<Rightarrow> string" where
  "word_chars w = map (\<lambda>i. char_of (unat (take_bit 8 (drop_bit (8 * i) w)))) [0, 1, 2, 3]"

text \<open>
  importString: word by word, up to a zero byte, and at most until the string has \<open>maxlen\<close>
  characters, if that is not 0. A word that cannot be read counts as four bytes 255, so
  the loop goes on.
\<close>

definition c_string :: "string \<Rightarrow> string" where
  "c_string s = takeWhile (\<lambda>c. c \<noteq> CHR 0x00) s"

partial_function (option) import_loop :: "(u32 \<Rightarrow> i32) \<Rightarrow> nat \<Rightarrow> u32 \<Rightarrow> string \<Rightarrow> string option" where
  "import_loop rd maxlen p s =
     (let t = c_string (word_chars (rd p)); s = s @ t in
      if length t = 4 \<and> (maxlen = 0 \<or> length s < maxlen) then import_loop rd maxlen (p + 4) s
      else Some s)"

definition importString :: "tracer_os \<Rightarrow> int \<Rightarrow> u32 \<Rightarrow> nat \<Rightarrow> string option" where
  "importString os pid addr maxlen = import_loop (peekdata os pid) maxlen addr []"

text \<open>A string lies at an address: its characters in the bytes of the words there, and a zero.\<close>

definition string_at :: "(u32 \<Rightarrow> i32) \<Rightarrow> u32 \<Rightarrow> string \<Rightarrow> bool" where
  "string_at rd p str \<longleftrightarrow>
     CHR 0x00 \<notin> set str \<and>
     (\<forall>i \<le> length str div 4. \<forall>j < 4.
        4 * i + j \<le> length str \<longrightarrow>
        word_chars (rd (p + of_nat (4 * i))) ! j = (str @ [CHR 0x00]) ! (4 * i + j))"

lemma length_word_chars [simp]: "length (word_chars w) = 4"
  by (simp add: word_chars_def)

lemma c_string_full: "CHR 0x00 \<notin> set s \<Longrightarrow> c_string s = s"
  by (auto simp: c_string_def takeWhile_eq_all_conv)

lemma c_string_stop: "CHR 0x00 \<notin> set s \<Longrightarrow> c_string (s @ CHR 0x00 # r) = s"
  by (induction s) (auto simp: c_string_def)

lemma string_at_byte:
  "string_at rd p str \<Longrightarrow> i \<le> length str div 4 \<Longrightarrow> j < 4 \<Longrightarrow> 4 * i + j \<le> length str \<Longrightarrow>
   word_chars (rd (p + of_nat (4 * i))) ! j = (str @ [CHR 0x00]) ! (4 * i + j)"
  unfolding string_at_def by blast

text \<open>The first word of a string, and the rest of it.\<close>

lemma string_at_first:
  assumes "string_at rd p str"
  shows "c_string (word_chars (rd p)) = take 4 str"
proof -
  let ?w = "word_chars (rd p)"
  have at: "?w ! j = (str @ [CHR 0x00]) ! j" if "j < 4" "j \<le> length str" for j
    using string_at_byte [OF assms, of 0 j] that by simp
  show ?thesis
  proof (cases "4 \<le> length str")
    case True
    have "?w = take 4 str" using True at by (intro nth_equalityI) (auto simp: nth_append)
    moreover have "CHR 0x00 \<notin> set (take 4 str)" using assms by (auto simp: string_at_def dest: in_set_takeD)
    ultimately show ?thesis by (simp add: c_string_full)
  next
    case False
    then have "take (length str) ?w = str" using at by (intro nth_equalityI) (auto simp: nth_append)
    moreover have "?w ! length str = CHR 0x00" using False at [of "length str"] by simp
    ultimately have "?w = str @ CHR 0x00 # drop (Suc (length str)) ?w"
      using False id_take_nth_drop [of "length str" ?w] by simp
    moreover have "c_string (str @ CHR 0x00 # drop (Suc (length str)) ?w) = str"
      using assms by (intro c_string_stop) (simp add: string_at_def)
    ultimately show ?thesis using False by simp
  qed
qed

lemma string_at_next:
  assumes "string_at rd p str" and "4 \<le> length str"
  shows "string_at rd (p + 4) (drop 4 str)"
proof -
  have "word_chars (rd (p + 4 + of_nat (4 * i))) ! j = (drop 4 str @ [CHR 0x00]) ! (4 * i + j)"
    if "i \<le> length (drop 4 str) div 4" "j < 4" "4 * i + j \<le> length (drop 4 str)" for i j
  proof -
    have le: "Suc i \<le> length str div 4" "4 * Suc i + j \<le> length str" using that assms(2) by auto
    have "drop 4 str @ [CHR 0x00] = drop 4 (str @ [CHR 0x00])" using assms(2) by simp
    then have "(drop 4 str @ [CHR 0x00]) ! (4 * i + j) = (str @ [CHR 0x00]) ! (4 * Suc i + j)"
      using assms(2) by (simp only: nth_drop length_append) (simp add: add.assoc)
    moreover have "p + of_nat (4 * Suc i) = p + 4 + of_nat (4 * i)" by simp
    moreover have "word_chars (rd (p + of_nat (4 * Suc i))) ! j = (str @ [CHR 0x00]) ! (4 * Suc i + j)"
      by (rule string_at_byte [OF assms(1) le(1) that(2) le(2)])
    ultimately show ?thesis by (simp add: add.assoc)
  qed
  moreover have "CHR 0x00 \<notin> set (drop 4 str)" using assms(1) by (auto simp: string_at_def dest: in_set_dropD)
  ultimately show ?thesis by (simp add: string_at_def)
qed

lemma import_loop_string:
  assumes "string_at rd p str"
  shows "import_loop rd 0 p acc = Some (acc @ str)"
  using assms
proof (induction "length str" arbitrary: p str acc rule: less_induct)
  case less
  note first = string_at_first [OF less.prems]
  show ?case
  proof (cases "4 \<le> length str")
    case True
    have "import_loop rd 0 (p + 4) (acc @ take 4 str) = Some ((acc @ take 4 str) @ drop 4 str)"
      using True by (intro less.hyps string_at_next [OF less.prems]) simp_all
    with True first show ?thesis by (subst import_loop.simps) simp
  next
    case False
    with first show ?thesis by (subst import_loop.simps) simp
  qed
qed

text \<open>With a bound, the string is cut after the word in which it reaches the bound.\<close>

lemma import_loop_bounded:
  assumes "string_at rd p str" and "length acc < m" and "4 dvd length acc" and "4 dvd m"
  shows "import_loop rd m p acc = Some (acc @ take (m - length acc) str)"
  using assms
proof (induction "length str" arbitrary: p str acc rule: less_induct)
  case less
  note first = string_at_first [OF less.prems(1)]
  have room: "length acc + 4 \<le> m" using less.prems(2-4) by (auto elim!: dvdE)
  show ?case
  proof (cases "4 \<le> length str \<and> length acc + 4 < m")
    case True
    then have "0 < length str" by linarith
    then have "length (drop 4 str) < length str" by simp
    with True have "import_loop rd m (p + 4) (acc @ take 4 str) =
        Some ((acc @ take 4 str) @ take (m - length (acc @ take 4 str)) (drop 4 str))"
      using less.prems by (intro less.hyps string_at_next [OF less.prems(1)]) (simp_all add: dvd_add)
    moreover have "take 4 str @ take (m - length (acc @ take 4 str)) (drop 4 str) = take (m - length acc) str"
    proof -
      have "m - length acc = 4 + (m - length (acc @ take 4 str))" using True by simp
      then show ?thesis by (simp only: take_add)
    qed
    ultimately show ?thesis using True first by (subst import_loop.simps) simp
  next
    case False
    then have "take (m - length acc) str = take 4 str" using room by (auto simp: not_le not_less)
    with False first room show ?thesis by (subst import_loop.simps) (auto simp: Let_def)
  qed
qed


lemma importString_string:
  "string_at (peekdata os pid) addr str \<Longrightarrow> importString os pid addr 0 = Some str"
  by (simp add: importString_def import_loop_string)

lemma short_string_at:
  assumes "CHR 0x00 \<notin> set str" and "length str < 4" and "take (Suc (length str)) (word_chars (rd p)) = str @ [CHR 0x00]"
  shows "string_at rd p str"
proof -
  have "word_chars (rd p) ! j = (str @ [CHR 0x00]) ! j" if "j \<le> length str" for j
    using that by (metis assms(3) le_imp_less_Suc nth_take)
  moreover have "length str div 4 = 0" using assms(2) by simp
  ultimately show ?thesis using assms(1) by (simp add: string_at_def)
qed

text \<open>Words that cannot be read count as characters, then the string goes on.\<close>

lemma unreadable_word: "word_chars (- 1) = replicate 4 (CHR 0xFF)"
  by code_simp

lemma import_loop_unreadable:
  assumes "\<forall>i < n. rd (p + 4 * of_nat i) = - 1" and "string_at rd (p + 4 * of_nat n) str"
  shows "import_loop rd 0 p acc = Some (acc @ replicate (4 * n) (CHR 0xFF) @ str)"
  using assms
proof (induction n arbitrary: p acc)
  case 0
  then show ?case by (simp add: import_loop_string)
next
  case (Suc n)
  have "rd p = - 1" using spec [OF Suc.prems(1), of 0] by simp
  then have "c_string (word_chars (rd p)) = replicate 4 (CHR 0xFF)"
    by (simp add: c_string_full unreadable_word)
  moreover have "import_loop rd 0 (p + 4) (acc @ replicate 4 (CHR 0xFF)) =
      Some ((acc @ replicate 4 (CHR 0xFF)) @ replicate (4 * n) (CHR 0xFF) @ str)"
  proof (rule Suc.IH)
    have "rd (p + 4 * of_nat (Suc i)) = - 1" if "i < n" for i using Suc.prems(1) that by blast
    then show "\<forall>i < n. rd (p + 4 + 4 * of_nat i) = - 1" by (simp add: algebra_simps)
    show "string_at rd (p + 4 + 4 * of_nat n) str" using Suc.prems(2) by (simp add: algebra_simps)
  qed
  moreover have "replicate (4 * Suc n) (CHR 0xFF) = replicate 4 (CHR 0xFF) @ replicate (4 * n) (CHR 0xFF)"
    by (simp add: replicate_add [symmetric])
  ultimately show ?case by (subst import_loop.simps) simp
qed

end
