(* ===== verification/Heap_Watcher.thy ===== *)
theory Heap_Watcher
  imports Traced_System Std_Map
begin

text \<open>
  HeapSizeWatcher of SyscallsTracer.hh (runsolver-3.3.4-patched): it estimates the memory of the
  traced processes from their system calls, and reads their real size only when the estimate
  passes the limit. int, long and size_t have 32 bits, long long has 64; sums wrap as on i386.
\<close>

unbundle bit_operations_syntax

section \<open>State\<close>

text \<open>\<open>owner\<close> is the field process: the process a thread belongs to, 0 for a plain process.\<close>

record proc_info =
  owner :: int
  pi_vsize :: i32
  baseBrk :: i32
  lastBrk :: i32
  memIncr :: i32

definition ProcInfo :: proc_info where
  "ProcInfo = \<lparr>owner = 0, pi_vsize = 0, baseBrk = 0, lastBrk = 0, memIncr = 0\<rparr>"

record heap_watcher =
  hw_data :: "(int, proc_info) std_map"
  globalMemIncr :: u64
  cumulatedSize :: i32
  maximumCumulatedSize :: i32
  overQuotaHandlerFn :: bool
  overQuotaHandlerObj :: bool

definition hw_init :: "bool \<Rightarrow> bool \<Rightarrow> heap_watcher" where
  "hw_init fn obj = \<lparr>hw_data = [], globalMemIncr = 0, cumulatedSize = 0, maximumCumulatedSize = 0,
     overQuotaHandlerFn = fn, overQuotaHandlerObj = obj\<rparr>"

definition setMaximumCumulatedSize :: "i32 \<Rightarrow> heap_watcher \<Rightarrow> heap_watcher" where
  "setMaximumCumulatedSize m w = w\<lparr>maximumCumulatedSize := m\<rparr>"

definition setOverQuotaHandlerFn :: "bool \<Rightarrow> heap_watcher \<Rightarrow> heap_watcher" where
  "setOverQuotaHandlerFn f w = w\<lparr>overQuotaHandlerFn := f\<rparr>"

definition setOverQuotaHandlerObj :: "bool \<Rightarrow> heap_watcher \<Rightarrow> heap_watcher" where
  "setOverQuotaHandlerObj f w = w\<lparr>overQuotaHandlerObj := f\<rparr>"

text \<open>data[pid]: a missing entry is created with the constructor of ProcInfo.\<close>

definition proc_of :: "int \<Rightarrow> heap_watcher \<Rightarrow> proc_info" where
  "proc_of pid w = (case map_find (hw_data w) pid of None \<Rightarrow> ProcInfo | Some i \<Rightarrow> i)"

definition set_proc :: "int \<Rightarrow> proc_info \<Rightarrow> heap_watcher \<Rightarrow> heap_watcher" where
  "set_proc pid i w = w\<lparr>hw_data := map_put pid i (hw_data w)\<rparr>"

section \<open>The size of a process\<close>

text \<open>
  readProcessVSIZE: the 23rd field of the stat file, an unsigned long, is stored in an int,
  which is then shifted to the right, with its sign. No file gives 0.
\<close>

definition vsize_format :: "conversion list" where
  "vsize_format = [Skip_int, Skip_word, Skip_char] @ replicate 19 Skip_int @ [Get_int]"

definition ulong32_of :: "int \<Rightarrow> u32" where
  "ulong32_of i = (if \<bar>i\<bar> < 2 ^ 32 then of_int i else - 1)"

definition readProcessVSIZE :: "tracer_os \<Rightarrow> int \<Rightarrow> i32" where
  "readProcessVSIZE os pid =
     (case stat_of os pid of None \<Rightarrow> 0
      | Some s \<Rightarrow> (case scan vsize_format s of
            [Int_value v] \<Rightarrow> of_int (sint (ulong32_of v) div 1024)
          | _ \<Rightarrow> 0))"

definition updateProcessVsize :: "tracer_os \<Rightarrow> int \<Rightarrow> heap_watcher \<Rightarrow> heap_watcher" where
  "updateProcessVsize os pid w =
     (let info = proc_of pid w; v = readProcessVSIZE os pid in
      set_proc pid (info\<lparr>pi_vsize := v, memIncr := 0, baseBrk := lastBrk info\<rparr>)
        (w\<lparr>cumulatedSize := cumulatedSize w - pi_vsize info + v,
           globalMemIncr := globalMemIncr w - scast (memIncr info)\<rparr>))"

section \<open>The quota\<close>

text \<open>The sum of an int and the shifted long long is a long long; getCumulatedSize cuts it to int.\<close>

definition estimate :: "heap_watcher \<Rightarrow> int" where
  "estimate w = sint (cumulatedSize w) + sint (globalMemIncr w) div 1024"

definition getCumulatedSize :: "heap_watcher \<Rightarrow> i32" where
  "getCumulatedSize w = of_int (estimate w)"

definition refresh :: "tracer_os \<Rightarrow> heap_watcher \<Rightarrow> heap_watcher" where
  "refresh os w = fold (\<lambda>pid w.
      if memIncr (proc_of pid w) \<noteq> 0 \<and> owner (proc_of pid w) = 0 then updateProcessVsize os pid w else w)
    (map_keys (hw_data w)) w"

definition checkOverQuota :: "tracer_os \<Rightarrow> heap_watcher \<Rightarrow> quota_call list \<times> heap_watcher" where
  "checkOverQuota os w =
     (if maximumCumulatedSize w = 0 \<or> estimate w \<le> sint (maximumCumulatedSize w) then ([], w)
      else let w = refresh os w in
        (if sint (maximumCumulatedSize w) < sint (cumulatedSize w)
         then (if overQuotaHandlerObj w then [Call_obj] else []) @ (if overQuotaHandlerFn w then [Call_fn] else [])
         else [], w))"

section \<open>The system calls\<close>

text \<open>
  \<open>grow\<close> adds to the increment of a process and to the one of all processes, which has more
  bits: the caller says with which value.
\<close>

definition grow :: "int \<Rightarrow> i32 \<Rightarrow> u64 \<Rightarrow> heap_watcher \<Rightarrow> heap_watcher" where
  "grow pid d g w =
     set_proc pid ((proc_of pid w)\<lparr>memIncr := memIncr (proc_of pid w) + d\<rparr>)
       (w\<lparr>globalMemIncr := globalMemIncr w + g\<rparr>)"

definition heap_brk :: "tracer_os \<Rightarrow> int \<Rightarrow> regs \<Rightarrow> heap_watcher \<Rightarrow> quota_call list \<times> heap_watcher" where
  "heap_brk os processid regs w =
     (let w = set_proc processid ((proc_of processid w)\<lparr>lastBrk := eax regs\<rparr>) w;
          info = proc_of processid w; d = lastBrk info - baseBrk info in
      checkOverQuota os
        (if baseBrk info = 0 then updateProcessVsize os processid w else grow processid d (scast d) w))"

definition heap_clone :: "int \<Rightarrow> regs \<Rightarrow> heap_watcher \<Rightarrow> heap_watcher" where
  "heap_clone pid regs w =
     (if ebx regs AND CLONE_VM \<noteq> 0 then
        let newpid = sint (eax regs); o' = owner (proc_of pid w) in
        set_proc newpid ((proc_of newpid w)\<lparr>owner := if o' \<noteq> 0 then o' else pid\<rparr>) w
      else w)"

definition heap_exit :: "int \<Rightarrow> int \<Rightarrow> heap_watcher \<Rightarrow> heap_watcher" where
  "heap_exit pid processid w =
     (let info = proc_of processid w;
          w = (if pid = processid then
                 w\<lparr>cumulatedSize := cumulatedSize w - pi_vsize info,
                   globalMemIncr := globalMemIncr w - scast (memIncr info)\<rparr> else w)
      in w\<lparr>hw_data := map_erase pid (hw_data w)\<rparr>)"

text \<open>old_mmap gets the address of its six arguments: the length is the second one.\<close>

definition heap_mmap :: "tracer_os \<Rightarrow> int \<Rightarrow> int \<Rightarrow> regs \<Rightarrow> heap_watcher \<Rightarrow> quota_call list \<times> heap_watcher" where
  "heap_mmap os pid processid regs w =
     (let len = peekdata os pid (ebx regs + 4) in checkOverQuota os (grow processid len (scast len) w))"

definition heap_mmap2 :: "tracer_os \<Rightarrow> int \<Rightarrow> regs \<Rightarrow> heap_watcher \<Rightarrow> quota_call list \<times> heap_watcher" where
  "heap_mmap2 os processid regs w = checkOverQuota os (grow processid (ecx regs) (ucast (ecx regs)) w)"

definition heap_mremap :: "tracer_os \<Rightarrow> int \<Rightarrow> regs \<Rightarrow> heap_watcher \<Rightarrow> quota_call list \<times> heap_watcher" where
  "heap_mremap os processid regs w =
     (let oldlen = ecx regs; newlen = edx regs; w = grow processid (newlen - oldlen) (ucast (newlen - oldlen)) w
      in if oldlen < newlen then checkOverQuota os w else ([], w))"

definition heap_munmap :: "int \<Rightarrow> regs \<Rightarrow> heap_watcher \<Rightarrow> heap_watcher" where
  "heap_munmap processid regs w =
     (if eax regs = 0 then grow processid (ecx regs) (ucast (ecx regs)) w else w)"

definition heap_action :: "tracer_os \<Rightarrow> int \<Rightarrow> bool \<Rightarrow> int \<Rightarrow> regs \<Rightarrow> heap_watcher \<Rightarrow> quota_call list \<times> heap_watcher" where
  "heap_action os syscall entering pid regs w =
     (let w = set_proc pid (proc_of pid w) w;
          processid = (if owner (proc_of pid w) \<noteq> 0 then owner (proc_of pid w) else pid);
          w = set_proc processid (proc_of processid w) w
      in if entering then ([], w)
         else if syscall = SYS_brk then heap_brk os processid regs w
         else if syscall = SYS_clone then ([], heap_clone pid regs w)
         else if syscall = SYS_exit \<or> syscall = SYS_exit_group then ([], heap_exit pid processid w)
         else if syscall = SYS_mmap then heap_mmap os pid processid regs w
         else if syscall = SYS_mmap2 then heap_mmap2 os processid regs w
         else if syscall = SYS_mremap then heap_mremap os processid regs w
         else if syscall = SYS_munmap then ([], heap_munmap processid regs w)
         else ([], w))"

definition heap_listOfSyscalls :: "int list" where
  "heap_listOfSyscalls = [SYS_brk, SYS_mmap, SYS_mmap2, SYS_munmap, SYS_mremap, SYS_clone, SYS_exit, SYS_exit_group, - 1]"

section \<open>Lookups\<close>

lemma data_set_proc [simp]: "hw_data (set_proc pid i w) = map_put pid i (hw_data w)"
  by (simp add: set_proc_def)

lemma set_proc_frame [simp]:
  "globalMemIncr (set_proc pid i w) = globalMemIncr w" "cumulatedSize (set_proc pid i w) = cumulatedSize w"
  "maximumCumulatedSize (set_proc pid i w) = maximumCumulatedSize w"
  by (simp_all add: set_proc_def)

lemma proc_of_cong: "hw_data w = hw_data w' \<Longrightarrow> proc_of k w = proc_of k w'"
  by (simp add: proc_of_def)

lemma proc_of_set:
  "wf_map (hw_data w) \<Longrightarrow> proc_of k (set_proc pid i w) = (if k = pid then i else proc_of k w)"
  by (simp add: proc_of_def sm.lookup_insert)

section \<open>Sums over the entries\<close>

definition entry_sum :: "('v \<Rightarrow> 'a::ab_group_add) \<Rightarrow> ('k, 'v) std_map \<Rightarrow> 'a" where
  "entry_sum f m = sum_list (map (\<lambda>(k, v). f v) m)"

definition value_at :: "('v \<Rightarrow> 'a::ab_group_add) \<Rightarrow> 'k \<Rightarrow> ('k, 'v) std_map \<Rightarrow> 'a" where
  "value_at f k m = (case map_find m k of None \<Rightarrow> 0 | Some v \<Rightarrow> f v)"

lemma find_below: "\<forall>x \<in> set (map_keys m). (k :: 'k::linorder) < x \<Longrightarrow> map_find m k = None"
  by (induction m) (auto simp: map_find_def)

lemma entry_sum_put: "wf_map m \<Longrightarrow> entry_sum f (map_put k v m) = entry_sum f m - value_at f k m + f v"
proof (induction m)
  case (Cons a m)
  obtain k' v' where a: "a = (k', v')" by (cases a)
  from Cons.prems have m: "wf_map m" "\<forall>x \<in> set (map_keys m). k' < x"
    by (auto simp: wf_map_def a)
  have "k < k' \<Longrightarrow> map_find m k = None" using m(2) by (intro find_below) (auto intro: less_trans)
  with Cons.IH [OF m(1)] show ?case by (auto simp: a entry_sum_def value_at_def map_find_def)
qed (simp add: entry_sum_def value_at_def)

lemma entry_sum_erase: "wf_map m \<Longrightarrow> entry_sum f (map_erase k m) = entry_sum f m - value_at f k m"
proof (induction m)
  case (Cons a m)
  obtain k' v' where a: "a = (k', v')" by (cases a)
  from Cons.prems have m: "wf_map m" "\<forall>x \<in> set (map_keys m). k' < x"
    by (auto simp: wf_map_def a)
  have "map_find m k' = None" using m(2) by (intro find_below) auto
  then have "k' = k \<Longrightarrow> map_erase k m = m \<and> value_at f k m = 0"
    using m(2) by (auto simp: map_erase_def value_at_def map_keys_def intro!: filter_True)
  with Cons.IH [OF m(1)] show ?case
    by (auto simp: a entry_sum_def value_at_def map_find_def map_erase_def)
qed (simp add: entry_sum_def value_at_def map_erase_def)


lemma sum_set_proc:
  assumes "wf_map (hw_data w)" and "f ProcInfo = 0"
  shows "entry_sum f (map_put k i (hw_data w)) = entry_sum f (hw_data w) - f (proc_of k w) + f i"
  using assms by (simp add: entry_sum_put value_at_def proc_of_def split: option.split)

lemma sum_erase_proc:
  assumes "wf_map (hw_data w)" and "f ProcInfo = 0"
  shows "entry_sum f (map_erase k (hw_data w)) = entry_sum f (hw_data w) - f (proc_of k w)"
  using assms by (simp add: entry_sum_erase value_at_def proc_of_def split: option.split)

section \<open>Words of two widths\<close>

lemma take_bit_wrap: "n \<le> m \<Longrightarrow> take_bit n (take_bit m x + take_bit m y) = take_bit n (x + y :: int)"
  by (metis min.absorb1 take_bit_add take_bit_take_bit)

lemma ucast_plus: "(ucast (x + y :: u64) :: u32) = ucast x + ucast y"
  by transfer (simp add: take_bit_wrap)

lemma ucast_minus: "(ucast (x - y :: u64) :: u32) = ucast x - ucast y"
  by (metis ucast_plus add_diff_cancel diff_add_cancel)

lemma ucast_scast: "(ucast (scast (b :: u32) :: u64) :: u32) = b"
  by transfer (simp add: take_bit_signed_take_bit)

lemma ucast_ucast: "(ucast (ucast (b :: u32) :: u64) :: u32) = b"
  by transfer (simp add: take_bit_take_bit)

lemmas widths = ucast_plus ucast_minus ucast_scast ucast_ucast

section \<open>The accounts\<close>

text \<open>
  Both totals are the sums over the entries, the one of the increments modulo 2 ^ 32; a thread
  has no size of its own, and it points to a plain process.
\<close>

definition heap_ok :: "heap_watcher \<Rightarrow> bool" where
  "heap_ok w \<longleftrightarrow> wf_map (hw_data w) \<and>
     cumulatedSize w = entry_sum pi_vsize (hw_data w) \<and>
     ucast (globalMemIncr w) = entry_sum memIncr (hw_data w) \<and>
     (\<forall>k. owner (proc_of k w) \<noteq> 0 \<longrightarrow>
        pi_vsize (proc_of k w) = 0 \<and> memIncr (proc_of k w) = 0 \<and> owner (proc_of (owner (proc_of k w)) w) = 0)"

lemma ProcInfo_simps [simp]: "owner ProcInfo = 0" "pi_vsize ProcInfo = 0" "memIncr ProcInfo = 0"
  by (simp_all add: ProcInfo_def)

lemma heap_ok_init: "heap_ok (hw_init fn obj)"
  by (simp add: heap_ok_def hw_init_def entry_sum_def proc_of_def)

lemma heap_ok_wf: "heap_ok w \<Longrightarrow> wf_map (hw_data w)"
  by (simp add: heap_ok_def)

lemma heap_ok_thread:
  "heap_ok w \<Longrightarrow> owner (proc_of k w) \<noteq> 0 \<Longrightarrow>
   pi_vsize (proc_of k w) = 0 \<and> memIncr (proc_of k w) = 0 \<and> owner (proc_of (owner (proc_of k w)) w) = 0"
  by (simp add: heap_ok_def)

text \<open>The steps: a new value for the entry of a process, a new thread, and the end of an entry.\<close>

lemma proc_of_put:
  "hw_data w' = map_put k i (hw_data w) \<Longrightarrow> wf_map (hw_data w) \<Longrightarrow>
   proc_of j w' = (if j = k then i else proc_of j w)"
  by (simp add: proc_of_def sm.lookup_insert)

lemma heap_ok_put:
  assumes "heap_ok w" and w': "hw_data w' = map_put k i (hw_data w)"
    and "owner i = 0" and "owner (proc_of k w) = 0"
    and "cumulatedSize w' = cumulatedSize w - pi_vsize (proc_of k w) + pi_vsize i"
    and "ucast (globalMemIncr w') = ucast (globalMemIncr w) - memIncr (proc_of k w) + memIncr i"
  shows "heap_ok w'"
proof -
  have wf: "wf_map (hw_data w)" using assms(1) by (rule heap_ok_wf)
  have "cumulatedSize w' = entry_sum pi_vsize (hw_data w')"
    "ucast (globalMemIncr w') = entry_sum memIncr (hw_data w')"
    using assms wf by (simp_all add: sum_set_proc heap_ok_def)
  moreover have "wf_map (hw_data w')" using wf w' by (simp add: wf_put)
  ultimately show ?thesis using assms(3,4) heap_ok_thread [OF assms(1)]
    by (auto simp: heap_ok_def proc_of_put [OF w' wf])
qed

lemma touch [simp]: "wf_map (hw_data w) \<Longrightarrow> proc_of j (set_proc k (proc_of k w) w) = proc_of j w"
  by (simp add: proc_of_set)

lemma heap_ok_touch: "heap_ok w \<Longrightarrow> heap_ok (set_proc k (proc_of k w) w)"
  by (simp add: heap_ok_def sum_set_proc wf_put)

lemma heap_ok_update: "heap_ok w \<Longrightarrow> owner (proc_of k w) = 0 \<Longrightarrow> heap_ok (updateProcessVsize os k w)"
  by (rule heap_ok_put [where k = k and i = "(proc_of k w)\<lparr>pi_vsize := readProcessVSIZE os k, memIncr := 0,
      baseBrk := lastBrk (proc_of k w)\<rparr>"])
    (simp_all add: updateProcessVsize_def Let_def widths)

lemma heap_ok_grow:
  "heap_ok w \<Longrightarrow> owner (proc_of k w) = 0 \<Longrightarrow> ucast g = d \<Longrightarrow> heap_ok (grow k d g w)"
  by (rule heap_ok_put [where k = k and i = "(proc_of k w)\<lparr>memIncr := memIncr (proc_of k w) + d\<rparr>"])
    (simp_all add: grow_def ucast_plus, simp_all)

lemma heap_ok_erase:
  assumes "heap_ok w" and "hw_data w' = map_erase k (hw_data w)"
    and "cumulatedSize w' = cumulatedSize w - pi_vsize (proc_of k w)"
    and "ucast (globalMemIncr w') = ucast (globalMemIncr w) - memIncr (proc_of k w)"
  shows "heap_ok w'"
proof -
  have wf: "wf_map (hw_data w)" using assms(1) by (rule heap_ok_wf)
  have at: "proc_of j w' = (if j = k then ProcInfo else proc_of j w)" for j
    by (simp add: proc_of_def assms(2) find_erase)
  have "cumulatedSize w' = entry_sum pi_vsize (hw_data w')"
    "ucast (globalMemIncr w') = entry_sum memIncr (hw_data w')"
    using assms wf by (simp_all add: sum_erase_proc heap_ok_def)
  moreover have "wf_map (hw_data w')" using wf assms(2) by (simp add: wf_erase)
  ultimately show ?thesis using heap_ok_thread [OF assms(1)] by (auto simp: heap_ok_def at)
qed

text \<open>
  A new thread: its number was not in use, as it has no size and owns no thread (the number of
  a failed clone, which is negative, meets this too).
\<close>

definition fresh_thread :: "int \<Rightarrow> heap_watcher \<Rightarrow> bool" where
  "fresh_thread newpid w \<longleftrightarrow> newpid \<noteq> 0 \<and> pi_vsize (proc_of newpid w) = 0 \<and> memIncr (proc_of newpid w) = 0 \<and>
     (\<forall>k. owner (proc_of k w) \<noteq> newpid)"

lemma heap_ok_clone:
  assumes "heap_ok w" and "ebx regs AND CLONE_VM \<noteq> 0 \<longrightarrow> fresh_thread (sint (eax regs)) w \<and> pid \<noteq> sint (eax regs)"
  shows "heap_ok (heap_clone pid regs w)"
proof (cases "ebx regs AND CLONE_VM \<noteq> 0")
  case True
  let ?new = "sint (eax regs)" and ?w = "heap_clone pid regs w"
  define o' where "o' = (if owner (proc_of pid w) \<noteq> 0 then owner (proc_of pid w) else pid)"
  have wf: "wf_map (hw_data w)" using assms(1) by (rule heap_ok_wf)
  have put: "hw_data ?w = map_put ?new ((proc_of ?new w)\<lparr>owner := o'\<rparr>) (hw_data w)"
    using True by (simp add: heap_clone_def o'_def Let_def)
  have fresh: "fresh_thread ?new w" "pid \<noteq> ?new" using assms(2) True by simp_all
  have "owner (proc_of o' w) = 0" using heap_ok_thread [OF assms(1), of pid] by (auto simp: o'_def)
  moreover have "o' \<noteq> ?new" using fresh by (auto simp: o'_def fresh_thread_def)
  moreover have "cumulatedSize ?w = entry_sum pi_vsize (hw_data ?w)"
    "ucast (globalMemIncr ?w) = entry_sum memIncr (hw_data ?w)" "wf_map (hw_data ?w)"
    using assms(1) wf fresh(1)
    by (simp_all only: put sum_set_proc [OF wf] ProcInfo_simps wf_put)
      (simp_all add: heap_clone_def Let_def heap_ok_def fresh_thread_def)
  ultimately show ?thesis using heap_ok_thread [OF assms(1)] fresh
    by (auto simp: heap_ok_def proc_of_put [OF put wf] fresh_thread_def)
next
  case False
  then show ?thesis using assms(1) by (simp add: heap_clone_def)
qed


lemma heap_ok_exit:
  assumes "heap_ok w" and "processid = (if owner (proc_of pid w) \<noteq> 0 then owner (proc_of pid w) else pid)"
  shows "heap_ok (heap_exit pid processid w)"
  using heap_ok_thread [OF assms(1), of pid] assms(2)
  by (intro heap_ok_erase [OF assms(1), of _ pid]) (auto simp: heap_exit_def Let_def widths)

section \<open>The check of the quota\<close>

lemma wf_update [simp]: "wf_map (hw_data w) \<Longrightarrow> wf_map (hw_data (updateProcessVsize os k w))"
  by (simp add: updateProcessVsize_def Let_def wf_put)

lemma proc_of_update:
  "wf_map (hw_data w) \<Longrightarrow> proc_of j (updateProcessVsize os k w) =
    (if j = k then (proc_of k w)\<lparr>pi_vsize := readProcessVSIZE os k, memIncr := 0, baseBrk := lastBrk (proc_of k w)\<rparr>
     else proc_of j w)"
  by (simp add: updateProcessVsize_def Let_def proc_of_put [of _ k _ w])

definition refresh_step :: "tracer_os \<Rightarrow> int \<Rightarrow> heap_watcher \<Rightarrow> heap_watcher" where
  "refresh_step os pid w =
     (if memIncr (proc_of pid w) \<noteq> 0 \<and> owner (proc_of pid w) = 0 then updateProcessVsize os pid w else w)"

lemma refresh_fold: "refresh os w = fold (refresh_step os) (map_keys (hw_data w)) w"
  unfolding refresh_def refresh_step_def ..

lemma heap_ok_refresh: "heap_ok w \<Longrightarrow> heap_ok (refresh os w)"
  unfolding refresh_fold
  by (rule fold_invariant [where Q = "\<lambda>_. True"]) (simp_all add: refresh_step_def heap_ok_update)

text \<open>The fields that neither a refresh nor a check of the quota touches.\<close>

lemma refresh_limit [simp]:
  "maximumCumulatedSize (refresh os w) = maximumCumulatedSize w"
  "overQuotaHandlerFn (refresh os w) = overQuotaHandlerFn w"
  "overQuotaHandlerObj (refresh os w) = overQuotaHandlerObj w"
proof -
  have "maximumCumulatedSize (fold (refresh_step os) ks w) = maximumCumulatedSize w \<and>
    overQuotaHandlerFn (fold (refresh_step os) ks w) = overQuotaHandlerFn w \<and>
    overQuotaHandlerObj (fold (refresh_step os) ks w) = overQuotaHandlerObj w" for ks
    by (induction ks arbitrary: w) (simp_all add: refresh_step_def updateProcessVsize_def Let_def set_proc_def)
  then show "maximumCumulatedSize (refresh os w) = maximumCumulatedSize w"
    "overQuotaHandlerFn (refresh os w) = overQuotaHandlerFn w"
    "overQuotaHandlerObj (refresh os w) = overQuotaHandlerObj w" by (simp_all add: refresh_fold)
qed

lemma refreshed:
  assumes "wf_map (hw_data w)"
  shows "owner (proc_of k (fold (refresh_step os) ks w)) = owner (proc_of k w)"
    and "owner (proc_of k w) = 0 \<Longrightarrow> k \<in> set ks \<or> memIncr (proc_of k w) = 0 \<Longrightarrow>
      memIncr (proc_of k (fold (refresh_step os) ks w)) = 0"
  using assms by (induction ks arbitrary: w) (auto simp: refresh_step_def proc_of_update)

lemma nothing_pending: "wf_map (hw_data w) \<Longrightarrow> owner (proc_of k w) = 0 \<Longrightarrow> memIncr (proc_of k (refresh os w)) = 0"
  unfolding refresh_fold
proof (rule refreshed(2))
  have "k \<notin> set (map_keys (hw_data w)) \<Longrightarrow> memIncr (proc_of k w) = 0"
    by (simp add: proc_of_def dom_find [symmetric] domIff)
  then show "k \<in> set (map_keys (hw_data w)) \<or> memIncr (proc_of k w) = 0" by blast
qed

lemma heap_ok_check: "heap_ok w \<Longrightarrow> heap_ok (snd (checkOverQuota os w))"
  by (simp add: checkOverQuota_def Let_def heap_ok_refresh)

section \<open>What the watcher does\<close>

lemma fresh_cong: "(\<And>k. proc_of k w = proc_of k w') \<Longrightarrow> fresh_thread newpid w = fresh_thread newpid w'"
  by (simp add: fresh_thread_def)

lemma heap_ok_calls:
  assumes "heap_ok w" and "owner (proc_of p w) = 0"
  shows "heap_ok (snd (heap_brk os p regs w))" "heap_ok (snd (heap_mmap os pid p regs w))"
    "heap_ok (snd (heap_mmap2 os p regs w))" "heap_ok (snd (heap_mremap os p regs w))"
    "heap_ok (heap_munmap p regs w)"
proof -
  let ?w = "set_proc p ((proc_of p w)\<lparr>lastBrk := eax regs\<rparr>) w"
  have "heap_ok ?w" using assms
    by (intro heap_ok_put [where k = p and i = "(proc_of p w)\<lparr>lastBrk := eax regs\<rparr>", OF assms(1)]) simp_all
  moreover have "owner (proc_of p ?w) = 0" using assms heap_ok_wf [OF assms(1)] by (simp add: proc_of_set)
  ultimately show "heap_ok (snd (heap_brk os p regs w))"
    by (simp add: heap_brk_def Let_def heap_ok_check heap_ok_update heap_ok_grow widths)
qed (simp_all add: assms heap_mmap_def heap_mmap2_def heap_mremap_def heap_munmap_def Let_def
      heap_ok_check heap_ok_grow widths)



definition sample_regs :: "int \<Rightarrow> int \<Rightarrow> int \<Rightarrow> int \<Rightarrow> regs" where
  "sample_regs b c d a = \<lparr>ebx = of_int b, ecx = of_int c, edx = of_int d, esi = 0, edi = 0, eax = of_int a,
     orig_eax = 0, eip = 0\<rparr>"

definition quiet_os :: tracer_os where
  "quiet_os = \<lparr>peek = (\<lambda>_ _. None), stat_of = (\<lambda>_. None), stack_room = 0\<rparr>"


text \<open>
  The handlers are called when the cumulated size, brought up to date, is over a
  limit that is set; then every process has been read again since it last grew.
\<close>

theorem quota_decision:
  assumes "heap_ok w"
  shows "case checkOverQuota os w of (calls, w') \<Rightarrow>
    (calls \<noteq> [] \<longleftrightarrow> (overQuotaHandlerObj w \<or> overQuotaHandlerFn w) \<and> maximumCumulatedSize w \<noteq> 0 \<and>
       sint (maximumCumulatedSize w) < estimate w \<and>
       sint (maximumCumulatedSize w) < sint (entry_sum pi_vsize (hw_data (refresh os w)))) \<and>
    (calls \<noteq> [] \<longrightarrow> w' = refresh os w \<and> (\<forall>k. memIncr (proc_of k w') = 0))"
proof -
  have ok: "heap_ok (refresh os w)" using assms by (rule heap_ok_refresh)
  have "memIncr (proc_of k (refresh os w)) = 0" for k
  proof (cases "owner (proc_of k w) = 0")
    case True
    then show ?thesis using heap_ok_wf [OF assms] by (rule nothing_pending [rotated])
  next
    case False
    then have "owner (proc_of k (refresh os w)) \<noteq> 0"
      using refreshed(1) [OF heap_ok_wf [OF assms]] by (simp add: refresh_fold)
    then show ?thesis using heap_ok_thread [OF ok] by blast
  qed
  moreover have "cumulatedSize (refresh os w) = entry_sum pi_vsize (hw_data (refresh os w))"
    using ok by (simp add: heap_ok_def)
  ultimately show ?thesis by (auto simp: checkOverQuota_def Let_def not_le)
qed

section \<open>The system calls of a plain process\<close>

lemma wf_set [simp]: "wf_map (hw_data w) \<Longrightarrow> wf_map (hw_data (set_proc k i w))"
  by (simp add: wf_put)

text \<open>\<open>touched\<close> is the state after the two accesses data[pid] at the start of action.\<close>

definition touched :: "int \<Rightarrow> heap_watcher \<Rightarrow> heap_watcher" where
  "touched p w = (let w = set_proc p (proc_of p w) w in set_proc p (proc_of p w) w)"

lemma touched_frame [simp]:
  "wf_map (hw_data w) \<Longrightarrow> proc_of k (touched p w) = proc_of k w"
  "wf_map (hw_data w) \<Longrightarrow> wf_map (hw_data (touched p w))"
  "globalMemIncr (touched p w) = globalMemIncr w" "cumulatedSize (touched p w) = cumulatedSize w"
  "maximumCumulatedSize (touched p w) = maximumCumulatedSize w"
  by (simp_all add: touched_def Let_def proc_of_set wf_put)

lemma grow_frame [simp]:
  "wf_map (hw_data w) \<Longrightarrow>
   proc_of k (grow p d g w) = (if k = p then (proc_of p w)\<lparr>memIncr := memIncr (proc_of p w) + d\<rparr> else proc_of k w)"
  "wf_map (hw_data w) \<Longrightarrow> wf_map (hw_data (grow p d g w))"
  "globalMemIncr (grow p d g w) = globalMemIncr w + g" "cumulatedSize (grow p d g w) = cumulatedSize w"
  "maximumCumulatedSize (grow p d g w) = maximumCumulatedSize w"
  by (auto simp: grow_def proc_of_put [of _ p _ w] wf_put)

lemma action_plain:
  assumes "wf_map (hw_data w)" and "owner (proc_of p w) = 0"
  shows "heap_action os SYS_mremap False p regs w = heap_mremap os p regs (touched p w)"
    and "heap_action os SYS_brk False p regs w = heap_brk os p regs (touched p w)"
    and "heap_action os SYS_munmap False p regs w = ([], heap_munmap p regs (touched p w))"
    and "heap_action os SYS_mmap2 False p regs w = heap_mmap2 os p regs (touched p w)"
  using assms by (simp_all add: heap_action_def Let_def touched_def proc_of_set SYS_defs)

lemma shrunk_difference:
  assumes "n < (m :: u32)" and "- (2 ^ 31) \<le> sint i - (uint m - uint n)"
  shows "(ucast (n - m) :: u64) - scast (i + (n - m)) = 2 ^ 32 - scast (i :: i32)"
proof -
  have d: "0 < uint m - uint n" using assms(1) by (simp add: word_less_def)
  have "uint (n - m) = 2 ^ 32 - (uint m - uint n)" using assms(1) by (simp add: uint_sub_if' word_less_def)
  then have u: "(ucast (n - m) :: u64) = of_int (2 ^ 32 - (uint m - uint n))" by (simp only: ucast_eq)
  have "i + (n - m) = of_int (sint i - (uint m - uint n))" by simp
  moreover have "sint i < 2 ^ 31" using sint_lt [of i] by simp
  ultimately have "sint (i + (n - m)) = sint i - (uint m - uint n)"
    using assms(2) d by (simp only: sint_of_int_i32)
  then have "(scast (i + (n - m)) :: u64) = of_int (sint i - (uint m - uint n))" by (simp only: scast_eq)
  then have "(ucast (n - m) :: u64) - scast (i + (n - m)) =
      of_int ((2 ^ 32 - (uint m - uint n)) - (sint i - (uint m - uint n)))"
    unfolding u by (simp only: of_int_diff)
  also have "\<dots> = of_int (2 ^ 32 - sint i)" by (rule arg_cong [where f = of_int]) linarith
  also have "\<dots> = 2 ^ 32 - scast i" by (simp only: of_int_diff of_int_power of_int_numeral scast_eq)
  finally show ?thesis .
qed

text \<open>
  A mremap that shrinks an area by d bytes adds 2 ^ 32 - d to the sum of all
  increments and takes d from the increment of the process: once the process has been read again
  the total of all processes still shows 4 GiB too much, for ever.
\<close>


theorem shrinking_leaks:
  assumes "heap_ok w" and "owner (proc_of p w) = 0" and "edx regs < ecx regs"
    and "- (2 ^ 31) \<le> sint (memIncr (proc_of p w)) - (uint (ecx regs) - uint (edx regs))"
    and "sint (globalMemIncr (updateProcessVsize os p w)) < 2 ^ 62"
  shows "estimate (updateProcessVsize os p (snd (heap_action os SYS_mremap False p regs w))) =
    estimate (updateProcessVsize os p w) + 4 * 1024 * 1024"
proof -
  let ?i = "memIncr (proc_of p w)" and ?d = "edx regs - ecx regs"
  have wf: "wf_map (hw_data w)" using assms(1) by (rule heap_ok_wf)
  let ?after = "updateProcessVsize os p (snd (heap_action os SYS_mremap False p regs w))"
    and ?now = "updateProcessVsize os p w"
  have "snd (heap_action os SYS_mremap False p regs w) = grow p ?d (ucast ?d) (touched p w)"
    using assms(3) wf assms(2) by (simp add: action_plain heap_mremap_def Let_def)
  then have "globalMemIncr ?after = globalMemIncr w + (ucast ?d - scast (?i + ?d))"
    and cum: "cumulatedSize ?after = cumulatedSize ?now"
    using wf by (simp_all add: updateProcessVsize_def Let_def)
  then have "globalMemIncr ?after = globalMemIncr ?now + 2 ^ 32"
    using shrunk_difference [OF assms(3,4)] by (simp add: updateProcessVsize_def Let_def)
  then have "globalMemIncr ?after = of_int (sint (globalMemIncr ?now) + 2 ^ 32)" by simp
  moreover have "sint (of_int (sint (globalMemIncr ?now) + 2 ^ 32) :: u64) = sint (globalMemIncr ?now) + 2 ^ 32"
    using assms(5) sint_ge [of "globalMemIncr ?now"] by (intro sint_of_int_u64) simp_all
  ultimately have "sint (globalMemIncr ?after) = sint (globalMemIncr ?now) + 2 ^ 32" by simp
  then show ?thesis by (simp add: estimate_def cum)
qed

lemma shrinking_leaks_witness:
  "estimate (updateProcessVsize quiet_os 5
     (snd (heap_action quiet_os SYS_mremap False 5 (sample_regs 0 8192 4096 0) (hw_init True False)))) =
   estimate (updateProcessVsize quiet_os 5 (hw_init True False)) + 4 * 1024 * 1024"
proof (rule shrinking_leaks)
  show "heap_ok (hw_init True False)" by (rule heap_ok_init)
qed (simp_all add: sample_regs_def hw_init_def proc_of_def updateProcessVsize_def Let_def set_proc_def)


text \<open>A brk of a process whose base is known, with no limit set.\<close>

definition brk_known :: "int \<Rightarrow> i32 \<Rightarrow> heap_watcher \<Rightarrow> bool" where
  "brk_known p b w \<longleftrightarrow> wf_map (hw_data w) \<and> owner (proc_of p w) = 0 \<and> maximumCumulatedSize w = 0 \<and>
     baseBrk (proc_of p w) = b \<and> b \<noteq> 0"

lemma brk_step:
  assumes "brk_known p b w"
  shows "brk_known p b (snd (heap_action os SYS_brk False p (r\<lparr>eax := a\<rparr>) w))"
    and "memIncr (proc_of p (snd (heap_action os SYS_brk False p (r\<lparr>eax := a\<rparr>) w))) = memIncr (proc_of p w) + (a - b)"
  using assms
  by (simp_all add: brk_known_def action_plain heap_brk_def Let_def checkOverQuota_def proc_of_set wf_put)

text \<open>
  Each brk adds the whole distance from the base to the increment of the process, not
  the distance from the last brk: n calls that grow the heap step by step count it up to n times.
\<close>

theorem brk_from_base:
  assumes "wf_map (hw_data w)" and "owner (proc_of p w) = 0" and "maximumCumulatedSize w = 0"
    and "baseBrk (proc_of p w) \<noteq> 0"
  shows "memIncr (proc_of p (fold (\<lambda>a w. snd (heap_action os SYS_brk False p (r\<lparr>eax := a\<rparr>) w)) as w)) =
    memIncr (proc_of p w) + (\<Sum>a\<leftarrow>as. a - baseBrk (proc_of p w))"
proof -
  define b where "b = baseBrk (proc_of p w)"
  have "brk_known p b w" using assms by (simp add: brk_known_def b_def)
  then have "memIncr (proc_of p (fold (\<lambda>a w. snd (heap_action os SYS_brk False p (r\<lparr>eax := a\<rparr>) w)) as w)) =
      memIncr (proc_of p w) + (\<Sum>a\<leftarrow>as. a - b)"
    by (induction as arbitrary: w) (simp_all add: brk_step add.assoc)
  then show ?thesis by (simp add: b_def)
qed

definition known_base :: heap_watcher where
  "known_base = set_proc 5 (ProcInfo\<lparr>baseBrk := 4096, lastBrk := 4096\<rparr>) (hw_init True False)"

lemma brk_from_base_witness:
  "memIncr (proc_of 5 (fold (\<lambda>a w. snd (heap_action quiet_os SYS_brk False 5 ((sample_regs 0 0 0 0)\<lparr>eax := a\<rparr>) w))
     [5096, 6096, 7096] known_base)) = 6000"
  by (subst brk_from_base)
    (simp_all add: known_base_def set_proc_def hw_init_def proc_of_def map_find_def ProcInfo_def wf_map_def)

text \<open>
  A successful munmap adds the length of the area too: an area that is mapped and
  unmapped again counts twice in both totals, until the process is read again.
\<close>

theorem unmapping_counts:
  assumes "wf_map (hw_data w)" and "owner (proc_of p w) = 0" and "maximumCumulatedSize w = 0"
    and "ecx u = ecx m" and "eax u = 0"
  shows "case snd (heap_action os SYS_munmap False p u (snd (heap_action os SYS_mmap2 False p m w))) of w' \<Rightarrow>
    memIncr (proc_of p w') = memIncr (proc_of p w) + 2 * ecx m \<and>
    globalMemIncr w' = globalMemIncr w + 2 * ucast (ecx m)"
  using assms by (simp add: action_plain heap_mmap2_def heap_munmap_def checkOverQuota_def)

lemma unmapping_counts_witness:
  "case snd (heap_action quiet_os SYS_munmap False 5 (sample_regs 0 4096 0 0)
      (snd (heap_action quiet_os SYS_mmap2 False 5 (sample_regs 0 4096 0 0x10000) (hw_init True False)))) of w' \<Rightarrow>
    memIncr (proc_of 5 w') = memIncr (proc_of 5 (hw_init True False)) + 2 * ecx (sample_regs 0 4096 0 0x10000) \<and>
    globalMemIncr w' = globalMemIncr (hw_init True False) + 2 * ucast (ecx (sample_regs 0 4096 0 0x10000))"
  by (rule unmapping_counts) (simp_all add: hw_init_def proc_of_def sample_regs_def)

section \<open>Large processes\<close>

lemma scan_vsize_text:
  assumes "plain_name comm" and "\<not> isspace state" and "no_digit_first tail" and "length nums = 20"
  shows "scan vsize_format (stat_text pid comm state nums tail) = [Int_value (nums ! 19)]"
proof -
  let ?n = "concat (map (\<lambda>i. '' '' @ dec_int i) nums) @ tail"
  let ?w = "''('' @ comm @ '')''" and ?cs = "replicate 19 Skip_int @ [Get_int]"
  have "scan_int (dec_int pid @ '' '' @ ?w @ '' '' @ [state] @ ?n) =
      Some (pid, '' '' @ ?w @ '' '' @ [state] @ ?n)"
    by (rule scan_int_dec_int) (simp add: no_digit_first_def isdigit_def)
  then have "scan vsize_format (stat_text pid comm state nums tail) =
      scan (Skip_word # Skip_char # ?cs) (CHR '' '' # ?w @ CHR '' '' # state # ?n)"
    by (simp add: vsize_format_def stat_text_def)
  also have "\<dots> = scan (Skip_char # ?cs) (CHR '' '' # state # ?n)"
    using assms(1) by (intro scan_word_then) (auto simp: plain_name_def isspace_def)
  also have "\<dots> = scan ?cs ?n" using assms(2) by simp
  also have "\<dots> = concat (map2 picked ?cs nums)"
    using assms(3,4) by (intro scan_numbers) auto
  also have "nums = take 19 nums @ [nums ! 19]" using assms(4) take_Suc_conv_app_nth [of 19 nums] by simp
  then have "concat (map2 picked ?cs nums) = concat (map2 picked ?cs (take 19 nums @ [nums ! 19]))" by simp
  also have "\<dots> = concat (map2 picked (replicate 19 Skip_int) (take 19 nums)) @ [Int_value (nums ! 19)]"
    using assms(4) by simp
  also have "concat (map2 picked (replicate 19 Skip_int) (take 19 nums)) = []"
    by (auto simp: zip_replicate1)
  finally show ?thesis by simp
qed

text \<open>
  The size of a process with 2 GiB or more of virtual memory is read as a negative
  number of kilobytes, 4 GiB below the truth, and so it lowers the sum.
\<close>

theorem big_process_negative:
  assumes "stat_of os pid = Some (stat_text pid comm state nums tail)"
    and "plain_name comm" and "\<not> isspace state" and "no_digit_first tail" and "length nums = 20"
    and "2 ^ 31 \<le> nums ! 19" and "nums ! 19 < 2 ^ 32"
  shows "sint (readProcessVSIZE os pid) = nums ! 19 div 1024 - 4 * 1024 * 1024 \<and> sint (readProcessVSIZE os pid) < 0"
proof -
  let ?v = "nums ! 19"
  have "sint (of_int (?v - 2 ^ 32) :: u32) = ?v - 2 ^ 32" using assms(6,7) by (intro sint_of_int_i32) simp_all
  moreover have "(of_int ?v :: u32) = of_int (?v - 2 ^ 32)" by simp
  ultimately have "sint (of_int ?v :: u32) = ?v - 2 ^ 32" by (simp only:)
  moreover have "\<bar>?v\<bar> < 2 ^ 32" using assms(6,7) by simp
  ultimately have "readProcessVSIZE os pid = of_int ((?v - 2 ^ 32) div 1024)"
    by (simp add: readProcessVSIZE_def assms(1) scan_vsize_text [OF assms(2-5)] ulong32_of_def)
  moreover have div: "(?v - 2 ^ 32) div 1024 = ?v div 1024 - 4 * 1024 * 1024" by simp
  moreover have "?v div 1024 < 4 * 1024 * 1024" "0 \<le> ?v div 1024" using assms(6,7) by auto
  moreover from this have "sint (of_int (?v div 1024 - 4 * 1024 * 1024) :: i32) = ?v div 1024 - 4 * 1024 * 1024"
    by (intro sint_of_int_i32) simp_all
  ultimately show ?thesis by (simp only: div) simp
qed

definition big_os :: tracer_os where
  "big_os = quiet_os\<lparr>stat_of := \<lambda>pid. if pid = 7 then
     Some (stat_text 7 ''prog'' (CHR ''R'') (replicate 19 1 @ [3221225472]) '' 100'') else None\<rparr>"

lemma big_process_negative_witness: "sint (readProcessVSIZE big_os 7) = - 1048576"
proof -
  let ?nums = "replicate 19 1 @ [3221225472 :: int]"
  have "sint (readProcessVSIZE big_os 7) = ?nums ! 19 div 1024 - 4 * 1024 * 1024 \<and>
      sint (readProcessVSIZE big_os 7) < 0"
    by (rule big_process_negative [where comm = "''prog''" and state = "CHR ''R''" and tail = "'' 100''"])
      (simp_all add: big_os_def plain_name_def isspace_def no_digit_first_def isdigit_def nth_append)
  then show ?thesis by (simp add: nth_append)
qed

definition small_os :: tracer_os where
  "small_os = quiet_os\<lparr>stat_of := \<lambda>pid. if pid = 7 then
     Some (stat_text 7 ''prog'' (CHR ''R'') (replicate 19 1 @ [20480]) '' 100'') else None\<rparr>"

definition crowded :: heap_watcher where
  "crowded = grow 7 100000 100000 (setMaximumCumulatedSize 10 (hw_init True False))"

lemma small_size: "readProcessVSIZE small_os 7 = 20"
  by (simp add: readProcessVSIZE_def small_os_def scan_vsize_text plain_name_def isspace_def no_digit_first_def
      isdigit_def ulong32_of_def nth_append)

lemma heap_ok_crowded: "heap_ok crowded"
  unfolding crowded_def
  by (rule heap_ok_grow) (simp_all add: setMaximumCumulatedSize_def hw_init_def heap_ok_def entry_sum_def proc_of_def)

lemma quota_decision_witness: "fst (checkOverQuota small_os crowded) \<noteq> []"
proof -
  have data: "hw_data crowded = [(7, ProcInfo\<lparr>memIncr := 100000\<rparr>)]"
    by (simp add: crowded_def grow_def setMaximumCumulatedSize_def hw_init_def proc_of_def ProcInfo_def set_proc_def)
  have "hw_data (refresh small_os crowded) = [(7, ProcInfo\<lparr>pi_vsize := 20\<rparr>)]"
    by (simp add: refresh_def data proc_of_def map_find_def updateProcessVsize_def Let_def small_size ProcInfo_def)
  moreover have "estimate crowded = 97" "sint (maximumCumulatedSize crowded) = 10" "overQuotaHandlerFn crowded"
    "maximumCumulatedSize crowded \<noteq> 0"
    by (simp_all add: estimate_def crowded_def grow_def setMaximumCumulatedSize_def hw_init_def set_proc_def)
  ultimately show ?thesis using quota_decision [OF heap_ok_crowded, of small_os]
    by (simp add: entry_sum_def split: prod.splits)
qed

end
