(* ===== verification/Syscall_Watchers.thy ===== *)
theory Syscall_Watchers
  imports Traced_System Printing
begin

text \<open>
  ProcessWatcher, FileWatcher and NetworkWatcher of SyscallsTracer.hh (runsolver-3.3.4-patched),
  and the ProcessList they share: what they write, the registers they change, and the ways in
  which the process that is watched can stop them.
\<close>

unbundle bit_operations_syntax

section \<open>ProcessList\<close>

type_synonym process_list = "int set"

definition pl_add :: "int \<Rightarrow> process_list \<Rightarrow> process_list" where
  "pl_add pid s = insert pid s"

definition pl_remove :: "int \<Rightarrow> process_list \<Rightarrow> process_list" where
  "pl_remove pid s = s - {pid}"

definition pl_contains :: "int \<Rightarrow> process_list \<Rightarrow> bool" where
  "pl_contains pid s \<longleftrightarrow> pid \<in> s"

section \<open>ProcessWatcher\<close>

text \<open>
  A new process or thread is announced when clone returns; exit takes the caller off the list
  when it is entered; the flags of a clone are changed when it is entered. None: the name of the
  executable is never read to its end.
\<close>

definition process_leaving_clone :: "regs \<Rightarrow> process_list \<Rightarrow> trace_event list \<times> process_list" where
  "process_leaving_clone regs l =
     (let newpid = sint (eax regs) in
      if ebx regs AND CLONE_VM \<noteq> 0 then ([Say (''New thread pid='' @ dec_int newpid @ endl)], l)
      else ([Say (''New process pid='' @ dec_int newpid @ endl)], pl_add newpid l))"

definition process_entering :: "tracer_os \<Rightarrow> int \<Rightarrow> int \<Rightarrow> regs \<Rightarrow> process_list \<Rightarrow>
    (trace_event list \<times> regs \<times> process_list) option" where
  "process_entering os syscall pid regs l =
     (if syscall = SYS_exit \<or> syscall = SYS_exit_group then Some ([], regs, pl_remove pid l)
      else if syscall = SYS_execve then
        map_option (\<lambda>exec. ([Say (''execve syscall for '' @ exec @ '' executable'' @ endl)], regs, l))
          (importString os pid (ebx regs) 200)
      else if syscall = SYS_clone then
        (let regs = regs\<lparr>ebx := ebx regs OR CLONE_PTRACE\<rparr> in Some ([Set_regs pid regs], regs, l))
      else Some ([], regs, l))"

definition process_action :: "tracer_os \<Rightarrow> int \<Rightarrow> bool \<Rightarrow> int \<Rightarrow> regs \<Rightarrow> process_list \<Rightarrow>
    (trace_event list \<times> regs \<times> process_list) option" where
  "process_action os syscall entering pid regs l =
     (if \<not> entering \<and> syscall = SYS_clone then
        (case process_leaving_clone regs l of (ev, l) \<Rightarrow> Some (ev, regs, l))
      else if entering then process_entering os syscall pid regs l
      else Some ([], regs, l))"

definition process_listOfSyscalls :: "int list" where
  "process_listOfSyscalls = [SYS_clone, SYS_exit, SYS_exit_group, SYS_execve, - 1]"

section \<open>FileWatcher\<close>

definition file_action :: "tracer_os \<Rightarrow> bool \<Rightarrow> int \<Rightarrow> regs \<Rightarrow> trace_event list option" where
  "file_action os entering pid regs =
     (if entering then
        map_option (\<lambda>filename. [Say (''open syscall for file '' @ filename @ endl)])
          (importString os pid (ebx regs) 0)
      else Some [])"

definition file_listOfSyscalls :: "int list" where
  "file_listOfSyscalls = [SYS_open, - 1]"

section \<open>NetworkWatcher\<close>

text \<open>
  The number of parameters of each subcall; an index outside the array is undefined. A parameter
  that cannot be read is an error (the library sets errno to 0 when a word was read).
\<close>

definition nbSubcallParms :: "nat list" where
  "nbSubcallParms = [2, 3, 3, 3, 2, 3, 3, 3, 4, 4, 4, 6, 6, 2, 5, 5, 5, 5]"

fun read_parms :: "tracer_os \<Rightarrow> int \<Rightarrow> u32 \<Rightarrow> nat \<Rightarrow> i32 list result" where
  "read_parms os pid p 0 = Inr []"
| "read_parms os pid p (Suc n) =
     (case peek os pid p of
        None \<Rightarrow> Inl (Runtime_error ''getparms failed'')
      | Some w \<Rightarrow> and_then (read_parms os pid (p + 4) n) (\<lambda>ws. Inr (w # ws)))"

definition getparms :: "tracer_os \<Rightarrow> int \<Rightarrow> int \<Rightarrow> regs \<Rightarrow> i32 list result" where
  "getparms os pid subcall regs =
     (if 0 \<le> subcall \<and> nat subcall < length nbSubcallParms
      then read_parms os pid (ecx regs) (nbSubcallParms ! nat subcall)
      else Inl (Undefined ''nbSubcallParms''))"

text \<open>
  The address of a socket is copied into an array on the stack, one word more than its length
  needs at most. \<open>c_chars\<close> is a string that must end within the array.
\<close>

definition c_chars :: "string \<Rightarrow> string result" where
  "c_chars s = (if CHR 0x00 \<in> set s then Inr (c_string s) else Inl (Undefined ''sun_path''))"

definition byte :: "string \<Rightarrow> nat \<Rightarrow> nat result" where
  "byte s i = (if i < length s then Inr (code_of (s ! i)) else Inl (Undefined ''sock''))"

definition inet_ntoa :: "nat \<Rightarrow> nat \<Rightarrow> nat \<Rightarrow> nat \<Rightarrow> string" where
  "inet_ntoa a b c d = dec_nat a @ ''.'' @ dec_nat b @ ''.'' @ dec_nat c @ ''.'' @ dec_nat d"

definition inet_text :: "string \<Rightarrow> string result" where
  "inet_text sock =
     and_then (byte sock 4) (\<lambda>a. and_then (byte sock 5) (\<lambda>b. and_then (byte sock 6) (\<lambda>c.
     and_then (byte sock 7) (\<lambda>d. and_then (byte sock 2) (\<lambda>hi. and_then (byte sock 3) (\<lambda>lo.
       Inr (''AF_INET,sin_addr='' @ inet_ntoa a b c d @ '',sin_port='' @ dec_nat (256 * hi + lo))))))))"

definition sock_chars :: "tracer_os \<Rightarrow> int \<Rightarrow> u32 \<Rightarrow> i32 \<Rightarrow> string" where
  "sock_chars os pid sockaddr len =
     concat (map (\<lambda>i. word_chars (peekdata os pid (sockaddr + 4 * of_nat i))) [0..<unat len div 4 + 1])"

definition sa_family :: "string \<Rightarrow> nat" where
  "sa_family sock = code_of (sock ! 0) + 256 * code_of (sock ! 1)"

definition decodeSockAddr :: "tracer_os \<Rightarrow> int \<Rightarrow> u32 \<Rightarrow> i32 \<Rightarrow> string result" where
  "decodeSockAddr os pid sockaddr len =
     (if sint len < 1 then Inr []
      else if stack_room os < 4 * (unat len div 4 + 1) then Inl (Undefined ''stack overflow'')
      else let sock = sock_chars os pid sockaddr len in
        and_then
          (if sa_family sock = 1 then and_then (c_chars (drop 2 sock)) (\<lambda>path. Inr (''AF_UNIX,path='' @ path))
           else if sa_family sock = 2 then inet_text sock
           else if sa_family sock = 10 then Inr ''AF_INET6''
           else Inr ''???'')
          (\<lambda>t. Inr (''{sa_family='' @ t @ ''}'')))"

text \<open>A long in base 16, as an unsigned number, with its prefix unless it is 0.\<close>

definition hex_digit :: "nat \<Rightarrow> char" where
  "hex_digit d = (if d < 10 then char_of (48 + d) else char_of (87 + d))"

fun hex_nat :: "nat \<Rightarrow> string" where
  "hex_nat n = (if n < 16 then [hex_digit n] else hex_nat (n div 16) @ [hex_digit (n mod 16)])"

declare hex_nat.simps [simp del]

definition hex_showbase :: "u32 \<Rightarrow> string" where
  "hex_showbase w = (if w = 0 then ''0'' else ''0x'' @ hex_nat (unat w))"

definition unknown_value :: "i32 \<Rightarrow> string" where
  "unknown_value w = ''??? ('' @ hex_showbase w @ '')''"

definition named :: "(int \<times> string) list \<Rightarrow> i32 \<Rightarrow> string" where
  "named names w = (case map_of names (sint w) of Some t \<Rightarrow> t | None \<Rightarrow> unknown_value w)"

definition protocol_families :: "(int \<times> string) list" where
  "protocol_families = [(1, ''PF_UNIX''), (2, ''PF_INET''), (10, ''PF_INET6''), (4, ''PF_IPX''),
     (16, ''PF_NETLINK''), (9, ''PF_X25''), (3, ''PF_AX25''), (8, ''PF_ATMPVC''),
     (5, ''PF_APPLETALK''), (17, ''PF_PACKET'')]"

definition socket_types :: "(int \<times> string) list" where
  "socket_types = [(1, ''SOCK_STREAM''), (2, ''SOCK_DGRAM''), (5, ''SOCK_SEQPACKET''),
     (3, ''SOCK_RAW''), (4, ''SOCK_RDM''), (10, ''SOCK_PACKET'')]"

definition decodeSocket :: "i32 list \<Rightarrow> string" where
  "decodeSocket parms =
     ''socket('' @ named protocol_families (parms ! 0) @ '','' @ named socket_types (parms ! 1) @
     '','' @ dec_int (sint (parms ! 2)) @ '')'' @ endl"

definition decodeSockSockaddrSocklen :: "tracer_os \<Rightarrow> string \<Rightarrow> int \<Rightarrow> i32 list \<Rightarrow> string result" where
  "decodeSockSockaddrSocklen os fn pid parms =
     and_then (decodeSockAddr os pid (parms ! 1) (parms ! 2)) (\<lambda>t.
       Inr (fn @ ''('' @ dec_int (sint (parms ! 0)) @ '','' @ t @ '','' @ dec_int (sint (parms ! 2)) @ '')''))"

definition decode_sendto :: "tracer_os \<Rightarrow> int \<Rightarrow> i32 list \<Rightarrow> string result" where
  "decode_sendto os pid parms =
     and_then (if parms ! 4 \<noteq> 0 then decodeSockAddr os pid (parms ! 4) (parms ! 5) else Inr ''NULL'') (\<lambda>t.
       Inr (''sendto('' @ dec_int (sint (parms ! 0)) @ '',buf=...,len='' @ dec_int (sint (parms ! 2)) @
         '',flags='' @ dec_int (sint (parms ! 3)) @ '','' @ t @ '',len='' @ dec_int (sint (parms ! 5)) @ '')'' @ endl))"

definition other_subcalls :: "(int \<times> string) list" where
  "other_subcalls = [(6, ''getsockname(...)''), (7, ''getpeername(...)''), (8, ''socketpair(...)''),
     (9, ''send(...)''), (10, ''recv(...)''), (12, ''recvfrom(...)''), (13, ''shutdown(...)''),
     (14, ''setsockopt(...)''), (15, ''getsockopt(...)''), (16, ''sendmsg(...)''), (17, ''recvmsg(...)'')]"

definition subcall_text :: "tracer_os \<Rightarrow> int \<Rightarrow> int \<Rightarrow> i32 list \<Rightarrow> string result" where
  "subcall_text os pid subcall parms =
     (if subcall = 1 then Inr (decodeSocket parms)
      else if subcall = 2 then and_then (decodeSockSockaddrSocklen os ''bind'' pid parms) (\<lambda>t. Inr (t @ endl))
      else if subcall = 3 then and_then (decodeSockSockaddrSocklen os ''connect'' pid parms) (\<lambda>t. Inr (t @ endl))
      else if subcall = 4 then
        Inr (''listen('' @ dec_int (sint (parms ! 0)) @ '','' @ dec_int (sint (parms ! 1)) @ '')'' @ endl)
      else if subcall = 5 then Inr (''accept('' @ dec_int (sint (parms ! 0)) @ '',...)'' @ endl)
      else if subcall = 11 then decode_sendto os pid parms
      else (case map_of other_subcalls subcall of Some t \<Rightarrow> Inr (t @ endl)
            | None \<Rightarrow> Inr (''unknown syscall(...)'' @ endl)))"

definition network_action :: "tracer_os \<Rightarrow> bool \<Rightarrow> int \<Rightarrow> regs \<Rightarrow> trace_event list result" where
  "network_action os entering pid regs =
     (let subcall = sint (ebx regs) in
      if entering then
        and_then (getparms os pid subcall regs) (\<lambda>parms.
        and_then (subcall_text os pid subcall parms) (\<lambda>t. Inr [Say (''socket syscall '' @ t)]))
      else if subcall = 1 then Inr [Say (''='' @ dec_int (sint (eax regs)) @ endl)]
      else Inr [])"

definition network_listOfSyscalls :: "int list" where
  "network_listOfSyscalls = [SYS_socketcall, - 1]"


section \<open>Names\<close>

text \<open>
  The file watcher names the file of an open call: the string at the address in the
  first parameter.
\<close>

theorem file_named:
  assumes "string_at (peekdata os pid) (ebx regs) filename"
  shows "file_action os True pid regs = Some [Say (''open syscall for file '' @ filename @ endl)]"
  using assms by (simp add: file_action_def importString_string)

definition regs_of :: "i32 \<Rightarrow> i32 \<Rightarrow> i32 \<Rightarrow> regs" where
  "regs_of b c a = \<lparr>ebx = b, ecx = c, edx = 0, esi = 0, edi = 0, eax = a, orig_eax = 0, eip = 0\<rparr>"

definition memory_os :: "(u32 \<times> i32) list \<Rightarrow> nat \<Rightarrow> tracer_os" where
  "memory_os cells n = \<lparr>peek = (\<lambda>_. map_of cells), stat_of = (\<lambda>_. None), stack_room = n\<rparr>"

lemma word_slash_a: "word_chars 0x0000612F = [CHR ''/'', CHR ''a'', CHR 0x00, CHR 0x00]"
  by code_simp

lemma slash_a_at: "rd p = 0x0000612F \<Longrightarrow> string_at rd p ''/a''"
  by (rule short_string_at) (simp_all add: word_slash_a)

lemma file_named_witness:
  "file_action (memory_os [(0x8000, 0x0000612F)] 0) True 5 (regs_of 0x8000 0 0) =
    Some [Say (''open syscall for file '' @ ''/a'' @ endl)]"
  by (rule file_named [OF slash_a_at]) (simp add: memory_os_def regs_of_def peekdata_def)

text \<open>
  An open call with an address that cannot be read does not stop the reading: each
  word that cannot be read gives four characters, until a word with a zero byte is found.
\<close>

theorem unreadable_name:
  assumes "\<forall>i < n. peek os pid (ebx regs + 4 * of_nat i) = None"
    and "string_at (peekdata os pid) (ebx regs + 4 * of_nat n) str"
  shows "file_action os True pid regs =
    Some [Say (''open syscall for file '' @ replicate (4 * n) (CHR 0xFF) @ str @ endl)]"
proof -
  have "\<forall>i < n. peekdata os pid (ebx regs + 4 * of_nat i) = - 1" using assms(1) by (simp add: peekdata_def)
  then show ?thesis
    using assms(2) by (simp add: file_action_def importString_def import_loop_unreadable)
qed

lemma unreadable_name_witness:
  "file_action (memory_os [(0x1000, 0x0000612F)] 0) True 5 (regs_of 0xFF8 0 0) =
    Some [Say (''open syscall for file '' @ replicate (4 * 2) (CHR 0xFF) @ ''/a'' @ endl)]"
proof (rule unreadable_name)
  show "\<forall>i < 2. peek (memory_os [(0x1000, 0x0000612F)] 0) 5 (ebx (regs_of 0xFF8 0 0) + 4 * of_nat i) = None"
    by (auto simp: memory_os_def regs_of_def less_2_cases_iff)
  show "string_at (peekdata (memory_os [(0x1000, 0x0000612F)] 0) 5) (ebx (regs_of 0xFF8 0 0) + 4 * of_nat 2) ''/a''"
    by (rule slash_a_at) (simp add: memory_os_def regs_of_def peekdata_def)
qed

section \<open>Socket calls\<close>

lemma length_sock [simp]: "length (sock_chars os pid a len) = 4 * (unat len div 4 + 1)"
  by (simp add: sock_chars_def length_concat comp_def sum_list_triv)

lemma inet_text_iff: "(\<exists>t. inet_text s = Inr t) \<longleftrightarrow> 8 \<le> length s"
  by (auto simp: inet_text_def byte_def)

text \<open>
  The address of a socket is decoded without undefined behaviour exactly if the
  array fits on the stack, an IP address has at least four bytes, and the path of a UNIX socket
  ends within the array. The traced process chooses all three.
\<close>

theorem decodeSockAddr_returns:
  "(\<exists>t. decodeSockAddr os pid a len = Inr t) \<longleftrightarrow> sint len < 1 \<or>
     4 * (unat len div 4 + 1) \<le> stack_room os \<and>
     (sa_family (sock_chars os pid a len) = 2 \<longrightarrow> 4 \<le> unat len) \<and>
     (sa_family (sock_chars os pid a len) = 1 \<longrightarrow> CHR 0x00 \<in> set (drop 2 (sock_chars os pid a len)))"
proof -
  have inet: "(\<exists>t. inet_text (sock_chars os pid a len) = Inr t) \<longleftrightarrow> 4 \<le> unat len"
    by (simp add: inet_text_iff) arith
  have "(\<exists>t. and_then m (\<lambda>t. Inr (f t)) = Inr t) \<longleftrightarrow> (\<exists>t. m = Inr t)" for m :: "string result" and f :: "string \<Rightarrow> string"
    by (cases m) auto
  note ok = this this [where f = "\<lambda>t. t", simplified]
  show ?thesis using inet
    by (auto simp: decodeSockAddr_def Let_def ok c_chars_def not_less split: if_splits)
qed


lemma sock_one_word: "unat len < 4 \<Longrightarrow> sock_chars os pid a len = word_chars (peekdata os pid a)"
  by (simp add: sock_chars_def)

lemma decodeSockAddr_returns_witness:
  "\<not> (\<exists>t. decodeSockAddr (memory_os [(0x8000, 2)] 4096) 5 0x8000 3 = Inr t)"
proof -
  have "sa_family (sock_chars (memory_os [(0x8000, 2)] 4096) 5 0x8000 3) = 2"
    by (simp add: sock_one_word sa_family_def memory_os_def peekdata_def) code_simp
  then show ?thesis by (simp add: decodeSockAddr_returns)
qed

text \<open>The parameters of a subcall that has an entry in the array.\<close>

lemma read_parms_ok:
  "(\<And>i. i < n \<Longrightarrow> peek os pid (p + 4 * of_nat i) = Some (f i)) \<Longrightarrow> read_parms os pid p n = Inr (map f [0..<n])"
proof (induction n arbitrary: p f)
  case (Suc n)
  have "read_parms os pid (p + 4) n = Inr (map (\<lambda>i. f (Suc i)) [0..<n])"
  proof (rule Suc.IH)
    fix i assume "i < n"
    then show "peek os pid (p + 4 + 4 * of_nat i) = Some (f (Suc i))"
      using Suc.prems [of "Suc i"] by (simp add: algebra_simps)
  qed
  moreover have "peek os pid p = Some (f 0)" using Suc.prems [of 0] by simp
  moreover have "map f [0..<Suc n] = f 0 # map (\<lambda>i. f (Suc i)) [0..<n]"
    by (simp add: upt_conv_Cons map_Suc_upt [symmetric] comp_def del: upt_Suc)
  ultimately show ?case by simp
qed simp

text \<open>
  A connect to an IPv4 address is shown with its address and port, in the order in
  which they are written, whatever follows the first eight bytes.
\<close>

theorem connect_shown:
  assumes "ebx regs = 3"
    and "peek os pid (ecx regs) = Some fd" and "peek os pid (ecx regs + 4) = Some addr"
    and "peek os pid (ecx regs + 8) = Some 16" and "20 \<le> stack_room os"
    and "word_chars (peekdata os pid addr) = [CHR 0x02, CHR 0x00, hi, lo]"
    and "word_chars (peekdata os pid (addr + 4)) = [a, b, c, d]"
  shows "network_action os True pid regs = Inr [Say (''socket syscall connect('' @ dec_int (sint fd) @
     '',{sa_family=AF_INET,sin_addr='' @ dec_nat (code_of a) @ ''.'' @ dec_nat (code_of b) @ ''.'' @
     dec_nat (code_of c) @ ''.'' @ dec_nat (code_of d) @ '',sin_port='' @ dec_nat (256 * code_of hi + code_of lo) @
     ''},16)'' @ endl)]"
proof -
  have "sock_chars os pid addr 16 = [CHR 0x02, CHR 0x00, hi, lo, a, b, c, d] @
      concat (map (\<lambda>i. word_chars (peekdata os pid (addr + 4 * of_nat i))) [2, 3, 4])"
    using assms(6,7) by (simp add: sock_chars_def upt_rec)
  then have "decodeSockAddr os pid addr 16 = Inr (''{sa_family=AF_INET,sin_addr='' @ inet_ntoa (code_of a) (code_of b)
      (code_of c) (code_of d) @ '',sin_port='' @ dec_nat (256 * code_of hi + code_of lo) @ ''}'')"
    using assms(5) by (simp add: decodeSockAddr_def sa_family_def inet_text_def byte_def)
  moreover have "read_parms os pid (ecx regs) 3 = Inr [fd, addr, 16]"
    using assms(2-4) by (simp add: numeral_3_eq_3 add.assoc)
  moreover have "dec_int 16 = ''16''" by code_simp
  ultimately show ?thesis
    using assms(1)
    by (simp add: network_action_def getparms_def nbSubcallParms_def subcall_text_def
        decodeSockSockaddrSocklen_def inet_ntoa_def)
qed


definition connect_os :: tracer_os where
  "connect_os = memory_os [(0x8000, 4), (0x8004, 0x9000), (0x8008, 16), (0x9000, 0x50000002), (0x9004, 0x0100007F)] 4096"

lemma connect_shown_witness:
  "network_action connect_os True 5 (regs_of 3 0x8000 0) = Inr [Say (''socket syscall connect('' @ dec_int (sint (4 :: i32)) @
     '',{sa_family=AF_INET,sin_addr='' @ dec_nat (code_of (CHR 0x7F)) @ ''.'' @ dec_nat (code_of (CHR 0x00)) @ ''.'' @
     dec_nat (code_of (CHR 0x00)) @ ''.'' @ dec_nat (code_of (CHR 0x01)) @ '',sin_port='' @
     dec_nat (256 * code_of (CHR 0x00) + code_of (CHR 0x50)) @ ''},16)'' @ endl)]"
proof (rule connect_shown)
  have "word_chars 0x50000002 = [CHR 0x02, CHR 0x00, CHR 0x00, CHR 0x50]" by code_simp
  then show "word_chars (peekdata connect_os 5 0x9000) = [CHR 0x02, CHR 0x00, CHR 0x00, CHR 0x50]"
    by (simp add: connect_os_def memory_os_def peekdata_def)
  have "word_chars 0x0100007F = [CHR 0x7F, CHR 0x00, CHR 0x00, CHR 0x01]" by code_simp
  then show "word_chars (peekdata connect_os 5 (0x9000 + 4)) = [CHR 0x7F, CHR 0x00, CHR 0x00, CHR 0x01]"
    by (simp add: connect_os_def memory_os_def peekdata_def)
qed (simp_all add: connect_os_def memory_os_def regs_of_def)

text \<open>
  A subcall outside the array of the numbers of parameters, such as accept4 (18), makes
  the watcher read outside the array; any other subcall whose parameters cannot be read is an error.
\<close>

theorem subcall_outside:
  "getparms os pid subcall regs =
     (if subcall < 0 \<or> 17 < subcall then Inl (Undefined ''nbSubcallParms'')
      else if \<exists>i < nbSubcallParms ! nat subcall. peek os pid (ecx regs + 4 * of_nat i) = None
      then Inl (Runtime_error ''getparms failed'')
      else Inr (map (\<lambda>i. the (peek os pid (ecx regs + 4 * of_nat i))) [0..<nbSubcallParms ! nat subcall]))"
proof -
  have fails: "\<exists>i < n. peek os pid (p + 4 * of_nat i) = None \<Longrightarrow>
      read_parms os pid p n = Inl (Runtime_error ''getparms failed'')" for n p
  proof (induction n arbitrary: p)
    case (Suc n)
    then obtain i where i: "i < Suc n" "peek os pid (p + 4 * of_nat i) = None" by blast
    show ?case
    proof (cases "peek os pid p")
      case (Some w)
      with i obtain k where k: "i = Suc k" by (cases i) auto
      then have "k < n" "peek os pid (p + 4 + 4 * of_nat k) = None" using i by (simp_all add: algebra_simps)
      then have "read_parms os pid (p + 4) n = Inl (Runtime_error ''getparms failed'')" by (intro Suc.IH) blast
      with Some show ?thesis by simp
    qed simp
  qed simp
  have reads: "\<not> (\<exists>i < n. peek os pid (p + 4 * of_nat i) = None) \<Longrightarrow>
      read_parms os pid p n = Inr (map (\<lambda>i. the (peek os pid (p + 4 * of_nat i))) [0..<n])" for n p
    by (rule read_parms_ok) auto
  have guard: "0 \<le> subcall \<and> nat subcall < length nbSubcallParms \<longleftrightarrow> \<not> (subcall < 0 \<or> 17 < subcall)"
    by (auto simp: nbSubcallParms_def nat_less_iff)
  show ?thesis unfolding getparms_def guard
    using fails [of "nbSubcallParms ! nat subcall" "ecx regs"] reads [of "nbSubcallParms ! nat subcall" "ecx regs"]
    by (simp only: if_not_P if_P split: if_split) blast
qed

section \<open>Clones\<close>

lemma with_flag:
  "(x OR f) AND f = (f :: 'a::len word)" "(x OR f) AND NOT f = x AND NOT (f :: 'a::len word)"
  by (rule bit_word_eqI; auto simp: bit_simps)+

text \<open>
  A clone call is entered with the flag that makes the kernel trace the child, and
  with every other flag as the process asked; the list of processes does not change.
\<close>

theorem clone_is_traced:
  "\<exists>regs'. process_action os SYS_clone True pid regs l = Some ([Set_regs pid regs'], regs', l) \<and>
     ebx regs' AND CLONE_PTRACE = CLONE_PTRACE \<and>
     ebx regs' AND NOT CLONE_PTRACE = ebx regs AND NOT CLONE_PTRACE \<and>
     ecx regs' = ecx regs \<and> edx regs' = edx regs \<and> esi regs' = esi regs \<and> edi regs' = edi regs"
  by (intro exI [of _ "regs\<lparr>ebx := ebx regs OR CLONE_PTRACE\<rparr>"])
    (simp add: process_action_def process_entering_def SYS_defs with_flag Let_def)

text \<open>
  When a call that creates a process fails, the negated error number is added to the
  list of processes as if it were a process, and announced as one.
\<close>

theorem failed_fork_listed:
  assumes "ebx regs AND CLONE_VM = 0" and "sint (eax regs) = - e" and "0 < e"
  shows "process_action os SYS_clone False pid regs l =
    Some ([Say (''New process pid=-'' @ dec_nat (nat e) @ endl)], regs, insert (- e) l)"
  using assms by (simp add: process_action_def process_leaving_clone_def pl_add_def dec_int_def)

lemma failed_fork_listed_witness:
  "process_action connect_os SYS_clone False 5 (regs_of 0 0 (- 11)) {5} =
    Some ([Say (''New process pid=-'' @ dec_nat (nat 11) @ endl)], regs_of 0 0 (- 11), insert (- 11) {5})"
  by (rule failed_fork_listed) (simp_all add: regs_of_def)

end
