(* ===== verification/Syscall_Tracer.thy ===== *)
theory Syscall_Tracer
  imports Heap_Watcher Syscall_Watchers Signal_Names
begin

text \<open>
  SyscallActionList and SyscallsTracer of SyscallsTracer.hh (runsolver-3.3.4-patched): the actions
  registered for each system call, the guess whether a stop enters or leaves it, and the loop
  that waits for stopped processes.
\<close>

section \<open>State\<close>

text \<open>The actions are objects with a state of their own, which the lists share.\<close>

datatype watcher = Heap_size | Processes | Files | Network

record watch_state =
  heap :: heap_watcher
  procs :: process_list

text \<open>\<open>calling\<close> is procList, the processes inside the system call of this list.\<close>

record execve_info =
  called_from :: i32
  spurious :: int

definition ExecveInfo :: execve_info where
  "ExecveInfo = \<lparr>called_from = 0, spurious = 0\<rparr>"

record action_list =
  actionList :: "watcher list"
  calling :: process_list
  execveData :: "(int, execve_info) std_map"

definition no_actions :: action_list where
  "no_actions = \<lparr>actionList = [], calling = {}, execveData = []\<rparr>"

definition addAction :: "watcher \<Rightarrow> action_list \<Rightarrow> action_list" where
  "addAction a l = l\<lparr>actionList := actionList l @ [a]\<rparr>"

definition nbSyscallNames :: nat where
  "nbSyscallNames = 314"

record syscalls_tracer =
  syscallActionLists :: "action_list option list"
  shared :: watch_state
  nbsyscalls :: i32

definition new_tracer :: "watch_state \<Rightarrow> syscalls_tracer" where
  "new_tracer st = \<lparr>syscallActionLists = replicate nbSyscallNames None, shared = st, nbsyscalls = 0\<rparr>"

section \<open>Registration\<close>

text \<open>The number of names itself passes the guard, but it is no index of the array.\<close>

definition registerAction :: "int \<Rightarrow> watcher \<Rightarrow> syscalls_tracer \<Rightarrow> syscalls_tracer result" where
  "registerAction n a t =
     (if n < 0 \<or> int nbSyscallNames < n then Inl (Runtime_error ''invalid system call number'')
      else if length (syscallActionLists t) \<le> nat n then Inl (Undefined ''syscallActionLists'')
      else let l = (case syscallActionLists t ! nat n of None \<Rightarrow> no_actions | Some l \<Rightarrow> l)
           in Inr (t\<lparr>syscallActionLists := (syscallActionLists t)[nat n := Some (addAction a l)]\<rparr>))"

definition syscallsToRegisterTo :: "watcher \<Rightarrow> int list" where
  "syscallsToRegisterTo a = (case a of Heap_size \<Rightarrow> heap_listOfSyscalls | Processes \<Rightarrow> process_listOfSyscalls
     | Files \<Rightarrow> file_listOfSyscalls | Network \<Rightarrow> network_listOfSyscalls)"

definition registerAll :: "watcher \<Rightarrow> syscalls_tracer \<Rightarrow> syscalls_tracer result" where
  "registerAll a t =
     (let calls = takeWhile (\<lambda>n. 0 \<le> n) (syscallsToRegisterTo a) in
      and_then (for_each_result (\<lambda>n t. registerAction n a t) calls t)
        (\<lambda>t. if calls = [] then Inl (Runtime_error ''list of system calls defined inside the action is empty'')
             else Inr t))"

section \<open>The actions of a system call\<close>

definition run_action :: "tracer_os \<Rightarrow> int \<Rightarrow> bool \<Rightarrow> int \<Rightarrow> watcher \<Rightarrow> regs \<Rightarrow> watch_state \<Rightarrow>
    (trace_event list \<times> regs \<times> watch_state) run" where
  "run_action os syscall entering pid a regs st =
     (case a of
        Heap_size \<Rightarrow> (case heap_action os syscall entering pid regs (heap st) of (calls, h) \<Rightarrow>
          returns (map Quota calls, regs, st\<lparr>heap := h\<rparr>))
      | Processes \<Rightarrow> run_then (lift_option (process_action os syscall entering pid regs (procs st)))
          (\<lambda>(ev, regs, l). returns (ev, regs, st\<lparr>procs := l\<rparr>))
      | Files \<Rightarrow> run_then (lift_option (file_action os entering pid regs)) (\<lambda>ev. returns (ev, regs, st))
      | Network \<Rightarrow> run_then (Some (network_action os entering pid regs)) (\<lambda>ev. returns (ev, regs, st)))"

fun run_actions :: "tracer_os \<Rightarrow> int \<Rightarrow> bool \<Rightarrow> int \<Rightarrow> watcher list \<Rightarrow> regs \<Rightarrow> watch_state \<Rightarrow>
    (trace_event list \<times> regs \<times> watch_state) run" where
  "run_actions os syscall entering pid [] regs st = returns ([], regs, st)"
| "run_actions os syscall entering pid (a # as) regs st =
     run_then (run_action os syscall entering pid a regs st) (\<lambda>(ev, regs, st).
     run_then (run_actions os syscall entering pid as regs st) (\<lambda>(ev', regs, st).
       returns (ev @ ev', regs, st)))"

text \<open>
  run: a stop leaves the call if the process is on the list, and enters it otherwise. An execve
  that leaves at another place than it entered is taken for a spurious stop.
\<close>

definition execve_of :: "int \<Rightarrow> action_list \<Rightarrow> execve_info" where
  "execve_of pid l = (case map_find (execveData l) pid of None \<Rightarrow> ExecveInfo | Some i \<Rightarrow> i)"

definition execve_entered :: "int \<Rightarrow> regs \<Rightarrow> action_list \<Rightarrow> action_list" where
  "execve_entered pid regs l =
     l\<lparr>execveData := map_put pid ((execve_of pid l)\<lparr>called_from := eip regs\<rparr>) (execveData l)\<rparr>"

definition execve_spurious :: "int \<Rightarrow> action_list \<Rightarrow> action_list" where
  "execve_spurious pid l =
     (let i = (execve_of pid l)\<lparr>spurious := spurious (execve_of pid l) + 1\<rparr> in
      l\<lparr>execveData := (if spurious i = 2 then map_erase pid (execveData l) else map_put pid i (execveData l))\<rparr>)"

definition run_list :: "tracer_os \<Rightarrow> int \<Rightarrow> int \<Rightarrow> regs \<Rightarrow> action_list \<Rightarrow> watch_state \<Rightarrow>
    (trace_event list \<times> action_list \<times> watch_state) run" where
  "run_list os syscall pid regs l st =
     (let entering = (\<not> pl_contains pid (calling l)) in
      if syscall = SYS_execve \<and> \<not> entering \<and> called_from (execve_of pid l) \<noteq> eip regs then
        returns ([], execve_spurious pid l, st)
      else
        let l = (if syscall = SYS_execve \<and> entering then execve_entered pid regs l else l);
            l = (if syscall = SYS_execve \<and> \<not> entering then
                   l\<lparr>execveData := map_put pid (execve_of pid l) (execveData l)\<rparr> else l);
            l = (if entering then l\<lparr>calling := pl_add pid (calling l)\<rparr> else l)
        in run_then (run_actions os syscall entering pid (actionList l) regs st) (\<lambda>(ev, regs, st).
             returns (ev, if entering then l else l\<lparr>calling := pl_remove pid (calling l)\<rparr>, st)))"

section \<open>Waiting for the traced processes\<close>

text \<open>
  The answers of wait4, each with what the system shows of the process meanwhile: interrupted, no
  child left, another error, a stop by a signal with the registers (None: they cannot be read),
  an exit and a death by a signal.
\<close>

datatype wait_answer =
    Interrupted
  | No_child
  | Wait_error string
  | Stopped int int "regs option" tracer_os
  | Exited int int
  | Signaled int int

text \<open>
  How the loop stands: it returned, it ended by a fault, it hangs inside an action, or it waits
  for the next answer.
\<close>

datatype watch_end = Returned | Failed fault | Hung | Waiting

definition SIGTRAP :: int where
  "SIGTRAP = 5"

definition strerror_EINTR :: string where
  "strerror_EINTR = ''Interrupted system call''"

definition exited_text :: "int \<Rightarrow> int \<Rightarrow> string" where
  "exited_text pid status = ''One traced child (pid='' @ dec_int pid @ '') exited with status: '' @ dec_int status @ endl"

definition signaled_text :: "int \<Rightarrow> int \<Rightarrow> string result" where
  "signaled_text pid sig = and_then (getSignalName sig) (\<lambda>name.
     Inr (''One traced child (pid='' @ dec_int pid @ '') ended because it received signal '' @
       dec_int sig @ '' ('' @ name @ '')'' @ endl))"

definition invalid_call_text :: "regs \<Rightarrow> string" where
  "invalid_call_text regs = ''Ooops ! Got an invalid system call number ! (orig_eax='' @
     dec_int (sint (orig_eax regs)) @ '' eax='' @ dec_int (sint (eax regs)) @ '')'' @ endl @
     ''Trying to continue...'' @ endl"

text \<open>One system call stop: the actions registered for it, then the process goes on.\<close>

definition syscall_stop :: "tracer_os \<Rightarrow> int \<Rightarrow> regs \<Rightarrow> syscalls_tracer \<Rightarrow> (trace_event list \<times> syscalls_tracer) run" where
  "syscall_stop os pid regs t =
     (let n = sint (orig_eax regs); t = t\<lparr>nbsyscalls := nbsyscalls t + 1\<rparr> in
      if n < 0 \<or> int nbSyscallNames \<le> n then
        returns ((if n \<noteq> - 1 then [Say (invalid_call_text regs)] else []) @ [Continue pid 0], t)
      else case syscallActionLists t ! nat n of
        None \<Rightarrow> returns ([Continue pid 0], t)
      | Some l \<Rightarrow> run_then (run_list os n pid regs l (shared t)) (\<lambda>(ev, l, st).
          returns (ev @ [Continue pid 0],
            t\<lparr>syscallActionLists := (syscallActionLists t)[nat n := Some l], shared := st\<rparr>)))"

text \<open>
  watchKernelCalls: \<open>retry\<close> counts the interruptions of this wait. If the registers cannot be
  read, the process is not continued.
\<close>

fun watchKernelCalls :: "nat \<Rightarrow> wait_answer list \<Rightarrow> syscalls_tracer \<Rightarrow> trace_event list \<times> syscalls_tracer \<times> watch_end" where
  "watchKernelCalls retry [] t = ([], t, Waiting)"
| "watchKernelCalls retry (Interrupted # ws) t =
     (if Suc retry \<le> 3 then watchKernelCalls (Suc retry) ws t
      else ([], t, Failed (Runtime_error (''wait4 on traced child failed'' @ strerror_EINTR))))"
| "watchKernelCalls retry (No_child # ws) t = ([], t, Returned)"
| "watchKernelCalls retry (Wait_error e # ws) t =
     ([], t, Failed (Runtime_error (''wait4 on traced child failed'' @ e)))"
| "watchKernelCalls retry (Exited pid status # ws) t =
     (case watchKernelCalls 0 ws t of (ev, r) \<Rightarrow> (Say (exited_text pid status) # ev, r))"
| "watchKernelCalls retry (Signaled pid sig # ws) t =
     (case signaled_text pid sig of
        Inl e \<Rightarrow> ([], t, Failed e)
      | Inr s \<Rightarrow> (case watchKernelCalls 0 ws t of (ev, r) \<Rightarrow> (Say s # ev, r)))"
| "watchKernelCalls retry (Stopped pid sig mregs os # ws) t =
     (if sig \<noteq> SIGTRAP then
        (case watchKernelCalls 0 ws t of (ev, r) \<Rightarrow> (Continue pid sig # ev, r))
      else case mregs of
        None \<Rightarrow> watchKernelCalls 0 ws t
      | Some regs \<Rightarrow> (case syscall_stop os pid regs t of
            None \<Rightarrow> ([], t, Hung)
          | Some (Inl e) \<Rightarrow> ([], t, Failed e)
          | Some (Inr (ev, t)) \<Rightarrow> (case watchKernelCalls 0 ws t of (ev', r) \<Rightarrow> (ev @ ev', r))))"

text \<open>
  parentTraceKernelCalls: the first stop of the child; \<open>waited\<close> is the result of waitpid. The
  second component is how it ends: None if it returns.
\<close>

definition parentTraceKernelCalls :: "int \<Rightarrow> int \<Rightarrow> wait_answer \<Rightarrow> trace_event list \<times> fault option" where
  "parentTraceKernelCalls childpid waited answer =
     (if waited \<noteq> childpid then ([], Some (Runtime_error ''wait for traced child failed''))
      else case answer of
        Exited pid status \<Rightarrow>
          ([Say ([newline, newline] @ ''Child to trace (pid='' @ dec_int childpid @ '') exited with status: '' @
             dec_int status @ '' before we could trace it'' @ endl)], Some (Exit 2))
      | Signaled pid sig \<Rightarrow> (case getSignalName sig of
            Inl e \<Rightarrow> ([], Some e)
          | Inr name \<Rightarrow>
              ([Say ([newline, newline] @ ''Child to trace (pid='' @ dec_int childpid @
                 '') ended because it received signal '' @ dec_int sig @ '' ('' @ name @
                 '') before we could trace it'' @ endl)], Some (Exit 2)))
      | Stopped pid sig mregs os \<Rightarrow> ([Continue childpid 0], None)
      | _ \<Rightarrow> ([], Some (Runtime_error ''traced child is not stopped'')))"


section \<open>Registration succeeds within the array\<close>

text \<open>
  Registering an action works for the numbers 0 to 313; the guard also lets 314 pass,
  which is outside the array, and rejects the rest.
\<close>

theorem register_bounds:
  assumes "length (syscallActionLists t) = nbSyscallNames"
  shows "case registerAction n a t of
      Inr t' \<Rightarrow> 0 \<le> n \<and> n < 314 \<and> length (syscallActionLists t') = nbSyscallNames \<and>
        map_option actionList (syscallActionLists t' ! nat n) =
          Some ((case syscallActionLists t ! nat n of None \<Rightarrow> [] | Some l \<Rightarrow> actionList l) @ [a])
    | Inl e \<Rightarrow> e = (if n = 314 then Undefined ''syscallActionLists'' else Runtime_error ''invalid system call number'') \<and>
        \<not> (0 \<le> n \<and> n < 314)"
proof -
  consider "n < 0 \<or> 314 < n" | "n = 314" | "0 \<le> n" "n < 314" by linarith
  then show ?thesis
  proof cases
    case 3
    then have "nat n < 314" by simp
    with 3 assms show ?thesis
      by (simp add: registerAction_def nbSyscallNames_def Let_def addAction_def no_actions_def split: option.split)
  qed (use assms in \<open>auto simp: registerAction_def nbSyscallNames_def\<close>)
qed

lemma register_bounds_witness:
  "case registerAction 314 Files (new_tracer \<lparr>heap = hw_init False False, procs = {}\<rparr>) of
      Inr t' \<Rightarrow> False | Inl e \<Rightarrow> e = Undefined ''syscallActionLists''"
  using register_bounds [of "new_tracer \<lparr>heap = hw_init False False, procs = {}\<rparr>" 314 Files]
  by (simp add: new_tracer_def split: sum.splits)

section \<open>Entering and leaving\<close>

lemma run_list_phase:
  assumes "run_list os syscall pid regs l st = returns (ev, l', st')" and "syscall \<noteq> SYS_execve"
  shows "calling l' = (if pid \<in> calling l then calling l - {pid} else insert pid (calling l))"
    and "actionList l' = actionList l"
  using assms
  by (auto simp: run_list_def Let_def run_then_iff pl_contains_def pl_add_def pl_remove_def split: if_splits)

lemma execve_actions [simp]:
  "actionList (execve_entered pid regs l) = actionList l" "actionList (execve_spurious pid l) = actionList l"
  by (simp_all add: execve_entered_def execve_spurious_def Let_def)

lemma run_list_actions:
  "run_list os syscall pid regs l st = returns (ev, l', st') \<Longrightarrow> actionList l' = actionList l"
  by (auto simp: run_list_def Let_def run_then_iff split: if_splits)

text \<open>What a system call stop does to the lists.\<close>

lemma syscall_stop_lists:
  assumes "syscall_stop os pid regs t = returns (ev, t')" and "n < length (syscallActionLists t)"
    and "syscallActionLists t ! n = Some l" and "int n \<noteq> SYS_execve"
    and small: "length (syscallActionLists t) \<le> nbSyscallNames"
  shows "\<exists>l'. syscallActionLists t' ! n = Some l' \<and> actionList l' = actionList l \<and>
    (q \<in> calling l' \<longleftrightarrow> (q \<in> calling l) \<noteq> (q = pid \<and> sint (orig_eax regs) = int n))"
    and "length (syscallActionLists t') = length (syscallActionLists t)"
proof -
  let ?m = "sint (orig_eax regs)"
  have "(\<exists>l'. syscallActionLists t' ! n = Some l' \<and> actionList l' = actionList l \<and>
      (q \<in> calling l' \<longleftrightarrow> (q \<in> calling l) \<noteq> (q = pid \<and> ?m = int n))) \<and>
    length (syscallActionLists t') = length (syscallActionLists t)"
  proof (cases "?m < 0 \<or> int nbSyscallNames \<le> ?m")
    case True
    with assms(1) have "syscallActionLists t' = syscallActionLists t"
      by (auto simp: syscall_stop_def Let_def)
    moreover have "?m \<noteq> int n" using True assms(2) small by auto
    ultimately show ?thesis using assms(3) by simp
  next
    case False
    show ?thesis
    proof (cases "syscallActionLists t ! nat ?m")
      case None
      with False assms(1) have "syscallActionLists t' = syscallActionLists t"
        by (auto simp: syscall_stop_def Let_def)
      moreover have "?m \<noteq> int n" using None assms(3) by auto
      ultimately show ?thesis using assms(3) by simp
    next
      case (Some k)
      with False assms(1) obtain ev' k' st' where k': "run_list os ?m pid regs k (shared t) = returns (ev', k', st')"
        and t': "syscallActionLists t' = (syscallActionLists t)[nat ?m := Some k']"
        by (auto simp: syscall_stop_def Let_def run_then_iff)
      show ?thesis
      proof (cases "?m = int n")
        case True
        then have "k = l" "nat ?m = n" using Some assms(3) by auto
        with run_list_phase [OF k'] True assms(2,4) show ?thesis by (auto simp: t')
      next
        case other: False
        then have "nat ?m \<noteq> n" using False by auto
        with other assms(3) show ?thesis by (simp add: t')
      qed
    qed
  qed
  then show "\<exists>l'. syscallActionLists t' ! n = Some l' \<and> actionList l' = actionList l \<and>
    (q \<in> calling l' \<longleftrightarrow> (q \<in> calling l) \<noteq> (q = pid \<and> sint (orig_eax regs) = int n))"
    "length (syscallActionLists t') = length (syscallActionLists t)" by simp_all
qed


text \<open>The stops of a process at a system call, among the answers of wait4.\<close>

fun is_stop :: "nat \<Rightarrow> int \<Rightarrow> wait_answer \<Rightarrow> bool" where
  "is_stop n pid (Stopped q sig (Some regs) os) \<longleftrightarrow> sig = SIGTRAP \<and> q = pid \<and> sint (orig_eax regs) = int n"
| "is_stop n pid _ \<longleftrightarrow> False"

text \<open>
  Property C18: for every system call but execve, a process counts as inside the call exactly if the
  number of its stops at this call is odd, however the stops of the processes interleave.
\<close>

theorem phases_alternate:
  assumes "watchKernelCalls retry ws t = (ev, t', Waiting)"
    and "length (syscallActionLists t) = nbSyscallNames" and "n < nbSyscallNames" and "int n \<noteq> SYS_execve"
    and "syscallActionLists t ! n = Some l"
  shows "\<exists>l'. syscallActionLists t' ! n = Some l' \<and> actionList l' = actionList l \<and>
    (pid \<in> calling l' \<longleftrightarrow> (pid \<in> calling l) \<noteq> odd (length (filter (is_stop n pid) ws)))"
  using assms
proof (induction retry ws t arbitrary: ev l rule: watchKernelCalls.induct)
  case (7 retry q sig mregs os ws t)
  show ?case
  proof (cases "sig = SIGTRAP \<and> mregs \<noteq> None")
    case False
    then show ?thesis using 7 by (cases mregs) (auto split: if_splits prod.splits)
  next
    case True
    then obtain regs where m: "mregs = Some regs" "sig = SIGTRAP" by auto
    with "7.prems"(1) obtain ev1 t1 ev2 where s: "syscall_stop os q regs t = returns (ev1, t1)"
      and r: "watchKernelCalls 0 ws t1 = (ev2, t', Waiting)"
      by (auto simp: returns_def split: option.splits sum.splits prod.splits)
    from syscall_stop_lists(1) [OF s, of n l pid] syscall_stop_lists(2) [OF s, of n l] "7.prems" obtain l1
      where l1: "syscallActionLists t1 ! n = Some l1" "actionList l1 = actionList l"
        "pid \<in> calling l1 \<longleftrightarrow> (pid \<in> calling l) \<noteq> (pid = q \<and> sint (orig_eax regs) = int n)"
        "length (syscallActionLists t1) = nbSyscallNames" by auto
    have "\<exists>l'. syscallActionLists t' ! n = Some l' \<and> actionList l' = actionList l1 \<and>
        (pid \<in> calling l' \<longleftrightarrow> (pid \<in> calling l1) \<noteq> odd (length (filter (is_stop n pid) ws)))"
      using "7.IH"(3) [of regs "Inr (ev1, t1)" "(ev1, t1)" ev1 t1 ev2 l1] m s r l1 "7.prems" by (simp add: returns_def)
    with l1 m show ?thesis by auto
  qed
qed (auto split: if_splits prod.splits sum.splits)


definition open_stop :: wait_answer where
  "open_stop = Stopped 7 SIGTRAP (Some ((regs_of 0x8000 0 3)\<lparr>orig_eax := 5\<rparr>)) (memory_os [(0x8000, 0x0000612F)] 0)"

definition quiet_watch :: watch_state where
  "quiet_watch = \<lparr>heap = hw_init False False, procs = {}\<rparr>"

definition file_tracer :: "process_list \<Rightarrow> syscalls_tracer" where
  "file_tracer l = (new_tracer quiet_watch)\<lparr>syscallActionLists :=
     (replicate nbSyscallNames None)[5 := Some \<lparr>actionList = [Files], calling = l, execveData = []\<rparr>]\<rparr>"

lemma small_orig: "sint (orig_eax (regs\<lparr>orig_eax := 5\<rparr>)) = 5"
  by simp

lemma leave_open:
  "watchKernelCalls 0 [open_stop] (file_tracer {7}) = ([Continue 7 0], (file_tracer {})\<lparr>nbsyscalls := 1\<rparr>, Waiting)"
  by (simp add: open_stop_def file_tracer_def syscall_stop_def Let_def nbSyscallNames_def run_list_def
      SYS_defs pl_contains_def pl_remove_def run_action_def file_action_def new_tracer_def returns_def)

lemma phases_alternate_witness:
  "\<exists>l'. syscallActionLists (file_tracer {}) ! 5 = Some l' \<and> 7 \<notin> calling l'"
proof -
  have "\<exists>l'. syscallActionLists ((file_tracer {})\<lparr>nbsyscalls := 1\<rparr>) ! 5 = Some l' \<and> actionList l' = [Files] \<and>
      (7 \<in> calling l' \<longleftrightarrow> (7 \<in> calling \<lparr>actionList = [Files], calling = {7}, execveData = []\<rparr>) \<noteq>
         odd (length (filter (is_stop 5 7) [open_stop])))"
    using phases_alternate [OF leave_open, of 5 "\<lparr>actionList = [Files], calling = {7}, execveData = []\<rparr>" 7]
    by (simp add: file_tracer_def new_tracer_def nbSyscallNames_def SYS_defs)
  then have "\<exists>l'. syscallActionLists (file_tracer {}) ! 5 = Some l' \<and> actionList l' = [Files] \<and> 7 \<notin> calling l'"
    by (simp add: open_stop_def small_orig)
  then show ?thesis by blast
qed

section \<open>Every stop is continued\<close>

fun continued :: "trace_event list \<Rightarrow> (int \<times> int) list" where
  "continued [] = []"
| "continued (Continue pid sig # ev) = (pid, sig) # continued ev"
| "continued (_ # ev) = continued ev"

lemma continued_append [simp]: "continued (ev @ ev') = continued ev @ continued ev'"
  by (induction ev rule: continued.induct) simp_all

lemma continued_Quota [simp]: "continued (map Quota calls) = []"
  by (induction calls) simp_all

lemma network_continues: "network_action os entering pid regs = Inr ev \<Longrightarrow> continued ev = []"
  by (auto simp: network_action_def Let_def and_then_Inr split: if_splits)

lemma file_continues: "file_action os entering pid regs = Some ev \<Longrightarrow> continued ev = []"
  by (auto simp: file_action_def split: if_splits)

lemma process_continues: "process_action os syscall entering pid regs l = Some (ev, r) \<Longrightarrow> continued ev = []"
  by (auto simp: process_action_def process_entering_def process_leaving_clone_def Let_def split: if_splits)

lemma lift_option_returns: "lift_option m = returns x \<longleftrightarrow> m = Some x"
  by (cases m) auto

lemma Some_returns: "Some m = returns x \<longleftrightarrow> m = Inr x"
  by (simp add: returns_def)

lemma run_action_continues:
  assumes "run_action os syscall entering pid a regs st = returns (ev, regs', st')"
  shows "continued ev = []"
  using assms
  by (cases a) (auto simp: run_action_def run_then_iff lift_option_returns Some_returns
      dest: network_continues file_continues process_continues split: prod.splits)

lemma run_actions_continues:
  "run_actions os syscall entering pid as regs st = returns (ev, regs', st') \<Longrightarrow> continued ev = []"
  by (induction as arbitrary: regs st ev) (auto simp: run_then_iff dest: run_action_continues)

lemma syscall_stop_continues:
  assumes "syscall_stop os pid regs t = returns (ev, t')"
  shows "continued ev = [(pid, 0)]"
proof -
  have "run_list os n pid regs l st = returns (ev, l', st') \<Longrightarrow> continued ev = []" for n l st ev l' st'
    by (auto simp: run_list_def Let_def run_then_iff dest: run_actions_continues split: if_splits)
  with assms show ?thesis
    by (auto simp: syscall_stop_def Let_def run_then_iff split: if_splits option.splits)
qed

fun continuation :: "wait_answer \<Rightarrow> (int \<times> int) list" where
  "continuation (Stopped pid sig mregs os) =
     (if sig \<noteq> SIGTRAP then [(pid, sig)] else if mregs = None then [] else [(pid, 0)])"
| "continuation _ = []"

text \<open>
  Property C23: while the loop goes on, each stop is answered once and in order: a signal is passed
  on, a system call stop continues without one. Only a process whose registers cannot be read
  stays stopped.
\<close>

theorem stops_are_continued:
  assumes "watchKernelCalls retry ws t = (ev, t', Waiting)"
  shows "continued ev = concat (map continuation ws)"
  using assms
proof (induction retry ws t arbitrary: ev rule: watchKernelCalls.induct)
  case (7 retry q sig mregs os ws t)
  show ?case
  proof (cases "sig = SIGTRAP \<and> mregs \<noteq> None")
    case False
    then show ?thesis using 7 by (cases mregs) (auto split: if_splits prod.splits)
  next
    case True
    then obtain regs where m: "mregs = Some regs" "sig = SIGTRAP" by auto
    with "7.prems"(1) obtain ev1 t1 ev2 where s: "syscall_stop os q regs t = returns (ev1, t1)"
      and r: "watchKernelCalls 0 ws t1 = (ev2, t', Waiting)" and ev: "ev = ev1 @ ev2"
      by (auto simp: returns_def split: option.splits sum.splits prod.splits)
    have "continued ev2 = concat (map continuation ws)"
      using "7.IH"(3) [of regs "Inr (ev1, t1)" "(ev1, t1)" ev1 t1 ev2] m s r by (simp add: returns_def)
    with syscall_stop_continues [OF s] m ev show ?thesis by simp
  qed
qed (auto split: if_splits prod.splits sum.splits)

lemma stops_are_continued_witness: "continued [Continue 7 0] = concat (map continuation [open_stop])"
  by (rule stops_are_continued [OF leave_open])

text \<open>
  Up to three interruptions of one wait are retried, the fourth ends the tracing with
  an exception.
\<close>

theorem four_interrupts:
  "watchKernelCalls 0 (replicate n Interrupted @ [No_child]) t =
     ([], t, if n \<le> 3 then Returned
             else Failed (Runtime_error ''wait4 on traced child failedInterrupted system call''))"
proof -
  have more: "k \<le> 3 \<Longrightarrow> watchKernelCalls k (replicate n Interrupted @ [No_child]) t =
     ([], t, if n + k \<le> 3 then Returned
             else Failed (Runtime_error ''wait4 on traced child failedInterrupted system call''))" for k
    by (induction n arbitrary: k) (auto simp: strerror_EINTR_def)
  show ?thesis using more [of 0] by simp
qed


section \<open>Calls that do not return\<close>

text \<open>
  exit and exit_group are entered and never left. The heap watcher discounts a process only when
  they are left.
\<close>

definition same_accounts :: "heap_watcher \<Rightarrow> heap_watcher \<Rightarrow> bool" where
  "same_accounts w w' \<longleftrightarrow> wf_map (hw_data w') \<and> cumulatedSize w' = cumulatedSize w \<and>
     globalMemIncr w' = globalMemIncr w \<and> (\<forall>k. proc_of k w' = proc_of k w)"

lemma heap_entering:
  "wf_map (hw_data w) \<Longrightarrow> heap_action os syscall True pid regs w = (calls, w') \<Longrightarrow> same_accounts w w'"
  by (auto simp: heap_action_def Let_def same_accounts_def proc_of_set wf_put)

lemma run_action_entering:
  assumes "run_action os syscall True pid a regs st = returns (ev, regs', st')" and "wf_map (hw_data (heap st))"
  shows "same_accounts (heap st) (heap st')"
proof (cases a)
  case Heap_size
  then show ?thesis using assms heap_entering [OF assms(2), of os syscall pid regs]
    by (auto simp: run_action_def split: prod.splits)
qed (use assms in \<open>auto simp: run_action_def run_then_iff same_accounts_def split: prod.splits\<close>)

lemma run_actions_entering:
  assumes "run_actions os syscall True pid as regs st = returns (ev, regs', st')" and "wf_map (hw_data (heap st))"
  shows "same_accounts (heap st) (heap st')"
  using assms
proof (induction as arbitrary: regs st ev)
  case Nil
  then show ?case by (auto simp: same_accounts_def)
next
  case (Cons a as)
  from Cons.prems(1) obtain e1 r1 s1 e2 where a: "run_action os syscall True pid a regs st = returns (e1, r1, s1)"
    and rest: "run_actions os syscall True pid as r1 s1 = returns (e2, regs', st')"
    by (auto simp: run_then_iff)
  from run_action_entering [OF a Cons.prems(2)] Cons.IH [OF rest] show ?case
    by (auto simp: same_accounts_def)
qed

text \<open>
  The one stop that an exit makes changes nothing in the accounts of the heap
  watcher: the size and the increment of a process that ended stay in the sums, and its number
  counts as inside the call from then on.
\<close>

theorem exit_not_discounted:
  assumes "run_list os syscall pid regs l st = returns (ev, l', st')" and "pid \<notin> calling l"
    and "syscall = SYS_exit \<or> syscall = SYS_exit_group" and "wf_map (hw_data (heap st))"
  shows "cumulatedSize (heap st') = cumulatedSize (heap st) \<and> globalMemIncr (heap st') = globalMemIncr (heap st) \<and>
    (\<forall>k. proc_of k (heap st') = proc_of k (heap st)) \<and> pid \<in> calling l'"
proof -
  have "syscall \<noteq> SYS_execve" using assms(3) by (auto simp: SYS_defs)
  with assms(1,2) obtain ev1 r1 where "run_actions os syscall True pid (actionList l) regs st = returns (ev1, r1, st')"
    by (auto simp: run_list_def Let_def run_then_iff pl_contains_def)
  then have "same_accounts (heap st) (heap st')" using assms(4) by (rule run_actions_entering)
  moreover have "pid \<in> calling l'"
    using run_list_phase(1) [OF assms(1) \<open>syscall \<noteq> SYS_execve\<close>] assms(2) by simp
  ultimately show ?thesis by (simp add: same_accounts_def)
qed

lemma exit_not_discounted_witness:
  "case run_list (memory_os [] 0) SYS_exit 7 (regs_of 0 0 0) (addAction Heap_size no_actions) quiet_watch of
     Some (Inr (ev, l', st')) \<Rightarrow> cumulatedSize (heap st') = cumulatedSize (heap quiet_watch) \<and> 7 \<in> calling l'
   | _ \<Rightarrow> False"
proof -
  obtain ev l' st' where r: "run_list (memory_os [] 0) SYS_exit 7 (regs_of 0 0 0) (addAction Heap_size no_actions) quiet_watch =
      returns (ev, l', st')"
    by (cases "heap_action (memory_os [] 0) SYS_exit True 7 (regs_of 0 0 0) (heap quiet_watch)")
      (auto simp: run_list_def Let_def addAction_def no_actions_def pl_contains_def run_action_def SYS_defs returns_def)
  have "cumulatedSize (heap st') = cumulatedSize (heap quiet_watch) \<and> 7 \<in> calling l'"
    using exit_not_discounted [OF r]
    by (simp add: addAction_def no_actions_def SYS_defs quiet_watch_def hw_init_def)
  then show ?thesis by (simp add: r returns_def)
qed

section \<open>execve\<close>

text \<open>Stops of one process at execve, one after the other.\<close>

fun execve_stops :: "int \<Rightarrow> (tracer_os \<times> regs) list \<Rightarrow> action_list \<Rightarrow> watch_state \<Rightarrow>
    (trace_event list \<times> action_list \<times> watch_state) run" where
  "execve_stops pid [] l st = returns ([], l, st)"
| "execve_stops pid ((os, regs) # stops) l st =
     run_then (run_list os SYS_execve pid regs l st) (\<lambda>(ev, l, st).
     run_then (execve_stops pid stops l st) (\<lambda>(ev', l, st). returns (ev @ ev', l, st)))"

lemma execve_of_put: "wf_map (execveData l) \<Longrightarrow> execveData l' = map_put pid i (execveData l) \<Longrightarrow> execve_of pid l' = i"
  by (simp add: execve_of_def sm.lookup_insert)

lemma execve_of_erase: "execveData l' = map_erase pid (execveData l) \<Longrightarrow> execve_of pid l' = ExecveInfo"
  by (simp add: execve_of_def find_erase)

text \<open>A process inside an execve whose origin is forgotten stays there.\<close>

definition stuck :: "int \<Rightarrow> action_list \<Rightarrow> bool" where
  "stuck pid l \<longleftrightarrow> pid \<in> calling l \<and> wf_map (execveData l) \<and> called_from (execve_of pid l) = 0"

lemma spurious_stuck: "stuck pid l \<Longrightarrow> stuck pid (execve_spurious pid l)"
  by (auto simp: stuck_def execve_spurious_def Let_def wf_put wf_erase execve_of_erase ExecveInfo_def execve_of_put)

lemma stuck_ignored:
  "stuck pid l \<Longrightarrow> \<forall>(os, regs) \<in> set stops. eip regs \<noteq> 0 \<Longrightarrow>
   \<exists>l'. execve_stops pid stops l st = returns ([], l', st)"
proof (induction stops arbitrary: l)
  case (Cons x stops)
  obtain os regs where x: "x = (os, regs)" by (cases x)
  have "run_list os SYS_execve pid regs l st = returns ([], execve_spurious pid l, st)"
    using Cons.prems by (auto simp: run_list_def Let_def stuck_def pl_contains_def x)
  moreover obtain l' where "execve_stops pid stops (execve_spurious pid l) st = returns ([], l', st)"
    using Cons.IH [OF spurious_stuck [OF Cons.prems(1)]] Cons.prems(2) by auto
  ultimately show ?case by (simp add: x)
qed simp

text \<open>
  When an execve succeeds, the process stops twice at another place than it called
  from; from then on none of its calls of execve is reported, nor any other stop there.
\<close>

theorem later_execve_unreported:
  assumes "run_list os0 SYS_execve pid r0 l st = returns (ev, l1, st1)" and "pid \<notin> calling l"
    and "execve_of pid l = ExecveInfo" and "wf_map (execveData l)"
    and "eip r1 \<noteq> eip r0" and "eip r2 \<noteq> eip r0" and "\<forall>(os, regs) \<in> set stops. eip regs \<noteq> 0"
  shows "\<exists>l2. execve_stops pid ((os1, r1) # (os2, r2) # stops) l1 st1 = returns ([], l2, st1)"
proof -
  from assms(1,2) have l1: "calling l1 = insert pid (calling l)"
    "execveData l1 = map_put pid (ExecveInfo\<lparr>called_from := eip r0\<rparr>) (execveData l)"
    by (auto simp: run_list_def Let_def run_then_iff pl_contains_def pl_add_def execve_entered_def assms(3))
  then have of1: "execve_of pid l1 = ExecveInfo\<lparr>called_from := eip r0\<rparr>" and wf1: "wf_map (execveData l1)"
    using assms(4) by (simp_all add: execve_of_put wf_put)
  define l2 where "l2 = execve_spurious pid l1"
  have d2: "execveData l2 = map_put pid (ExecveInfo\<lparr>called_from := eip r0, spurious := 1\<rparr>) (execveData l1)"
    "calling l2 = calling l1"
    by (simp_all add: l2_def execve_spurious_def Let_def of1 ExecveInfo_def)
  have of2: "execve_of pid l2 = ExecveInfo\<lparr>called_from := eip r0, spurious := 1\<rparr>" and wf2: "wf_map (execveData l2)"
    using wf1 d2 by (simp_all add: execve_of_put wf_put)
  have "execve_of pid (execve_spurious pid l2) = ExecveInfo"
    by (rule execve_of_erase [of _ _ l2]) (simp add: execve_spurious_def Let_def of2)
  then have "stuck pid (execve_spurious pid l2)"
    using wf2 by (simp add: stuck_def execve_spurious_def Let_def of2 d2 l1 wf_erase ExecveInfo_def)
  then obtain l3 where "execve_stops pid stops (execve_spurious pid l2) st1 = returns ([], l3, st1)"
    using stuck_ignored [OF _ assms(7)] by blast
  moreover have "run_list os1 SYS_execve pid r1 l1 st1 = returns ([], l2, st1)"
    using assms(5) by (simp add: run_list_def Let_def pl_contains_def l1 of1 l2_def)
  moreover have "run_list os2 SYS_execve pid r2 l2 st1 = returns ([], execve_spurious pid l2, st1)"
    using assms(6) by (simp add: run_list_def Let_def pl_contains_def d2 l1 of2)
  ultimately show ?thesis by simp
qed


definition at_eip :: "i32 \<Rightarrow> regs" where
  "at_eip e = (regs_of 0x8000 0 0)\<lparr>orig_eax := 11, eip := e\<rparr>"

lemma later_execve_unreported_witness:
  "\<exists>l1 st1 l2. execve_stops 7 [(quiet_os, at_eip 50), (quiet_os, at_eip 50), (quiet_os, at_eip 90), (quiet_os, at_eip 90)] l1 st1 =
     returns ([], l2, st1) \<and> l1 = \<lparr>actionList = [], calling = {7}, execveData = [(7, \<lparr>called_from = 10, spurious = 0\<rparr>)]\<rparr>"
proof -
  have first: "run_list quiet_os SYS_execve 7 (at_eip 10) no_actions quiet_watch = returns ([],
      \<lparr>actionList = [], calling = {7}, execveData = [(7, \<lparr>called_from = 10, spurious = 0\<rparr>)]\<rparr>, quiet_watch)"
    by (simp add: run_list_def Let_def no_actions_def pl_contains_def pl_add_def execve_entered_def execve_of_def
        ExecveInfo_def at_eip_def)
  have "\<exists>l2. execve_stops 7 ((quiet_os, at_eip 50) # (quiet_os, at_eip 50) # [(quiet_os, at_eip 90), (quiet_os, at_eip 90)])
      \<lparr>actionList = [], calling = {7}, execveData = [(7, \<lparr>called_from = 10, spurious = 0\<rparr>)]\<rparr> quiet_watch =
      returns ([], l2, quiet_watch)"
    by (rule later_execve_unreported [OF first]) (simp_all add: no_actions_def execve_of_def at_eip_def)
  then show ?thesis by blast
qed

end
