(* ===== verification/Syscall_Names.thy ===== *)
theory Syscall_Names
  imports Syscall_Tracer
begin

text \<open>
  SyscallNames.cc of runsolver-3.3.4-patched, the names of the system calls by their numbers, and
  CreateSyscallsNames.cc, the program that writes this file and SyscallNames.hh.
\<close>

section \<open>The table\<close>

definition syscallNames :: "string list" where
  "syscallNames =
    [''read'', ''write'', ''open'', ''close'', ''stat'', ''fstat'', ''lstat'', ''poll'', ''lseek'',
     ''mmap'', ''mprotect'', ''munmap'', ''brk'', ''rt_sigaction'', ''rt_sigprocmask'', ''rt_sigreturn'',
     ''ioctl'', ''pread64'', ''pwrite64'', ''readv'', ''writev'', ''access'', ''pipe'', ''select'',
     ''sched_yield'', ''mremap'', ''msync'', ''mincore'', ''madvise'', ''shmget'', ''shmat'', ''shmctl'',
     ''dup'', ''dup2'', ''pause'', ''nanosleep'', ''getitimer'', ''alarm'', ''setitimer'', ''getpid'',
     ''sendfile'', ''socket'', ''connect'', ''accept'', ''sendto'', ''recvfrom'', ''sendmsg'', ''recvmsg'',
     ''shutdown'', ''bind'', ''listen'', ''getsockname'', ''getpeername'', ''socketpair'', ''setsockopt'',
     ''getsockopt'', ''clone'', ''fork'', ''vfork'', ''execve'', ''exit'', ''wait4'', ''kill'', ''uname'',
     ''semget'', ''semop'', ''semctl'', ''shmdt'', ''msgget'', ''msgsnd'', ''msgrcv'', ''msgctl'',
     ''fcntl'', ''flock'', ''fsync'', ''fdatasync'', ''truncate'', ''ftruncate'', ''getdents'', ''getcwd'',
     ''chdir'', ''fchdir'', ''rename'', ''mkdir'', ''rmdir'', ''creat'', ''link'', ''unlink'', ''symlink'',
     ''readlink'', ''chmod'', ''fchmod'', ''chown'', ''fchown'', ''lchown'', ''umask'', ''gettimeofday'',
     ''getrlimit'', ''getrusage'', ''sysinfo'', ''times'', ''ptrace'', ''getuid'', ''syslog'', ''getgid'',
     ''setuid'', ''setgid'', ''geteuid'', ''getegid'', ''setpgid'', ''getppid'', ''getpgrp'', ''setsid'',
     ''setreuid'', ''setregid'', ''getgroups'', ''setgroups'', ''setresuid'', ''getresuid'', ''setresgid'',
     ''getresgid'', ''getpgid'', ''setfsuid'', ''setfsgid'', ''getsid'', ''capget'', ''capset'',
     ''rt_sigpending'', ''rt_sigtimedwait'', ''rt_sigqueueinfo'', ''rt_sigsuspend'', ''sigaltstack'',
     ''utime'', ''mknod'', ''uselib'', ''personality'', ''ustat'', ''statfs'', ''fstatfs'', ''sysfs'',
     ''getpriority'', ''setpriority'', ''sched_setparam'', ''sched_getparam'', ''sched_setscheduler'',
     ''sched_getscheduler'', ''sched_get_priority_max'', ''sched_get_priority_min'',
     ''sched_rr_get_interval'', ''mlock'', ''munlock'', ''mlockall'', ''munlockall'', ''vhangup'',
     ''modify_ldt'', ''pivot_root'', ''_sysctl'', ''prctl'', ''arch_prctl'', ''adjtimex'', ''setrlimit'',
     ''chroot'', ''sync'', ''acct'', ''settimeofday'', ''mount'', ''umount2'', ''swapon'', ''swapoff'',
     ''reboot'', ''sethostname'', ''setdomainname'', ''iopl'', ''ioperm'', ''create_module'',
     ''init_module'', ''delete_module'', ''get_kernel_syms'', ''query_module'', ''quotactl'',
     ''nfsservctl'', ''getpmsg'', ''putpmsg'', ''afs_syscall'', ''tuxcall'', ''security'', ''gettid'',
     ''readahead'', ''setxattr'', ''lsetxattr'', ''fsetxattr'', ''getxattr'', ''lgetxattr'', ''fgetxattr'',
     ''listxattr'', ''llistxattr'', ''flistxattr'', ''removexattr'', ''lremovexattr'', ''fremovexattr'',
     ''tkill'', ''time'', ''futex'', ''sched_setaffinity'', ''sched_getaffinity'', ''set_thread_area'',
     ''io_setup'', ''io_destroy'', ''io_getevents'', ''io_submit'', ''io_cancel'', ''get_thread_area'',
     ''lookup_dcookie'', ''epoll_create'', ''epoll_ctl_old'', ''epoll_wait_old'', ''remap_file_pages'',
     ''getdents64'', ''set_tid_address'', ''restart_syscall'', ''semtimedop'', ''fadvise64'',
     ''timer_create'', ''timer_settime'', ''timer_gettime'', ''timer_getoverrun'', ''timer_delete'',
     ''clock_settime'', ''clock_gettime'', ''clock_getres'', ''clock_nanosleep'', ''exit_group'',
     ''epoll_wait'', ''epoll_ctl'', ''tgkill'', ''utimes'', ''vserver'', ''mbind'', ''set_mempolicy'',
     ''get_mempolicy'', ''mq_open'', ''mq_unlink'', ''mq_timedsend'', ''mq_timedreceive'', ''mq_notify'',
     ''mq_getsetattr'', ''kexec_load'', ''waitid'', ''add_key'', ''request_key'', ''keyctl'',
     ''ioprio_set'', ''ioprio_get'', ''inotify_init'', ''inotify_add_watch'', ''inotify_rm_watch'',
     ''migrate_pages'', ''openat'', ''mkdirat'', ''mknodat'', ''fchownat'', ''futimesat'', ''newfstatat'',
     ''unlinkat'', ''renameat'', ''linkat'', ''symlinkat'', ''readlinkat'', ''fchmodat'', ''faccessat'',
     ''pselect6'', ''ppoll'', ''unshare'', ''set_robust_list'', ''get_robust_list'', ''splice'', ''tee'',
     ''sync_file_range'', ''vmsplice'', ''move_pages'', ''utimensat'', ''epoll_pwait'', ''signalfd'',
     ''timerfd_create'', ''eventfd'', ''fallocate'', ''timerfd_settime'', ''timerfd_gettime'', ''accept4'',
     ''signalfd4'', ''eventfd2'', ''epoll_create1'', ''dup3'', ''pipe2'', ''inotify_init1'', ''preadv'',
     ''pwritev'', ''rt_tgsigqueueinfo'', ''perf_event_open'', ''recvmmsg'', ''fanotify_init'',
     ''fanotify_mark'', ''prlimit64'', ''name_to_handle_at'', ''open_by_handle_at'', ''clock_adjtime'',
     ''syncfs'', ''sendmmsg'', ''setns'', ''getcpu'', ''process_vm_readv'', ''process_vm_writev'',
     ''kcmp'', ''finit_module'']"

text \<open>The look-up in the table that has the given names; its last index passes the guard.\<close>

definition name_at :: "string list \<Rightarrow> int \<Rightarrow> string result" where
  "name_at names n =
     (if 0 < n \<and> n \<le> int (length names) then
        if n < int (length names) then Inr (names ! nat n) else Inl (Undefined ''syscallNames'')
      else Inr ''???'')"

definition getSyscallName :: "int \<Rightarrow> string result" where
  "getSyscallName = name_at syscallNames"

section \<open>The generator\<close>

text \<open>
  The numbers and names are put into the map \<open>list\<close> by a file that is made of the headers of the
  system; here it is an argument.
\<close>

definition highest :: "(int, string) std_map \<Rightarrow> int" where
  "highest l = fold (\<lambda>(i, _) m. if m < i then i else m) l 0"

definition generated_names :: "(int, string) std_map \<Rightarrow> string list" where
  "generated_names l = map (\<lambda>i. case map_find l i of None \<Rightarrow> ''???'' | Some n \<Rightarrow> n) [0..highest l]"

definition header_file :: "(int, string) std_map \<Rightarrow> string" where
  "header_file l =
     ''#ifndef _SyscallNames_hh_'' @ endl @ ''#define _SyscallNames_hh_'' @ endl @ endl @
     ''const int nbSyscallNames='' @ dec_int (highest l + 1) @ '';'' @ endl @ endl @
     ''const char *getSyscallName(int n);'' @ endl @ endl @ ''#endif'' @ endl"

definition quoted :: "string \<Rightarrow> string" where
  "quoted s = ''\"'' @ s @ ''\"''"

definition source_file :: "(int, string) std_map \<Rightarrow> string" where
  "source_file l =
     (let names = generated_names l in
      ''#include \"SyscallNames.hh\"'' @ [newline, newline] @
      ''const char *syscallNames[nbSyscallNames]={'' @ [newline] @
      concat (map (\<lambda>i. [tab] @ quoted (names ! i) @ (if i = length names - 1 then [] else '','') @ [newline])
        [0..<length names]) @
      ''};'' @ [newline, newline] @
      ''const char *getSyscallName(int n)'' @ [newline] @ ''{'' @ [newline] @
      ''  if (n>0 && n<=nbSyscallNames)'' @ [newline] @ ''    return syscallNames[n];'' @ [newline] @
      ''  else'' @ [newline] @ ''    return \"???\";'' @ [newline] @ ''}'' @ [newline])"

section \<open>Properties\<close>

lemma highest_bounds: "\<forall>(i, n)\<in>set l. i \<le> highest l" "0 \<le> highest l"
proof -
  have "m \<le> fold (\<lambda>(i, _) m. if m < i then i else m) l m \<and>
      (\<forall>(i, n)\<in>set l. i \<le> fold (\<lambda>(i, _) m. if m < i then i else m) l m)" for m
  proof (induction l arbitrary: m)
    case (Cons x l)
    from Cons.IH [of "if m < fst x then fst x else m"] show ?case by (cases x) (auto split: if_splits)
  qed simp
  from this [of 0] show "\<forall>(i, n)\<in>set l. i \<le> highest l" "0 \<le> highest l" by (auto simp: highest_def)
qed

lemma highest_listed: "highest l = 0 \<or> highest l \<in> fst ` set l"
proof -
  have "fold (\<lambda>(i, _) m. if m < i then i else m) l m = m \<or>
      fold (\<lambda>(i, _) m. if m < i then i else m) l m \<in> fst ` set l" for m
  proof (induction l arbitrary: m)
    case (Cons x l)
    from Cons.IH [of "if m < fst x then fst x else m"] show ?case by (cases x) (auto split: if_splits)
  qed simp
  from this [of 0] show ?thesis by (simp add: highest_def)
qed

lemma length_generated: "length (generated_names l) = nat (highest l + 1)"
  by (simp add: generated_names_def)

lemma generated_nth:
  "0 \<le> i \<Longrightarrow> i \<le> highest l \<Longrightarrow>
    generated_names l ! nat i = (case map_find l i of None \<Rightarrow> ''???'' | Some n \<Rightarrow> n)"
  by (simp add: generated_names_def nth_upto)

text \<open>
  The generated look-up gives every listed number but 0 its name, and every other number
  in between three question marks; it never finds the number 0, and for the number after the
  last it reads behind the table.
\<close>

theorem generated_lookup:
  "name_at (generated_names l) i =
     (if i = highest l + 1 then Inl (Undefined ''syscallNames'')
      else if i = 0 then Inr ''???''
      else Inr (case map_find l i of None \<Rightarrow> ''???'' | Some n \<Rightarrow> if i < 0 then ''???'' else n))"
proof -
  have "map_find l i = None" if "highest l + 1 < i"
    using that highest_bounds(1) [of l] by (force simp: map_find_def map_of_eq_None_iff)
  then show ?thesis
    using highest_bounds(2) [of l] by (auto simp: name_at_def length_generated generated_nth split: option.split)
qed

text \<open>
  Every table, read as a list of numbers and names, is generated again; the header then
  declares as many names as there are.
\<close>

definition numbered :: "string list \<Rightarrow> (int, string) std_map" where
  "numbered names = zip (map int [0..<length names]) names"

theorem table_round_trip:
  assumes "names \<noteq> []"
  shows "generated_names (numbered names) = names \<and> highest (numbered names) + 1 = int (length names)"
proof
  have keys: "fst ` set (numbered names) = {0..<int (length names)}"
    by (simp add: numbered_def flip: set_map) (simp add: image_int_atLeastLessThan)
  have "int (length names - 1) \<in> fst ` set (numbered names)" using assms unfolding keys by simp
  then have "int (length names - 1) \<le> highest (numbered names)"
    using highest_bounds(1) [of "numbered names"] by auto
  moreover have "highest (numbered names) < int (length names)"
    using highest_listed [of "numbered names"] assms unfolding keys by auto
  ultimately show h: "highest (numbered names) + 1 = int (length names)" using assms by linarith
  have "map_find (numbered names) (int k) = Some (names ! k)" if "k < length names" for k
  proof -
    have "map_of (zip (map int [0..<length names]) names) (map int [0..<length names] ! k) = Some (names ! k)"
      using that by (intro map_of_zip_nth) (simp_all add: distinct_map)
    with that show ?thesis by (simp add: map_find_def numbered_def)
  qed
  then show "generated_names (numbered names) = names"
    using generated_nth [of "int k" "numbered names" for k] h
    by (intro nth_equalityI) (simp_all add: length_generated)
qed

theorem table_round_trip_witness:
  "generated_names (numbered syscallNames) = syscallNames \<and> highest (numbered syscallNames) + 1 = int nbSyscallNames"
proof -
  have "length syscallNames = nbSyscallNames" by (simp add: syscallNames_def nbSyscallNames_def)
  moreover have "syscallNames \<noteq> []" by (simp add: syscallNames_def)
  ultimately show ?thesis using table_round_trip by simp
qed

text \<open>
  The table in the repository has the numbers of 64-bit systems, the tracer the registers and
  numbers of 32-bit systems: messages about open, execve and connections name other calls.
\<close>

theorem names_of_other_numbers:
  "getSyscallName SYS_open = Inr ''fstat'' \<and> getSyscallName SYS_execve = Inr ''munmap'' \<and>
   getSyscallName SYS_socketcall = Inr ''getuid''"
  by (simp add: getSyscallName_def name_at_def syscallNames_def SYS_defs)

end
