(* ===== verification/Rooted_Tree.thy ===== *)
theory Rooted_Tree
  imports Process_Tree
begin

text \<open>
  ProcessTree.hh and the part of ProcessData.hh that differs, of runsolver-3.3.4-patched: a tree
  has one root, the process that runsolver started, and its map may hold null pointers, which
  operator[] adds. The operations are compared with those of version 3.4.0.
\<close>

section \<open>One process\<close>

text \<open>
  read: an incomplete stat file makes the object invalid, but read goes on and returns true;
  there is no status file. The copy does not take over the process group, the start time and the
  lines of the files.
\<close>

definition read_stat_334 :: "'a procfs_scheme \<Rightarrow> process_data \<Rightarrow> process_data \<times> bool" where
  "read_stat_334 os pd =
     (case proc_stat os (pd_pid pd) (pd_tid pd) of
        None \<Rightarrow> (pd\<lparr>statLine := ''-- couldn't open stat file --''\<rparr>, False)
      | Some f \<Rightarrow>
          let pd = pd\<lparr>pd_uid := sf_uid f, pd_gid := sf_gid f\<rparr> in
          (case fgets 1024 (sf_text f) of
             None \<Rightarrow> (pd\<lparr>statLine := ''-- couldn't read stat file --''\<rparr>, False)
           | Some l \<Rightarrow> let (pd, nbFields) = scan_stat (pd\<lparr>statLine := l\<rparr>) in (pd\<lparr>pd_valid := (nbFields = 8)\<rparr>, True)))"

definition pd_read_334 :: "'a procfs_scheme \<Rightarrow> int \<Rightarrow> int \<Rightarrow> process_data \<Rightarrow> process_data \<times> bool" where
  "pd_read_334 os pid tid pd =
     (let (pd, ok) = read_stat_334 os (pd\<lparr>pd_pid := pid, pd_tid := tid\<rparr>);
          (pd, ok) = (if ok \<and> tid = 0 then read_statm os pd else (pd, ok))
      in if ok then (read_allocated os pd, True) else (pd, False))"

definition pd_create_334 :: "'a procfs_scheme \<Rightarrow> int \<Rightarrow> int \<Rightarrow> process_data \<Rightarrow> process_data" where
  "pd_create_334 os pid tid raw = fst (pd_read_334 os pid tid (pd_construct raw))"

definition pd_copy_334 :: "process_data \<Rightarrow> process_data \<Rightarrow> process_data" where
  "pd_copy_334 raw pd = raw\<lparr>pd_uid := pd_uid pd, pd_gid := pd_gid pd, pd_pid := pd_pid pd,
     pd_tid := pd_tid pd, pd_ppid := pd_ppid pd, utime := utime pd, stime := stime pd,
     cutime := cutime pd, cstime := cstime pd, vsize := vsize pd, children := children pd,
     allocatedCores := []\<rparr>"

definition pd_print_334 :: "u64 \<Rightarrow> bool \<Rightarrow> process_data \<Rightarrow> string" where
  "pd_print_334 ticks is_cout pd =
     ''[pid='' @ dec_int (pd_pid pd) @
     (if pd_tid pd \<noteq> 0 then ''/tid='' @ dec_int (pd_tid pd) else []) @
     ''] ppid='' @ dec_int (pd_ppid pd) @ '' vsize='' @ dec_nat (unat (vsize pd div 1024)) @
     '' CPUtime='' @ ostream_float (getOverallCPUTime ticks pd) @
     '' cores='' @ pd_printAllocatedCores is_cout pd @ endl @
     (if pd_tid pd \<noteq> 0
      then ''/proc/'' @ dec_int (pd_pid pd) @ ''/task/'' @ dec_int (pd_tid pd) @ ''/stat : '' @ statLine pd
      else ''/proc/'' @ dec_int (pd_pid pd) @ ''/stat : '' @ statLine pd) @
     (if pd_tid pd = 0 then ''/proc/'' @ dec_int (pd_pid pd) @ ''/statm: '' @ statmLine pd else [])"

section \<open>State\<close>

text \<open>The map holds pointers: None is the null pointer.\<close>

record rooted_tree =
  rt_tree :: "(int, process_data option) std_map"
  currentRootPID :: int
  rt_loadavgLine :: string
  rt_memTotal :: int
  rt_memFree :: int
  rt_swapTotal :: int
  rt_swapFree :: int
  rt_elapsed :: rat
  rt_uptime :: rat
  rt_treeHasAllProcesses :: bool
  solverProcessGroups :: "int set"
  runsolverGroupId :: int

definition entry :: "rooted_tree \<Rightarrow> int \<Rightarrow> process_data option" where
  "entry t pid = (case map_find (rt_tree t) pid of Some (Some d) \<Rightarrow> Some d | _ \<Rightarrow> None)"

definition touch_entry :: "int \<Rightarrow> rooted_tree \<Rightarrow> rooted_tree" where
  "touch_entry pid t = (if map_find (rt_tree t) pid = None then t\<lparr>rt_tree := map_put pid None (rt_tree t)\<rparr> else t)"

definition set_entry :: "int \<Rightarrow> process_data \<Rightarrow> rooted_tree \<Rightarrow> rooted_tree" where
  "set_entry pid d t = t\<lparr>rt_tree := map_put pid (Some d) (rt_tree t)\<rparr>"

definition adjust_entry :: "int \<Rightarrow> (process_data \<Rightarrow> process_data) \<Rightarrow> rooted_tree \<Rightarrow> rooted_tree" where
  "adjust_entry pid f t = t\<lparr>rt_tree := map_adjust pid (map_option f) (rt_tree t)\<rparr>"

text \<open>The objects in memory \<open>raw\<close>; \<open>own\<close> is the process group of runsolver.\<close>

definition rt_construct :: "int \<Rightarrow> rooted_tree \<Rightarrow> rooted_tree" where
  "rt_construct own raw = raw\<lparr>rt_tree := [], currentRootPID := 0, rt_treeHasAllProcesses := False,
     solverProcessGroups := {}, runsolverGroupId := own\<rparr>"

definition rt_clear :: "rooted_tree \<Rightarrow> rooted_tree" where
  "rt_clear t = t\<lparr>rt_tree := []\<rparr>"

definition setDefaultRootPID :: "int \<Rightarrow> rooted_tree \<Rightarrow> rooted_tree" where
  "setDefaultRootPID pid t = t\<lparr>currentRootPID := pid\<rparr>"

definition setElapsedTime_334 :: "rat \<Rightarrow> rooted_tree \<Rightarrow> rooted_tree" where
  "setElapsedTime_334 e t = t\<lparr>rt_elapsed := e\<rparr>"

definition rootProcessEnded :: "rooted_tree \<Rightarrow> bool" where
  "rootProcessEnded t \<longleftrightarrow> entry t (currentRootPID t) = None"

section \<open>Global data\<close>

text \<open>
  fscanf reads thirteen lines of meminfo, each a word, a number and a word, and keeps the first
  two and the last two numbers.
\<close>

definition meminfo_format :: "conversion list" where
  "meminfo_format = [Skip_word, Get_int, Skip_word, Skip_word, Get_int, Skip_word] @
     concat (replicate 9 [Skip_word, Skip_int, Skip_word]) @
     [Skip_word, Get_int, Skip_word, Skip_word, Get_int, Skip_word]"

fun store_meminfo :: "nat \<times> scanned \<Rightarrow> rooted_tree \<Rightarrow> rooted_tree" where
  "store_meminfo (i, Int_value v) t =
     (if i = 0 then t\<lparr>rt_memTotal := v\<rparr> else if i = 1 then t\<lparr>rt_memFree := v\<rparr>
      else if i = 2 then t\<lparr>rt_swapTotal := v\<rparr> else if i = 3 then t\<lparr>rt_swapFree := v\<rparr> else t)"
| "store_meminfo (i, Ulong_value v) t = t"

definition readGlobalData_334 :: "'a proc_system_scheme \<Rightarrow> rooted_tree \<Rightarrow> rooted_tree" where
  "readGlobalData_334 os t =
     (let t = (case Option.bind (loadavg_file os) (fgets 1024) of None \<Rightarrow> t | Some l \<Rightarrow> t\<lparr>rt_loadavgLine := l\<rparr>);
          t = (case meminfo_file os of None \<Rightarrow> t
               | Some s \<Rightarrow> fold store_meminfo (enumerate 0 (scan meminfo_format s)) t);
          t = (case uptime_file os of None \<Rightarrow> t
               | Some s \<Rightarrow> (case in_float (rt_uptime t) (open_stream s) of (v, i) \<Rightarrow>
                   if failbit i then t else t\<lparr>rt_uptime := v\<rparr>))
      in t)"

section \<open>Finding the processes\<close>

definition add_process_334 :: "'a proc_system_scheme \<Rightarrow> int \<Rightarrow> rooted_tree \<Rightarrow> rooted_tree" where
  "add_process_334 os pid t = set_entry pid (pd_create_334 os pid 0 (garbage os)) t"

definition link_child_334 :: "int \<Rightarrow> rooted_tree \<times> event list \<Rightarrow> rooted_tree \<times> event list" where
  "link_child_334 pid st =
     (let (t, evs) = st in
      case entry t pid of
        None \<Rightarrow> (t, evs @ [Print (''Ooops ! No data available on process '' @ dec_int pid @ endl)])
      | Some data \<Rightarrow>
          let parent = pd_ppid data in
          if parent = - 1 \<or> map_find (rt_tree t) parent = None then (t, evs)
          else (adjust_entry parent (addChild pid) t, evs))"

definition identifyChildren_334 :: "rooted_tree \<Rightarrow> rooted_tree \<times> event list" where
  "identifyChildren_334 t = fold link_child_334 (map_keys (rt_tree t)) (t, [])"

definition add_task_334 :: "'a proc_system_scheme \<Rightarrow> int \<Rightarrow> int \<Rightarrow> rooted_tree \<Rightarrow> rooted_tree" where
  "add_task_334 os pid tid t =
     (if tid = pid then t
      else adjust_entry pid (addChild tid) (set_entry tid (pd_create_334 os pid tid (garbage os)) t))"

definition readProcessTasks_334 ::
  "'a proc_system_scheme \<Rightarrow> int \<Rightarrow> rooted_tree \<times> event list \<Rightarrow> rooted_tree \<times> event list" where
  "readProcessTasks_334 os pid st =
     (let (t, evs) = st; t = touch_entry pid t in
      if entry t pid = None then (t, evs)
      else
        case task_entries os pid of
          No_entry \<Rightarrow> (t, evs)
        | Unreadable e \<Rightarrow>
            (t, evs @ [Print (''!!! unable to read /proc/'' @ dec_int pid @ ''/task filesystem ('' @ e @
               '') !!!'' @ endl)])
        | Tasks names \<Rightarrow> (fold (add_task_334 os pid) (entry_pids names) t, evs))"

definition add_group :: "int \<Rightarrow> rooted_tree \<Rightarrow> rooted_tree" where
  "add_group g t =
     (if g \<noteq> runsolverGroupId t then t\<lparr>solverProcessGroups := insert g (solverProcessGroups t)\<rparr> else t)"

definition is_process_334 :: "rooted_tree \<Rightarrow> int \<Rightarrow> bool" where
  "is_process_334 t pid = (case entry t pid of None \<Rightarrow> False | Some d \<Rightarrow> \<not> isTask d)"

partial_function (option) readTasksRec_334 ::
  "'a proc_system_scheme \<Rightarrow> int \<Rightarrow> rooted_tree \<times> event list \<Rightarrow> (rooted_tree \<times> event list) option" where
  "readTasksRec_334 os pid st =
     (let st = (touch_entry pid (fst st), snd st) in
      case entry (fst st) pid of
        None \<Rightarrow> Some st
      | Some data \<Rightarrow>
          let st = readProcessTasks_334 os pid (add_group (pd_pgrp data) (fst st), snd st) in
          for_each (\<lambda>child st.
              if is_process_334 (touch_entry child (fst st)) child
              then readTasksRec_334 os child (touch_entry child (fst st), snd st)
              else Some (touch_entry child (fst st), snd st))
            (case entry (fst st) pid of None \<Rightarrow> [] | Some data \<Rightarrow> children data) st)"

definition readProcesses_334 ::
  "'a proc_system_scheme \<Rightarrow> rooted_tree \<Rightarrow> (rooted_tree \<times> event list) run" where
  "readProcesses_334 os t =
     (let root_pid = currentRootPID t;
          t = readGlobalData_334 os ((rt_clear t)\<lparr>solverProcessGroups := {}\<rparr>) in
      case proc_entries os of
        None \<Rightarrow> Some (Inl (Runtime_error ''unable to read /proc filesystem''))
      | Some names \<Rightarrow>
          let t = fold (add_process_334 os) (entry_pids names) t
          in lift_option (readTasksRec_334 os root_pid
               (identifyChildren_334 (t\<lparr>rt_treeHasAllProcesses := True\<rparr>))))"

section \<open>Updating\<close>

partial_function (option) updateProcessesDataRec_334 ::
  "'a proc_system_scheme \<Rightarrow> int \<Rightarrow> rooted_tree \<Rightarrow> rooted_tree option" where
  "updateProcessesDataRec_334 os pid t =
     (let t = touch_entry pid t in
      case entry t pid of
        None \<Rightarrow> Some t
      | Some data \<Rightarrow>
          let (data, ok) = pd_read_334 os (pd_pid data) (pd_tid data) data in
          if \<not> ok then Some (t\<lparr>rt_tree := map_erase pid (rt_tree t)\<rparr>)
          else for_each (updateProcessesDataRec_334 os) (children data) (set_entry pid data t))"

definition updateProcessesData_334 :: "'a proc_system_scheme \<Rightarrow> rooted_tree \<Rightarrow> rooted_tree option" where
  "updateProcessesData_334 os t = updateProcessesDataRec_334 os (currentRootPID t) t"

section \<open>Sums over the solver's processes\<close>

partial_function (option) currentCPUTimeRec_334 ::
  "u64 \<Rightarrow> int \<Rightarrow> (rat \<times> rat) \<times> rooted_tree \<Rightarrow> ((rat \<times> rat) \<times> rooted_tree) option" where
  "currentCPUTimeRec_334 ticks pid st =
     (let u = fst st; t = touch_entry pid (snd st) in
      case entry t pid of
        None \<Rightarrow> Some (u, t)
      | Some data \<Rightarrow>
          for_each (\<lambda>child st.
              if is_process_334 (touch_entry child (snd st)) child
              then currentCPUTimeRec_334 ticks child (fst st, touch_entry child (snd st))
              else Some (fst st, touch_entry child (snd st)))
            (children data)
            ((flt (fst u + getOverallUserTime ticks data), flt (snd u + getOverallSystemTime ticks data)), t))"

definition currentCPUTime_334 :: "u64 \<Rightarrow> rooted_tree \<Rightarrow> ((rat \<times> rat) \<times> rooted_tree) option" where
  "currentCPUTime_334 ticks t = currentCPUTimeRec_334 ticks (currentRootPID t) ((0, 0), t)"

partial_function (option) currentVSizeRec_334 :: "int \<Rightarrow> rooted_tree \<Rightarrow> (int \<times> rooted_tree) option" where
  "currentVSizeRec_334 pid t =
     (let t = touch_entry pid t in
      case entry t pid of
        None \<Rightarrow> Some (0, t)
      | Some data \<Rightarrow>
          for_each (\<lambda>child st.
              if is_process_334 (touch_entry child (snd st)) child
              then Option.bind (currentVSizeRec_334 child (touch_entry child (snd st)))
                (\<lambda>(s, t). Some (fst st + s, t))
              else Some (fst st, touch_entry child (snd st)))
            (children data) (getVSize data, t))"

definition currentVSize_334 :: "rooted_tree \<Rightarrow> (int \<times> rooted_tree) option" where
  "currentVSize_334 t = currentVSizeRec_334 (currentRootPID t) t"

partial_function (option) listProcessesRec_334 ::
  "int \<Rightarrow> int set \<times> rooted_tree \<Rightarrow> (int set \<times> rooted_tree) option" where
  "listProcessesRec_334 pid st =
     (let t = touch_entry pid (snd st) in
      case entry t pid of
        None \<Rightarrow> Some (fst st, t)
      | Some data \<Rightarrow> for_each listProcessesRec_334 (children data) (insert pid (fst st), t))"

definition listProcesses_334 :: "int set \<Rightarrow> rooted_tree \<Rightarrow> (int set \<times> rooted_tree) option" where
  "listProcesses_334 l t = listProcessesRec_334 (currentRootPID t) (l, t)"

section \<open>Signals\<close>

partial_function (option) sendSignalBottomUpRec_334 ::
  "int \<Rightarrow> int \<Rightarrow> event list \<times> rooted_tree \<Rightarrow> (event list \<times> rooted_tree) option" where
  "sendSignalBottomUpRec_334 sig pid st =
     (let t = touch_entry pid (snd st) in
      case entry t pid of
        None \<Rightarrow> Some (fst st, t)
      | Some data \<Rightarrow>
          Option.bind
            (if children data \<noteq> [] then
               Option.bind
                 (for_each (\<lambda>child st.
                      if is_process_334 (touch_entry child (snd st)) child
                      then sendSignalBottomUpRec_334 sig child (fst st, touch_entry child (snd st))
                      else Some (fst st, touch_entry child (snd st)))
                   (children data) (fst st, t))
                 (\<lambda>st. Some (fst st @ [Pause 4194304], snd st))
             else Some (fst st, t))
            (\<lambda>st. Some (fst st @ [Kill pid sig], snd st)))"

definition sendSignalBottomUp_334 :: "int \<Rightarrow> rooted_tree \<Rightarrow> (event list \<times> rooted_tree) option" where
  "sendSignalBottomUp_334 sig t =
     (if currentRootPID t \<noteq> 0 then sendSignalBottomUpRec_334 sig (currentRootPID t) ([], t) else Some ([], t))"

partial_function (option) sendSignalNowRec_334 ::
  "int \<Rightarrow> int \<Rightarrow> event list \<times> rooted_tree \<Rightarrow> (event list \<times> rooted_tree) option" where
  "sendSignalNowRec_334 sig pid st =
     (let t = touch_entry pid (snd st) in
      case entry t pid of
        None \<Rightarrow> Some (fst st, t)
      | Some data \<Rightarrow>
          Option.bind
            (for_each (\<lambda>child st.
                 if is_process_334 (touch_entry child (snd st)) child
                 then sendSignalNowRec_334 sig child (fst st, touch_entry child (snd st))
                 else Some (fst st, touch_entry child (snd st)))
               (children data) (fst st, t))
            (\<lambda>st. Some (fst st @ [Kill pid sig], snd st)))"

definition sendSignalNow_334 :: "int \<Rightarrow> rooted_tree \<Rightarrow> (event list \<times> rooted_tree) option" where
  "sendSignalNow_334 sig t =
     (if currentRootPID t \<noteq> 0 then sendSignalNowRec_334 sig (currentRootPID t) ([], t) else Some ([], t))"

text \<open>A set is visited in increasing order.\<close>

definition sendSignalToProcessGroups :: "int \<Rightarrow> rooted_tree \<Rightarrow> event list" where
  "sendSignalToProcessGroups sig t = map (\<lambda>g. Kill (- g) sig) (sorted_list_of_set (solverProcessGroups t))"

section \<open>Copies\<close>

text \<open>
  The copy constructor leaves the uptime and the group of runsolver as they are in memory, and
  the set of the groups of the solver empty.
\<close>

partial_function (option) cloneRec_334 ::
  "process_data \<Rightarrow> rooted_tree \<Rightarrow> int \<Rightarrow> rooted_tree \<Rightarrow> rooted_tree option" where
  "cloneRec_334 raw src pid t =
     (case entry src pid of
        None \<Rightarrow> Some (t\<lparr>rt_treeHasAllProcesses := False\<rparr>)
      | Some data \<Rightarrow>
          for_each (cloneRec_334 raw src) (children data)
            (set_entry pid (pd_copy_334 raw data) (t\<lparr>rt_treeHasAllProcesses := False\<rparr>)))"

definition rt_copy :: "rooted_tree \<Rightarrow> process_data \<Rightarrow> rooted_tree \<Rightarrow> rooted_tree option" where
  "rt_copy raw raw_data src =
     map_option (\<lambda>t. t\<lparr>rt_loadavgLine := rt_loadavgLine src\<rparr>)
       (cloneRec_334 raw_data src (currentRootPID src)
         (raw\<lparr>rt_tree := [], solverProcessGroups := {}, currentRootPID := currentRootPID src,
            rt_treeHasAllProcesses := False, rt_elapsed := rt_elapsed src, rt_memTotal := rt_memTotal src,
            rt_memFree := rt_memFree src, rt_swapTotal := rt_swapTotal src, rt_swapFree := rt_swapFree src\<rparr>))"

section \<open>Display\<close>

partial_function (option) dumpProcessTreeRec_334 ::
  "u64 \<Rightarrow> int \<Rightarrow> string \<times> rooted_tree \<Rightarrow> (string \<times> rooted_tree) option" where
  "dumpProcessTreeRec_334 ticks pid st =
     (let t = touch_entry pid (snd st) in
      case entry t pid of
        None \<Rightarrow> Some (fst st, t)
      | Some data \<Rightarrow> for_each (dumpProcessTreeRec_334 ticks) (children data) (fst st @ pd_print_334 ticks True data, t))"

definition dumpGlobalData_334 :: "rooted_tree \<Rightarrow> string" where
  "dumpGlobalData_334 t =
     ''/proc/loadavg: '' @ rt_loadavgLine t @
     ''/proc/meminfo: memFree='' @ dec_int (rt_memFree t) @ ''/'' @ dec_int (rt_memTotal t) @
     '' swapFree='' @ dec_int (rt_swapFree t) @ ''/'' @ dec_int (rt_swapTotal t) @ endl"

definition dumpProcessTree_334 :: "u64 \<Rightarrow> rooted_tree \<Rightarrow> (string \<times> rooted_tree) option" where
  "dumpProcessTree_334 ticks t =
     dumpProcessTreeRec_334 ticks (currentRootPID t)
       ([newline] @ ''[startup+'' @ ostream_float (rt_elapsed t) @ '' s]'' @ endl @ dumpGlobalData_334 t, t)"

text \<open>The size is handed over as a float and rounded back to a number of kilobytes.\<close>

definition cpu_and_vsize :: "rat \<Rightarrow> rat \<Rightarrow> string" where
  "cpu_and_vsize cpu vs =
     ''Current children cumulated CPU time (s) '' @ ostream_float cpu @ endl @
     ''Current children cumulated vsize (KiB) '' @ dec_int \<lfloor>vs + 1 / 2\<rfloor> @ endl"

definition heavy_line_334 ::
  "'a proc_system_scheme \<Rightarrow> u64 \<Rightarrow> nat \<Rightarrow> rat \<Rightarrow> rooted_tree \<Rightarrow> int \<times> process_data option \<Rightarrow> string" where
  "heavy_line_334 os ticks myUid threshold t e =
     (case e of
        (pid, None) \<Rightarrow> ''Ooops ! No data available on process '' @ dec_int pid @ endl
      | (pid, Some data) \<Rightarrow>
          let pcpu = percentageCPU ticks data (rt_uptime t) False in
          if pd_uid data \<noteq> myUid \<and> threshold < pcpu then
            ''  %CPU='' @ dec_int (Process_Tree.truncate (flt (pcpu * 100))) @ '' pid='' @ dec_int pid @
            '' uid='' @ dec_nat (pd_uid data) @ '' cmd='' @ dumpCmdLine os pid @ endl
          else [])"

definition dumpHeavyProcesses_334 ::
  "'a proc_system_scheme \<Rightarrow> u64 \<Rightarrow> nat \<Rightarrow> rat \<Rightarrow> rooted_tree \<Rightarrow> (rooted_tree \<times> event list) run" where
  "dumpHeavyProcesses_334 os ticks myUid threshold t =
     run_then (if rt_treeHasAllProcesses t then returns (t, []) else readProcesses_334 os t)
       (\<lambda>(t, evs). returns (t, evs @ [Print (''heavy processes:'' @ [newline] @
          concat (map (heavy_line_334 os ticks myUid threshold t) (rt_tree t)))]))"


section \<open>The same tree in version 3.4.0\<close>

text \<open>
  Null pointers are left out, every object counts as valid, and the root is the only one. Then
  null pointers that a query adds make no difference.
\<close>

definition live :: "(int, process_data option) std_map \<Rightarrow> (int, process_data) std_map" where
  "live m = concat (map (\<lambda>(pid, e). case e of None \<Rightarrow> [] | Some d \<Rightarrow> [(pid, d\<lparr>pd_valid := True\<rparr>)]) m)"

definition as_new :: "rooted_tree \<Rightarrow> process_tree" where
  "as_new t = \<lparr>tree = live (rt_tree t), roots = [currentRootPID t], loadavgLine = rt_loadavgLine t,
     memTotal = rt_memTotal t, memFree = rt_memFree t, swapTotal = rt_swapTotal t, swapFree = rt_swapFree t,
     elapsed = rt_elapsed t, uptime = rt_uptime t, completedCPUTime = 0,
     treeHasAllProcesses = rt_treeHasAllProcesses t, runsolverPID = 0\<rparr>"

lemma find_live:
  "wf_map m \<Longrightarrow> map_find (live m) pid =
     (case map_find m pid of Some (Some d) \<Rightarrow> Some (d\<lparr>pd_valid := True\<rparr>) | _ \<Rightarrow> None)"
proof (induction m)
  case (Cons a m)
  obtain k e where a: "a = (k, e)" by (cases a)
  from Cons.prems have wf: "wf_map m" and above: "\<forall>x \<in> set (map_keys m). k < x"
    by (auto simp: wf_map_def a)
  then have "map_find m k = None" by (auto simp: map_find_def map_keys_def map_of_eq_None_iff)
  with Cons.IH [OF wf] show ?case
    by (auto simp: live_def a map_find_def split: option.splits)
qed (simp add: live_def map_find_def)

lemma live_put_None: "map_find m k = None \<Longrightarrow> live (map_put k None m) = live m"
  by (induction m) (auto simp: live_def map_find_def split: if_splits)

definition same :: "rooted_tree \<Rightarrow> rooted_tree \<Rightarrow> bool" where
  "same t u \<longleftrightarrow> wf_map (rt_tree u) \<and> as_new u = as_new t"

lemma same_refl: "wf_map (rt_tree t) \<Longrightarrow> same t t"
  by (simp add: same_def)

lemma same_touch: "same t u \<Longrightarrow> same t (touch_entry k u)"
  by (auto simp: same_def touch_entry_def as_new_def live_put_None wf_put)

lemma data_on_as_new:
  "same t u \<Longrightarrow> data_on (as_new t) pid = map_option (\<lambda>d. d\<lparr>pd_valid := True\<rparr>) (entry u pid)"
proof -
  assume "same t u"
  then have "wf_map (rt_tree u)" "tree (as_new t) = live (rt_tree u)" by (auto simp: same_def as_new_def)
  then show ?thesis by (auto simp: data_on_def find_live entry_def split: option.splits)
qed

lemma is_process_as_new: "same t u \<Longrightarrow> is_process_334 u pid = is_process (as_new t) pid"
proof -
  assume "same t u"
  then have "wf_map (rt_tree u)" "tree (as_new t) = live (rt_tree u)" by (auto simp: same_def as_new_def)
  then show ?thesis by (auto simp: is_process_def is_process_334_def find_live entry_def isTask_def split: option.splits)
qed

lemma valid_fields [simp]:
  "children (d\<lparr>pd_valid := v\<rparr>) = children d" "getVSize (d\<lparr>pd_valid := v\<rparr>) = getVSize d"
  "getOverallUserTime ticks (d\<lparr>pd_valid := v\<rparr>) = getOverallUserTime ticks d"
  "getOverallSystemTime ticks (d\<lparr>pd_valid := v\<rparr>) = getOverallSystemTime ticks d"
  by (simp_all add: getVSize_def getOverallUserTime_def getOverallSystemTime_def)

text \<open>A loop over children whose body keeps the tree the same.\<close>

lemma for_each_same:
  assumes "\<And>c a u. c \<in> set xs \<Longrightarrow> same t u \<Longrightarrow> \<exists>u'. f c (a, u) = Some (g c a, u') \<and> same t u'"
    and "same t u"
  shows "\<exists>u'. for_each f xs (a, u) = Some (fold g xs a, u') \<and> same t u'"
  using assms
proof (induction xs arbitrary: a u)
  case (Cons c xs)
  from Cons.prems obtain u1 where "f c (a, u) = Some (g c a, u1)" "same t u1" by (meson list.set_intros(1))
  with Cons.IH [of u1 "g c a"] Cons.prems(1) show ?case by simp
qed simp

lemma guarded_loop:
  assumes "\<And>c a u. c \<in> set cs \<Longrightarrow> same t u \<Longrightarrow> \<exists>u'. R c (a, u) = Some (G c a, u') \<and> same t u'" and "same t u"
  shows "\<exists>u'. for_each (\<lambda>c st. if is_process_334 (touch_entry c (snd st)) c
      then R c (fst st, touch_entry c (snd st)) else Some (fst st, touch_entry c (snd st))) cs (a, u) =
    Some (fold (\<lambda>c a. if is_process (as_new t) c then G c a else a) cs a, u') \<and> same t u'"
  using assms(2)
proof (rule for_each_same [rotated])
  fix c a u assume c: "c \<in> set cs" and u: "same t u"
  from u have u': "same t (touch_entry c u)" by (rule same_touch)
  from assms(1) [OF c u'] is_process_as_new [OF u'] u'
  show "\<exists>u'. (if is_process_334 (touch_entry c (snd (a, u))) c
      then R c (fst (a, u), touch_entry c (snd (a, u))) else Some (fst (a, u), touch_entry c (snd (a, u)))) =
    Some (if is_process (as_new t) c then G c a else a, u') \<and> same t u'" by auto
qed

text \<open>Walks over the tree: induction over the rank, for the process whose entry has been touched.\<close>

lemma walk_same:
  assumes "ranked rank (as_new t)" and "same t u"
    and "\<And>pid a u. same t u \<Longrightarrow> entry (touch_entry pid u) pid = None \<Longrightarrow> data_on (as_new t) pid = None \<Longrightarrow>
      same t (touch_entry pid u) \<Longrightarrow> \<exists>u'. R pid (a, u) = Some (G pid a, u') \<and> same t u'"
    and "\<And>pid a u d. same t u \<Longrightarrow> entry (touch_entry pid u) pid = Some d \<Longrightarrow>
      data_on (as_new t) pid = Some (d\<lparr>pd_valid := True\<rparr>) \<Longrightarrow> same t (touch_entry pid u) \<Longrightarrow>
      (\<And>c a u. c \<in> set (children d) \<Longrightarrow> same t u \<Longrightarrow> \<exists>u'. R c (a, u) = Some (G c a, u') \<and> same t u') \<Longrightarrow>
      \<exists>u'. R pid (a, u) = Some (G pid a, u') \<and> same t u'"
  shows "\<exists>u'. R pid (a, u) = Some (G pid a, u') \<and> same t u'"
  using assms(2)
proof (induction "rank pid" arbitrary: pid a u rule: less_induct)
  case less
  have u: "same t (touch_entry pid u)" using less.prems by (rule same_touch)
  show ?case
  proof (cases "entry (touch_entry pid u) pid")
    case None
    then show ?thesis using less.prems u data_on_as_new [OF u] by (intro assms(3)) simp_all
  next
    case (Some d)
    then have d: "data_on (as_new t) pid = Some (d\<lparr>pd_valid := True\<rparr>)" using data_on_as_new [OF u] by simp
    show ?thesis
    proof (rule assms(4) [OF less.prems Some d u])
      fix c a u assume "c \<in> set (children d)" "same t u"
      then show "\<exists>u'. R c (a, u) = Some (G c a, u') \<and> same t u'"
        using ranked_child [OF assms(1) d, of c] by (intro less.hyps) simp_all
    qed
  qed
qed

definition vsize_below :: "rooted_tree \<Rightarrow> int \<Rightarrow> int" where
  "vsize_below t pid = sum_list (map (field_of getVSize (as_new t)) (below (as_new t) pid))"

lemma currentVSizeRec_same:
  assumes "ranked rank (as_new t)" and "same t u"
  shows "\<exists>u'. Option.bind (currentVSizeRec_334 pid u) (\<lambda>(s, v). Some (a + s, v)) = Some (a + vsize_below t pid, u') \<and> same t u'"
proof -
  let ?R = "\<lambda>pid st. Option.bind (currentVSizeRec_334 pid (snd st)) (\<lambda>(s, v). Some (fst st + s, v))"
    and ?G = "\<lambda>pid a. a + vsize_below t pid"
  have "\<exists>u'. ?R pid (a, u) = Some (?G pid a, u') \<and> same t u'"
  proof (rule walk_same [where R = ?R and G = ?G, OF assms])
    fix pid a u d
    assume e: "entry (touch_entry pid u) pid = Some d" "data_on (as_new t) pid = Some (d\<lparr>pd_valid := True\<rparr>)"
      and u: "same t (touch_entry pid u)"
      and IH: "\<And>c a u. c \<in> set (children d) \<Longrightarrow> same t u \<Longrightarrow> \<exists>u'. ?R c (a, u) = Some (?G c a, u') \<and> same t u'"
    from guarded_loop [of "children d" t ?R ?G, OF IH u, of "getVSize d", unfolded fst_conv snd_conv]
    show "\<exists>u'. ?R pid (a, u) = Some (?G pid a, u') \<and> same t u'"
      using e by (auto simp: currentVSizeRec_334.simps [of pid] vsize_below_def
          below_unfold [OF assms(1), of pid] fold_add_filter kids_def sum_list_concat comp_def Let_def)
  qed (auto simp: currentVSizeRec_334.simps Let_def vsize_below_def below_unfold [OF assms(1)])
  then show ?thesis by simp
qed

lemma currentCPUTimeRec_same:
  assumes "ranked rank (as_new t)" and "same t u"
  shows "\<exists>u'. currentCPUTimeRec_334 ticks pid (a, u) =
    Some (fold (add_times ticks (as_new t)) (below (as_new t) pid) a, u') \<and> same t u'"
proof (rule walk_same [where R = "currentCPUTimeRec_334 ticks", OF assms])
  let ?R = "currentCPUTimeRec_334 ticks" and ?G = "\<lambda>pid. fold (add_times ticks (as_new t)) (below (as_new t) pid)"
  fix pid a u d
  assume e: "entry (touch_entry pid u) pid = Some d" "data_on (as_new t) pid = Some (d\<lparr>pd_valid := True\<rparr>)"
    and u: "same t (touch_entry pid u)"
    and IH: "\<And>c a u. c \<in> set (children d) \<Longrightarrow> same t u \<Longrightarrow> \<exists>u'. ?R c (a, u) = Some (?G c a, u') \<and> same t u'"
  from guarded_loop [of "children d" t ?R ?G, OF IH u, of "add_times ticks (as_new t) pid a"]
  show "\<exists>u'. ?R pid (a, u) = Some (?G pid a, u') \<and> same t u'"
    using e by (simp add: currentCPUTimeRec_334.simps [of ticks pid] below_unfold [OF assms(1), of pid]
        fold_fold_filter kids_def add_times_def Let_def)
qed (auto simp: currentCPUTimeRec_334.simps Let_def below_unfold [OF assms(1)])

lemma sendSignalBottomUpRec_same:
  assumes "ranked rank (as_new t)" and "same t u"
  shows "\<exists>u'. sendSignalBottomUpRec_334 sig pid (a, u) =
    Some (a @ concat (map (stop_events (as_new t) sig) (bottom_up (as_new t) pid)), u') \<and> same t u'"
proof (rule walk_same [where R = "sendSignalBottomUpRec_334 sig", OF assms])
  let ?R = "sendSignalBottomUpRec_334 sig"
    and ?G = "\<lambda>pid a. a @ concat (map (stop_events (as_new t) sig) (bottom_up (as_new t) pid))"
  fix pid a u d
  assume e: "entry (touch_entry pid u) pid = Some d" "data_on (as_new t) pid = Some (d\<lparr>pd_valid := True\<rparr>)"
    and u: "same t (touch_entry pid u)"
    and IH: "\<And>c a u. c \<in> set (children d) \<Longrightarrow> same t u \<Longrightarrow> \<exists>u'. ?R c (a, u) = Some (?G c a, u') \<and> same t u'"
  from guarded_loop [of "children d" t ?R ?G, OF IH u, of a]
  show "\<exists>u'. ?R pid (a, u) = Some (?G pid a, u') \<and> same t u'"
    using e u by (auto simp: sendSignalBottomUpRec_334.simps [of sig pid] bottom_up_unfold [OF assms(1), of pid]
        fold_append_filter kids_def stop_events_def map_concat comp_def concat_concat_map Let_def)
qed (auto simp: sendSignalBottomUpRec_334.simps Let_def bottom_up_unfold [OF assms(1)])


lemma listProcessesRec_total: "ranked rank pt \<Longrightarrow> listProcessesRec pt pid l \<noteq> None"
proof (induction "rank pid" arbitrary: pid l rule: less_induct)
  case less
  show ?case
  proof (cases "data_on pt pid")
    case None
    then show ?thesis by (simp add: listProcessesRec.simps [of pt pid])
  next
    case (Some d)
    have "for_each (\<lambda>child l. listProcessesRec pt child l) (children d) (insert pid l) \<noteq> None"
      using less.hyps ranked_child [OF less.prems Some] less.prems by (intro for_each_total) blast
    with Some show ?thesis by (simp add: listProcessesRec.simps [of pt pid])
  qed
qed

lemma listProcessesRec_same:
  assumes "ranked rank (as_new t)" and "same t u"
  shows "\<exists>u'. listProcessesRec_334 pid (l, u) = Some (the (listProcessesRec (as_new t) pid l), u') \<and> same t u'"
proof (rule walk_same [where R = listProcessesRec_334, OF assms])
  let ?R = listProcessesRec_334 and ?G = "\<lambda>pid l. the (listProcessesRec (as_new t) pid l)"
  fix pid l u d
  assume e: "entry (touch_entry pid u) pid = Some d" "data_on (as_new t) pid = Some (d\<lparr>pd_valid := True\<rparr>)"
    and u: "same t (touch_entry pid u)"
    and IH: "\<And>c l u. c \<in> set (children d) \<Longrightarrow> same t u \<Longrightarrow> \<exists>u'. ?R c (l, u) = Some (?G c l, u') \<and> same t u'"
  have "for_each (\<lambda>child l. listProcessesRec (as_new t) child l) (children d) (insert pid l) =
      Some (fold ?G (children d) (insert pid l))"
    using listProcessesRec_total [OF assms(1)] by (intro for_each_fold) simp
  then have "?G pid l = fold ?G (children d) (insert pid l)"
    using e by (simp add: listProcessesRec.simps [of "as_new t" pid])
  with for_each_same [of "children d" t ?R ?G, OF IH u, of "insert pid l"]
  show "\<exists>u'. ?R pid (l, u) = Some (?G pid l, u') \<and> same t u'"
    using e by (simp add: listProcessesRec_334.simps [of pid] Let_def)
qed (auto simp: listProcessesRec_334.simps listProcessesRec.simps Let_def)

text \<open>
  Property C10: on the same tree the two versions compute the same sums, list the same processes and
  send the same signals bottom up; the null pointers that the older one adds on the way change
  nothing.
\<close>

theorem versions_agree:
  assumes "wf_map (rt_tree t)" and "ranked rank (as_new t)"
  shows "map_option fst (currentVSize_334 t) = pt_currentVSize (as_new t) \<and>
    map_option fst (currentCPUTime_334 ticks t) = currentTimes ticks (as_new t) \<and>
    map_option fst (listProcesses_334 l t) = listProcesses (as_new t) l \<and>
    (currentRootPID t \<noteq> 0 \<longrightarrow> map_option fst (sendSignalBottomUp_334 sig t) = sendSignalBottomUp (as_new t) sig)"
proof -
  let ?r = "currentRootPID t"
  have t: "same t t" using assms(1) by (rule same_refl)
  have roots: "roots (as_new t) = [?r]" by (simp add: as_new_def)
  have "map_option fst (currentVSize_334 t) = pt_currentVSize (as_new t)"
    using currentVSizeRec_same [OF assms(2) t, of ?r 0]
    by (auto simp: currentVSize_334_def pt_currentVSize_def roots currentVSizeRec_below [OF assms(2)] vsize_below_def
        split: Option.bind_splits)
  moreover have "map_option fst (currentCPUTime_334 ticks t) = currentTimes ticks (as_new t)"
    using currentCPUTimeRec_same [OF assms(2) t, of ticks ?r "(0, 0)"]
    by (fastforce simp: currentCPUTime_334_def currentTimes_def roots currentCPUTimeRec_below [OF assms(2)]
        simp del: split_paired_Ex)
  moreover have "map_option fst (listProcesses_334 l t) = listProcesses (as_new t) l"
    using listProcessesRec_same [OF assms(2) t, of ?r l] listProcessesRec_total [OF assms(2), of ?r l]
    by (auto simp: listProcesses_334_def listProcesses_def roots)
  moreover have "?r \<noteq> 0 \<Longrightarrow> map_option fst (sendSignalBottomUp_334 sig t) = sendSignalBottomUp (as_new t) sig"
    using sendSignalBottomUpRec_same [OF assms(2) t, of sig ?r "[]"]
    by (auto simp: sendSignalBottomUp_334_def sendSignalBottomUp_def roots sendSignalBottomUpRec_order [OF assms(2)])
  ultimately show ?thesis by blast
qed


text \<open>A process 42 with a child 43, and a null pointer.\<close>

definition demo_rooted :: rooted_tree where
  "demo_rooted = \<lparr>rt_tree = [(7, None), (42, Some ((garbage demo_system)\<lparr>pd_tid := 0, children := [43, 7]\<rparr>)),
       (43, Some ((garbage demo_system)\<lparr>pd_tid := 0, vsize := 4096, children := []\<rparr>))],
     currentRootPID = 42, rt_loadavgLine = [], rt_memTotal = 0, rt_memFree = 0, rt_swapTotal = 0,
     rt_swapFree = 0, rt_elapsed = 0, rt_uptime = 0, rt_treeHasAllProcesses = False,
     solverProcessGroups = {}, runsolverGroupId = 1\<rparr>"

lemma demo_rooted_ok:
  "wf_map (rt_tree demo_rooted)" "ranked (\<lambda>p. if p = 42 then 1 else 0) (as_new demo_rooted)"
  by (simp_all add: demo_rooted_def wf_map_def ranked_def as_new_def live_def map_find_def)

lemma versions_agree_witness:
  "map_option fst (currentVSize_334 demo_rooted) = pt_currentVSize (as_new demo_rooted)"
  using versions_agree [OF demo_rooted_ok] by blast

section \<open>Memory of the host\<close>

text \<open>The file meminfo: lines of a name, a number and a unit.\<close>

definition meminfo_text :: "(string \<times> int) list \<Rightarrow> string" where
  "meminfo_text ls = concat (map (\<lambda>(k, v). k @ '' '' @ dec_int v @ '' kB'' @ [newline]) ls)"

definition line_format :: "bool \<Rightarrow> conversion list" where
  "line_format keep = [Skip_word, if keep then Get_int else Skip_int, Skip_word]"

lemma meminfo_format_lines:
  "meminfo_format = concat (map line_format ([True, True] @ replicate 9 False @ [True, True]))"
  by (simp add: meminfo_format_def line_format_def)

lemma skip_blanks: "\<forall>c \<in> set ws. isspace c \<Longrightarrow> dropWhile isspace (ws @ s) = dropWhile isspace s"
  by (induction ws) auto

lemma skip_word:
  assumes "\<forall>c \<in> set ws. isspace c" and "w \<noteq> []" and "\<forall>c \<in> set w. \<not> isspace c" and "isspace c"
  shows "scan (Skip_word # cs) (ws @ w @ c # r) = scan cs (c # r)"
proof -
  have "dropWhile isspace (ws @ w @ c # r) = w @ c # r"
    using assms by (cases w) (auto simp: skip_blanks)
  moreover have "dropWhile (\<lambda>c. \<not> isspace c) (w @ c # r) = c # r" using assms by simp
  ultimately show ?thesis using assms(2) by (simp add: Let_def)
qed

lemma scan_line:
  assumes "\<forall>c \<in> set ws. isspace c" and "k \<noteq> []" and "\<forall>c \<in> set k. \<not> isspace c"
  shows "scan (line_format keep @ cs) (ws @ k @ '' '' @ dec_int v @ '' kB'' @ newline # r) =
    (if keep then [Int_value v] else []) @ scan cs (newline # r)"
proof -
  define T2 where "T2 = CHR '' '' # ''kB'' @ newline # r"
  define T1 where "T1 = CHR '' '' # dec_int v @ T2"
  let ?num = "if keep then Get_int else Skip_int"
  have 1: "scan (Skip_word # ?num # Skip_word # cs) (ws @ k @ T1) = scan (?num # Skip_word # cs) T1"
    unfolding T1_def using assms by (intro skip_word) (simp_all add: isspace_def)
  have "scan_int T1 = Some (v, T2)"
    using scan_int_dec_int [of T2 v] by (simp add: T1_def T2_def scan_int_space isspace_def no_digit_first_def isdigit_def)
  then have 2: "scan (?num # Skip_word # cs) T1 = (if keep then [Int_value v] else []) @ scan (Skip_word # cs) T2"
    by (cases keep) (simp_all only: scan.simps if_True if_False option.case prod.case append.simps)
  have "scan (Skip_word # cs) ([CHR '' ''] @ ''kB'' @ newline # r) = scan cs (newline # r)"
    by (rule skip_word) (auto simp: isspace_def newline_def)
  then have 3: "scan (Skip_word # cs) T2 = scan cs (newline # r)" unfolding T2_def append.simps .
  have "ws @ k @ '' '' @ dec_int v @ '' kB'' @ newline # r = ws @ k @ T1"
    by (simp add: T1_def T2_def)
  then show ?thesis unfolding line_format_def using 1 2 3 by (simp only: append.simps)
qed

lemma zip_two: "zip [a, b] ys = zip [a, b] (take 2 ys)"
  by (cases ys; cases "tl ys") auto

lemma scan_lines:
  assumes "length bs \<le> length ls" and "\<forall>(k, v) \<in> set ls. k \<noteq> [] \<and> (\<forall>c \<in> set k. \<not> isspace c)"
    and "\<forall>c \<in> set ws. isspace c"
  shows "scan (concat (map line_format bs)) (ws @ meminfo_text ls) =
    concat (map2 (\<lambda>keep (k, v). if keep then [Int_value v] else []) bs ls)"
  using assms
proof (induction bs arbitrary: ls ws)
  case (Cons b bs)
  then obtain k v ls' where ls: "ls = (k, v) # ls'" by (cases ls) auto
  have "scan (line_format b @ concat (map line_format bs))
      (ws @ k @ '' '' @ dec_int v @ '' kB'' @ newline # meminfo_text ls') =
    (if b then [Int_value v] else []) @ scan (concat (map line_format bs)) (newline # meminfo_text ls')"
    using Cons.prems by (intro scan_line) (auto simp: ls)
  moreover have "scan (concat (map line_format bs)) ([newline] @ meminfo_text ls') =
      concat (map2 (\<lambda>keep (k, v). if keep then [Int_value v] else []) bs ls')"
    using Cons.prems by (intro Cons.IH) (auto simp: ls)
  ultimately show ?case by (simp add: ls meminfo_text_def)
qed simp

text \<open>
  The swap space is taken from the twelfth and thirteenth line of meminfo whatever
  their names are; on a kernel that has a line MemAvailable these are other numbers.
\<close>

theorem meminfo_by_position:
  assumes "meminfo_file os = Some (meminfo_text ls)" and "13 \<le> length ls"
    and "\<forall>(k, v) \<in> set ls. k \<noteq> [] \<and> (\<forall>c \<in> set k. \<not> isspace c)"
  shows "rt_memTotal (readGlobalData_334 os t) = snd (ls ! 0) \<and> rt_memFree (readGlobalData_334 os t) = snd (ls ! 1) \<and>
    rt_swapTotal (readGlobalData_334 os t) = snd (ls ! 11) \<and> rt_swapFree (readGlobalData_334 os t) = snd (ls ! 12)"
proof -
  let ?bs = "[True, True] @ replicate 9 False @ [True, True]"
  have "scan meminfo_format (meminfo_text ls) =
      concat (map2 (\<lambda>keep (k, v). if keep then [Int_value v] else []) ?bs ls)"
    using scan_lines [of ?bs ls "[]"] assms(2,3) by (simp add: meminfo_format_lines)
  also have "\<dots> = [Int_value (snd (ls ! 0)), Int_value (snd (ls ! 1)), Int_value (snd (ls ! 11)), Int_value (snd (ls ! 12))]"
  proof -
    let ?f = "\<lambda>keep (k :: string, v). if keep then [Int_value v] else []"
    have two: "take 2 (drop n ls) = [ls ! n, ls ! Suc n]" if "n + 2 \<le> length ls" for n
      using that by (simp add: numeral_2_eq_2 take_Suc_conv_app_nth)
    have "map2 ?f ?bs ls = map2 ?f [True, True] (take 2 (drop 0 ls)) @
        (map2 ?f (replicate 9 False) (take 9 (drop 2 ls)) @ map2 ?f [True, True] (take 2 (drop 11 ls)))"
      using assms(2) zip_two [of True True "drop 11 ls"]
      by (simp only: zip_append1 map_append) (simp add: numeral_2_eq_2)
    moreover have "concat (map2 ?f (replicate 9 False) (take 9 (drop 2 ls))) = []"
      by (auto simp: zip_replicate1)
    ultimately show ?thesis using assms(2) two [of 0] two [of 11]
      by (simp add: case_prod_beta)
  qed
  finally show ?thesis
    by (simp add: readGlobalData_334_def Let_def assms(1) split: option.split prod.split)
qed

definition modern_meminfo :: "(string \<times> int) list" where
  "modern_meminfo = [(''MemTotal:'', 1000), (''MemFree:'', 900), (''MemAvailable:'', 950), (''Buffers:'', 1),
     (''Cached:'', 2), (''SwapCached:'', 3), (''Active:'', 4), (''Inactive:'', 5), (''Active(anon):'', 6),
     (''Inactive(anon):'', 7), (''Active(file):'', 8), (''Inactive(file):'', 9), (''Unevictable:'', 10),
     (''Mlocked:'', 11), (''SwapTotal:'', 2000), (''SwapFree:'', 1999)]"

lemma meminfo_by_position_witness:
  "rt_swapTotal (readGlobalData_334 (demo_system\<lparr>meminfo_file := Some (meminfo_text modern_meminfo)\<rparr>) demo_rooted) = 9"
  using meminfo_by_position [of "demo_system\<lparr>meminfo_file := Some (meminfo_text modern_meminfo)\<rparr>" modern_meminfo demo_rooted]
  by (simp add: modern_meminfo_def isspace_def)


section \<open>Who is found\<close>

text \<open>What /proc says: the parent of a process, and the tasks in its directory.\<close>

definition ppid_of :: "'a proc_system_scheme \<Rightarrow> int \<Rightarrow> int" where
  "ppid_of os pid = pd_ppid (pd_create_334 os pid 0 (garbage os))"

definition tasks_of :: "'a proc_system_scheme \<Rightarrow> int \<Rightarrow> int set" where
  "tasks_of os pid = (case task_entries os pid of Tasks names \<Rightarrow> set (entry_pids names) | _ \<Rightarrow> {})"

definition linked :: "'a proc_system_scheme \<Rightarrow> int \<Rightarrow> int \<Rightarrow> bool" where
  "linked os p c \<longleftrightarrow> ppid_of os c = p \<or> c \<in> tasks_of os p"

text \<open>Every link of the tree stands for one of these.\<close>

definition sound_links :: "'a proc_system_scheme \<Rightarrow> rooted_tree \<Rightarrow> bool" where
  "sound_links os t \<longleftrightarrow> wf_map (rt_tree t) \<and>
     (\<forall>p d c. entry t p = Some d \<longrightarrow> c \<in> set (children d) \<longrightarrow> linked os p c)"

definition read_parents :: "'a proc_system_scheme \<Rightarrow> rooted_tree \<Rightarrow> bool" where
  "read_parents os t \<longleftrightarrow> (\<forall>p d. entry t p = Some d \<longrightarrow> pd_ppid d = ppid_of os p)"

lemma entry_set: "wf_map (rt_tree t) \<Longrightarrow> entry (set_entry k d t) p = (if p = k then Some d else entry t p)"
  by (simp add: entry_def set_entry_def find_put)

lemma entry_adjust: "entry (adjust_entry k f t) p = (if p = k then map_option f (entry t p) else entry t p)"
  by (auto simp: entry_def adjust_entry_def find_adjust split: option.splits)

lemma entry_touch: "wf_map (rt_tree t) \<Longrightarrow> entry (touch_entry k t) p = entry t p"
  by (auto simp: entry_def touch_entry_def find_put split: option.splits)

lemma root_touch [simp]: "currentRootPID (touch_entry k t) = currentRootPID t"
  by (simp add: touch_entry_def)

lemma wf_entries [simp]:
  "wf_map (rt_tree t) \<Longrightarrow> wf_map (rt_tree (set_entry k d t))"
  "wf_map (rt_tree (adjust_entry k f t)) = wf_map (rt_tree t)"
  "wf_map (rt_tree t) \<Longrightarrow> wf_map (rt_tree (touch_entry k t))"
  by (simp_all add: set_entry_def adjust_entry_def touch_entry_def wf_put)

lemma pd_read_334_frame:
  "pd_read_334 os pid tid pd = (pd', ok) \<Longrightarrow> children pd' = children pd"
proof -
  have "children (store_field f d) = children d" for f d
    by (cases f; cases "snd f") auto
  then have fields: "children (fold store_field fs d) = children d" for fs d
    by (induction fs arbitrary: d) simp_all
  assume "pd_read_334 os pid tid pd = (pd', ok)"
  then show ?thesis
    by (auto simp: pd_read_334_def read_stat_334_def scan_stat_def read_statm_def read_allocated_def Let_def fields
        split: option.splits if_splits prod.splits)
qed

lemma created_children: "children (pd_create_334 os pid tid raw) = []"
  using pd_read_334_frame [of os pid tid "pd_construct raw"]
  by (cases "pd_read_334 os pid tid (pd_construct raw)") (simp add: pd_create_334_def pd_construct_def pd_init_def)

lemma add_process_links:
  "sound_links os t \<and> read_parents os t \<Longrightarrow> sound_links os (add_process_334 os pid t) \<and> read_parents os (add_process_334 os pid t)"
  by (auto simp: sound_links_def read_parents_def add_process_334_def entry_set created_children ppid_of_def split: if_splits)

lemma sound_adjust:
  assumes "sound_links os t" and "linked os p c"
  shows "sound_links os (adjust_entry p (addChild c) t)"
  using assms by (auto simp: sound_links_def entry_adjust addChild_def split: if_splits)

lemma link_child_links:
  assumes "sound_links os (fst st) \<and> read_parents os (fst st)"
  shows "sound_links os (fst (link_child_334 pid st)) \<and> read_parents os (fst (link_child_334 pid st))"
proof (cases st)
  case (Pair t evs)
  show ?thesis
  proof (cases "entry t pid")
    case (Some d)
    then have "linked os (pd_ppid d) pid" using assms by (simp add: Pair read_parents_def linked_def)
    then have "sound_links os (adjust_entry (pd_ppid d) (addChild pid) t)"
      using assms by (intro sound_adjust) (simp_all add: Pair)
    moreover have "read_parents os (adjust_entry (pd_ppid d) (addChild pid) t)"
      using assms by (auto simp: Pair read_parents_def entry_adjust addChild_def split: if_splits)
    ultimately show ?thesis using assms by (simp add: Pair Some link_child_334_def Let_def)
  qed (use assms in \<open>simp add: Pair link_child_334_def\<close>)
qed

lemma add_task_links:
  assumes "sound_links os t" and "tid \<in> tasks_of os pid"
  shows "sound_links os (add_task_334 os pid tid t)"
proof -
  have "sound_links os (set_entry tid (pd_create_334 os pid tid (garbage os)) t)"
    using assms(1) by (auto simp: sound_links_def entry_set created_children split: if_splits)
  then show ?thesis using assms by (simp add: add_task_334_def sound_adjust linked_def)
qed

lemma touch_links: "sound_links os t \<Longrightarrow> sound_links os (touch_entry k t)"
  by (simp add: sound_links_def entry_touch)

lemma group_links: "sound_links os (add_group g t) = sound_links os t"
  by (simp add: sound_links_def add_group_def entry_def)

lemma tasks_links: "sound_links os (fst st) \<Longrightarrow> sound_links os (fst (readProcessTasks_334 os pid st))"
proof (cases st)
  case (Pair t evs)
  assume "sound_links os (fst st)"
  then have t: "sound_links os (touch_entry pid t)" by (simp add: Pair touch_links)
  have "sound_links os (fold (add_task_334 os pid) (entry_pids names) (touch_entry pid t))"
    if "task_entries os pid = Tasks names" for names
    using t that by (intro fold_invariant [where P = "sound_links os" and Q = "\<lambda>x. x \<in> tasks_of os pid"])
      (auto simp: tasks_of_def intro: add_task_links)
  with t show ?thesis by (auto simp: Pair readProcessTasks_334_def Let_def split: task_dir.splits)
qed

lemma readTasksRec_links_aux:
  "readTasksRec_334 os pid st = Some st' \<Longrightarrow> sound_links os (fst st) \<longrightarrow>
   sound_links os (fst st') \<and> currentRootPID (fst st') = currentRootPID (fst st)"
proof (rule readTasksRec_334.raw_induct [where P = "\<lambda>os pid st st'. sound_links os (fst st) \<longrightarrow>
    sound_links os (fst st') \<and> currentRootPID (fst st') = currentRootPID (fst st)", rotated], assumption, rule impI)
  fix rec and os :: "'a proc_system_scheme" and pid st st'
  assume IH: "\<And>os pid st st'. rec os pid st = Some st' \<Longrightarrow> sound_links os (fst st) \<longrightarrow>
      sound_links os (fst st') \<and> currentRootPID (fst st') = currentRootPID (fst st)"
    and body: "(let st = (touch_entry pid (fst st), snd st) in
      case entry (fst st) pid of None \<Rightarrow> Some st
      | Some data \<Rightarrow>
          let st = readProcessTasks_334 os pid (add_group (pd_pgrp data) (fst st), snd st) in
          for_each (\<lambda>child st.
              if is_process_334 (touch_entry child (fst st)) child
              then rec os child (touch_entry child (fst st), snd st)
              else Some (touch_entry child (fst st), snd st))
            (case entry (fst st) pid of None \<Rightarrow> [] | Some data \<Rightarrow> children data) st) = Some st'"
    and ok: "sound_links os (fst st)"
  let ?P = "\<lambda>u. sound_links os (fst u) \<and> currentRootPID (fst u) = currentRootPID (fst st)"
  let ?u = "(touch_entry pid (fst st), snd st)"
  have u: "?P ?u" using ok by (simp add: touch_links)
  show "?P st'"
  proof (cases "entry (touch_entry pid (fst st)) pid")
    case None
    with body u show ?thesis by (simp add: Let_def)
  next
    case (Some d)
    let ?v = "readProcessTasks_334 os pid (add_group (pd_pgrp d) (touch_entry pid (fst st)), snd st)"
    have root_tasks: "currentRootPID (fst (readProcessTasks_334 os pid (x, e))) = currentRootPID x" for x e
    proof -
      have "currentRootPID (fold (add_task_334 os pid) l y) = currentRootPID y" for l y
        by (induction l arbitrary: y) (simp_all add: add_task_334_def adjust_entry_def set_entry_def)
      then show ?thesis by (auto simp: readProcessTasks_334_def Let_def split: task_dir.splits)
    qed
    have v: "?P ?v" using u by (simp add: tasks_links group_links root_tasks) (simp add: add_group_def)
    have "for_each (\<lambda>child st. if is_process_334 (touch_entry child (fst st)) child
          then rec os child (touch_entry child (fst st), snd st) else Some (touch_entry child (fst st), snd st))
        (case entry (fst ?v) pid of None \<Rightarrow> [] | Some data \<Rightarrow> children data) ?v = Some st'"
      using body Some by (simp add: Let_def)
    then show ?thesis using v
    proof (rule for_each_inv [where P = ?P])
      fix c x x' assume x: "?P x" and step: "(if is_process_334 (touch_entry c (fst x)) c
          then rec os c (touch_entry c (fst x), snd x) else Some (touch_entry c (fst x), snd x)) = Some x'"
      have "?P (touch_entry c (fst x), snd x)" using x by (simp add: touch_links)
      with step IH [of os c "(touch_entry c (fst x), snd x)" x'] show "?P x'" by (auto split: if_splits)
    qed
  qed
qed

lemma readProcesses_links:
  assumes "readProcesses_334 os t = returns (t', evs)"
  shows "sound_links os t'" and "currentRootPID t' = currentRootPID t"
proof -
  let ?start = "readGlobalData_334 os ((rt_clear t)\<lparr>solverProcessGroups := {}\<rparr>)"
  have store: "rt_tree (fold store_meminfo fs x) = rt_tree x \<and> currentRootPID (fold store_meminfo fs x) = currentRootPID x" for fs x
  proof (induction fs arbitrary: x)
    case (Cons f fs)
    have "rt_tree (store_meminfo f x) = rt_tree x \<and> currentRootPID (store_meminfo f x) = currentRootPID x"
      by (cases f; cases "snd f") auto
    with Cons show ?case by simp
  qed simp
  have start: "rt_tree ?start = []" "currentRootPID ?start = currentRootPID t"
    by (simp_all add: readGlobalData_334_def rt_clear_def Let_def store split: option.split prod.split)
  from assms obtain names where names: "proc_entries os = Some names"
    by (cases "proc_entries os") (auto simp: readProcesses_334_def Let_def)
  let ?full = "(fold (add_process_334 os) (entry_pids names) ?start)\<lparr>rt_treeHasAllProcesses := True\<rparr>"
  have r: "readTasksRec_334 os (currentRootPID t) (identifyChildren_334 ?full) = Some (t', evs)"
    using assms by (simp add: readProcesses_334_def names Let_def lift_option_def returns_def split: option.splits)
  have "sound_links os ?start \<and> read_parents os ?start"
    using start(1) by (simp add: sound_links_def read_parents_def entry_def)
  then have "sound_links os x \<and> read_parents os x" if "x = fold (add_process_334 os) (entry_pids names) ?start" for x
    unfolding that by (rule fold_invariant [where Q = "\<lambda>_. True", rotated]) (simp_all add: add_process_links)
  then have "sound_links os ?full \<and> read_parents os ?full"
    by (simp add: sound_links_def read_parents_def entry_def)
  then have "sound_links os (fst (identifyChildren_334 ?full)) \<and> read_parents os (fst (identifyChildren_334 ?full))"
    unfolding identifyChildren_334_def
    by (intro fold_invariant [where P = "\<lambda>st. sound_links os (fst st) \<and> read_parents os (fst st)" and Q = "\<lambda>_. True"])
      (simp_all add: link_child_links)
  moreover have "currentRootPID (fst (identifyChildren_334 ?full)) = currentRootPID t"
  proof -
    have "currentRootPID (fst (fold link_child_334 l st)) = currentRootPID (fst st)" for l st
      by (induction l arbitrary: st) (auto simp: link_child_334_def adjust_entry_def Let_def split: prod.splits option.splits)
    moreover have "currentRootPID (fold (add_process_334 os) l x) = currentRootPID x" for l x
      by (induction l arbitrary: x) (simp_all add: add_process_334_def set_entry_def)
    ultimately show ?thesis using start(2) by (simp add: identifyChildren_334_def)
  qed
  ultimately show "sound_links os t'" "currentRootPID t' = currentRootPID t"
    using readTasksRec_links_aux [OF r] by simp_all
qed


lemma listProcessesRec_linked_aux:
  "listProcessesRec_334 pid st = Some st' \<Longrightarrow> sound_links os (snd st) \<longrightarrow>
   sound_links os (snd st') \<and> fst st \<subseteq> fst st' \<and>
   (\<forall>c \<in> fst st'. c \<in> fst st \<or> c = pid \<or> (\<exists>p \<in> fst st'. linked os p c))"
proof (rule listProcessesRec_334.raw_induct [where P = "\<lambda>pid st st'. sound_links os (snd st) \<longrightarrow>
   sound_links os (snd st') \<and> fst st \<subseteq> fst st' \<and>
   (\<forall>c \<in> fst st'. c \<in> fst st \<or> c = pid \<or> (\<exists>p \<in> fst st'. linked os p c))", rotated], assumption, rule impI)
  fix rec and pid st st'
  assume IH: "\<And>pid st st'. rec pid st = Some st' \<Longrightarrow> sound_links os (snd st) \<longrightarrow>
      sound_links os (snd st') \<and> fst st \<subseteq> fst st' \<and>
      (\<forall>c \<in> fst st'. c \<in> fst st \<or> c = pid \<or> (\<exists>p \<in> fst st'. linked os p c))"
    and body: "(let t = touch_entry pid (snd st) in
      case entry t pid of None \<Rightarrow> Some (fst st, t)
      | Some data \<Rightarrow> for_each rec (children data) (insert pid (fst st), t)) = Some st'"
    and ok: "sound_links os (snd st)"
  let ?t = "touch_entry pid (snd st)"
  have t: "sound_links os ?t" using ok by (rule touch_links)
  show "sound_links os (snd st') \<and> fst st \<subseteq> fst st' \<and>
      (\<forall>c \<in> fst st'. c \<in> fst st \<or> c = pid \<or> (\<exists>p \<in> fst st'. linked os p c))"
  proof (cases "entry ?t pid")
    case None
    with body t show ?thesis by (auto simp: Let_def)
  next
    case (Some d)
    let ?P = "\<lambda>u. sound_links os (snd u) \<and> insert pid (fst st) \<subseteq> fst u \<and>
      (\<forall>c \<in> fst u. c \<in> fst st \<or> c = pid \<or> (\<exists>p \<in> fst u. linked os p c))"
    have "for_each rec (children d) (insert pid (fst st), ?t) = Some st'" using body Some by (simp add: Let_def)
    then have "?P st'"
    proof (rule for_each_inv [where P = ?P])
      fix k u u' assume k: "k \<in> set (children d)" and u: "?P u" and step: "rec k u = Some u'"
      have "linked os pid k" using t Some k by (auto simp: sound_links_def)
      with IH [OF step] u show "?P u'" by blast
    qed (use t in auto)
    then show ?thesis by blast
  qed
qed

text \<open>
  After the processes have been read, every process that is listed, except the root, has
  a listed parent or is a task of a listed process. So a process of the solver whose parent has
  ended, and which belongs to init then, is no longer counted, nor are its descendants.
\<close>

theorem orphans_missed:
  assumes "readProcesses_334 os t = returns (t', evs)" and "listProcesses_334 {} t' = Some (l, t'')"
  shows "\<forall>c \<in> l. c = currentRootPID t \<or> (\<exists>p \<in> l. ppid_of os c = p \<or> c \<in> tasks_of os p)"
  using listProcessesRec_linked_aux [of "currentRootPID t'" "({}, t')" "(l, t'')" os]
    readProcesses_links [OF assms(1)] assms(2)
  by (simp add: listProcesses_334_def linked_def)


text \<open>A system with one process, which has two threads, and no readable stat file.\<close>

definition blind_system :: proc_system where
  "blind_system = demo_system\<lparr>proc_stat := \<lambda>_ _. None, proc_entries := Some [''self'', ''42''],
     task_entries := \<lambda>pid. if pid = 42 then Tasks [''42'', ''43''] else No_entry\<rparr>"

lemma blind_created:
  "pd_ppid (pd_create_334 blind_system 42 tid raw) = - 1" "pd_tid (pd_create_334 blind_system 42 tid raw) = tid"
  by (simp_all add: pd_create_334_def pd_read_334_def read_stat_334_def blind_system_def pd_construct_def pd_init_def)

definition blind_process :: process_data where
  "blind_process = pd_create_334 blind_system 42 0 (garbage blind_system)"

definition blind_task :: process_data where
  "blind_task = pd_create_334 blind_system 42 43 (garbage blind_system)"

lemma blind_fields:
  "pd_ppid blind_process = - 1" "pd_tid blind_process = 0" "children blind_process = []"
  "pd_tid blind_task = 43" "children blind_task = []"
  by (simp_all add: blind_process_def blind_task_def blind_created created_children)

definition blind_tree :: "rooted_tree \<Rightarrow> rooted_tree" where
  "blind_tree t = (add_group (pd_pgrp blind_process) (t\<lparr>solverProcessGroups := {}, rt_treeHasAllProcesses := True\<rparr>))
     \<lparr>rt_tree := [(42, Some (blind_process\<lparr>children := [43]\<rparr>)), (43, Some blind_task)]\<rparr>"

lemma blind_tree_entries [simp]:
  "entry (blind_tree t) 42 = Some (blind_process\<lparr>children := [43]\<rparr>)" "entry (blind_tree t) 43 = Some blind_task"
  "touch_entry 42 (blind_tree t) = blind_tree t" "touch_entry 43 (blind_tree t) = blind_tree t"
  "currentRootPID (blind_tree t) = currentRootPID t" "is_process_334 (blind_tree t) 43 = False"
  by (simp_all add: blind_tree_def entry_def map_find_def touch_entry_def add_group_def is_process_334_def isTask_def
      blind_fields)

lemma blind_read:
  assumes "currentRootPID t = 42"
  shows "readProcesses_334 blind_system t = returns (blind_tree t, [])"
proof -
  let ?t0 = "t\<lparr>solverProcessGroups := {}, rt_tree := [(42, Some blind_process)], rt_treeHasAllProcesses := True\<rparr>"
  have pids: "entry_pids [''self'', ''42''] = [42]" "entry_pids [''42'', ''43''] = [42, 43]"
    by (simp_all add: entry_pids_def atoi_def isdigit_def digits_value_def digit_value_def)
  have sys: "task_entries blind_system 42 = Tasks [''42'', ''43'']" "proc_entries blind_system = Some [''self'', ''42'']"
    "loadavg_file blind_system = None" "meminfo_file blind_system = None" "uptime_file blind_system = None"
    by (simp_all add: blind_system_def demo_system_def)
  have first: "entry ?t0 42 = Some blind_process" "touch_entry 42 ?t0 = ?t0"
    "touch_entry 42 (add_group (pd_pgrp blind_process) ?t0) = add_group (pd_pgrp blind_process) ?t0"
    "entry (add_group (pd_pgrp blind_process) ?t0) 42 = Some blind_process"
    by (simp_all add: touch_entry_def entry_def map_find_def add_group_def)
  have task: "add_task_334 blind_system 42 43 (add_group (pd_pgrp blind_process) ?t0) = blind_tree t"
    unfolding add_task_334_def blind_task_def [symmetric]
    by (simp add: blind_tree_def adjust_entry_def set_entry_def map_adjust_def addChild_def blind_fields add_group_def)
  have "readProcessTasks_334 blind_system 42 (add_group (pd_pgrp blind_process) ?t0, []) = (blind_tree t, [])"
    by (simp only: readProcessTasks_334_def Let_def prod.case sys pids fold.simps comp_def id_def task task_dir.case first
        add_task_334_def [of _ 42 42] simp_thms if_True if_False option.distinct)
  then have "readTasksRec_334 blind_system 42 (?t0, []) = Some (blind_tree t, [])"
    by (simp add: readTasksRec_334.simps [of blind_system 42] Let_def first)
  moreover have "identifyChildren_334 ?t0 = (?t0, [])"
    by (simp add: identifyChildren_334_def link_child_334_def blind_fields Let_def first)
  moreover have "readGlobalData_334 blind_system ((rt_clear t)\<lparr>solverProcessGroups := {}\<rparr>) =
      t\<lparr>rt_tree := [], solverProcessGroups := {}\<rparr>"
    by (simp add: readGlobalData_334_def sys rt_clear_def)
  ultimately show ?thesis
    by (simp add: readProcesses_334_def sys pids add_process_334_def blind_process_def [symmetric] set_entry_def assms)
qed

lemma blind_list: "currentRootPID t = 42 \<Longrightarrow> listProcesses_334 {} (blind_tree t) = Some ({42, 43}, blind_tree t)"
  by (simp add: listProcesses_334_def listProcessesRec_334.simps [of 42] listProcessesRec_334.simps [of 43] Let_def
      blind_fields insert_commute)

lemma orphans_missed_witness:
  "\<exists>p. (p = 42 \<or> p = 43) \<and> (ppid_of blind_system 43 = p \<or> 43 \<in> tasks_of blind_system p)"
proof -
  have "currentRootPID demo_rooted = 42" by (simp add: demo_rooted_def)
  with orphans_missed [OF blind_read [OF this] blind_list [OF this]]
  have "\<exists>p \<in> {42, 43}. ppid_of blind_system 43 = p \<or> 43 \<in> tasks_of blind_system p" by simp
  then show ?thesis by blast
qed

end
