(* ===== verification/Rooted_Sampling.thy ===== *)
theory Rooted_Sampling
  imports Rooted_Tree
begin

text \<open>
  readProcessData and displayProcessData of runsolver.cc, version 3.3.4-patched: one sampling of
  the processes, the time that children take with them when they are not waited for, and the
  limits that request the end of the solver.
\<close>

section \<open>State\<close>

text \<open>
  What a sampling does: texts, a tree handed to the history, the time handed to the time stamper,
  the time written to the socket, and calls of stopSolver with their message.
\<close>

datatype sample_event = Shown event | Pushed rooted_tree | Stamped rat | Sent rat | Stop_called string

record sampler =
  sa_childpid :: int
  sa_procTree :: rooted_tree
  sa_lastProcTree :: "rooted_tree option"
  sa_elapsed :: rat
  sa_lastDisplayedElapsedTime :: rat
  sa_cleanup :: bool
  sa_listAllProcesses :: "int set"
  currentUserTime :: rat
  currentSystemTime :: rat
  sa_currentCPUTime :: rat
  lastUserTime :: rat
  lastSystemTime :: rat
  lastCPUTime :: rat
  lostUserTime :: rat
  lostSystemTime :: rat
  lostCPUTime :: rat
  sa_currentVSize :: int
  lastVSize :: int
  sa_maxVSize :: int
  sa_limitCPUTime :: rat
  sa_limitWallClockTime :: rat
  sa_limitVSize :: int

section \<open>The parts of a sampling\<close>

text \<open>A copy of the last tree is filled again, by a new search or by an update.\<close>

definition fill_tree ::
  "rooted_tree \<Rightarrow> process_data \<Rightarrow> 'a proc_system_scheme \<Rightarrow> bool \<Rightarrow> sampler \<Rightarrow>
    (rooted_tree \<times> int set \<times> event list) run" where
  "fill_tree raw raw_data os updateChildrenList s =
     run_then (lift_option (rt_copy raw raw_data (sa_procTree s))) (\<lambda>t.
     let t = setElapsedTime_334 (sa_elapsed s) t in
     if updateChildrenList then
       run_then (readProcesses_334 os t) (\<lambda>(t, evs).
         if sa_cleanup s then
           run_then (lift_option (listProcesses_334 (sa_listAllProcesses s) t)) (\<lambda>(l, t). returns (t, l, evs))
         else returns (t, sa_listAllProcesses s, evs))
     else run_then (lift_option (updateProcessesData_334 os t)) (\<lambda>t. returns (t, sa_listAllProcesses s, [])))"

definition take_sums :: "u64 \<Rightarrow> rooted_tree \<Rightarrow> sampler \<Rightarrow> sampler run" where
  "take_sums ticks t s =
     run_then (lift_option (currentCPUTime_334 ticks t)) (\<lambda>((user, system), t).
     run_then (lift_option (currentVSize_334 t)) (\<lambda>(vs, t).
       returns (s\<lparr>sa_procTree := t,
         lastCPUTime := sa_currentCPUTime s, lastSystemTime := currentSystemTime s, lastUserTime := currentUserTime s,
         lastVSize := sa_currentVSize s, currentUserTime := user, currentSystemTime := system,
         sa_currentCPUTime := flt (user + system), sa_currentVSize := vs, sa_maxVSize := max (sa_maxVSize s) vs\<rparr>)))"

text \<open>A sum below the last one: the difference is lost time.\<close>

definition add_lost :: "sampler \<Rightarrow> sampler" where
  "add_lost s =
     (if sa_currentCPUTime s < lastCPUTime s then
        s\<lparr>lostCPUTime := flt (lostCPUTime s + flt (lastCPUTime s - sa_currentCPUTime s)),
          lostSystemTime := flt (lostSystemTime s + flt (lastSystemTime s - currentSystemTime s)),
          lostUserTime := flt (lostUserTime s + flt (lastUserTime s - currentUserTime s))\<rparr>
      else s)"

definition lost_text :: "sampler \<Rightarrow> string" where
  "lost_text s =
     [newline] @ ''############'' @ [newline] @ ''# WARNING:'' @ [newline] @
     ''# current cumulated CPU time ('' @ ostream_float (sa_currentCPUTime s) @
     '' s) is less than in the last sample ('' @ ostream_float (lastCPUTime s) @ '' s)'' @ [newline] @
     ''# The time of a child was probably not reported to its father.'' @ [newline] @
     ''# (see the two samples below)'' @ [newline] @
     ''# Adding the difference ('' @ ostream_float (flt (lastCPUTime s - sa_currentCPUTime s)) @
     '' s) to the 'lost time'.'' @ [newline]"

definition show_tree :: "u64 \<Rightarrow> rat \<Rightarrow> int \<Rightarrow> rooted_tree \<Rightarrow> (sample_event list \<times> rooted_tree) run" where
  "show_tree ticks cpu vs t =
     run_then (lift_option (dumpProcessTree_334 ticks t)) (\<lambda>(d, t).
       returns ([Shown (Print (d @ cpu_and_vsize cpu (flt (of_int vs))))], t))"

definition warn_lost :: "u64 \<Rightarrow> sampler \<Rightarrow> (sample_event list \<times> sampler) run" where
  "warn_lost ticks s =
     (if sa_currentCPUTime s < lastCPUTime s then
        run_then (case sa_lastProcTree s of None \<Rightarrow> returns ([], None)
            | Some l \<Rightarrow> run_then (show_tree ticks (lastCPUTime s) (lastVSize s) l) (\<lambda>(ev, l). returns (ev, Some l)))
          (\<lambda>(ev1, l).
        run_then (show_tree ticks (sa_currentCPUTime s) (sa_currentVSize s) (sa_procTree s)) (\<lambda>(ev2, t).
          returns ([Shown (Print (lost_text s))] @ ev1 @ ev2 @
              [Shown (Print (''#'' @ [newline] @ ''############'' @ [newline] @ endl))],
            s\<lparr>sa_lastProcTree := l, sa_procTree := t\<rparr>)))
      else returns ([], s))"

text \<open>The limits, in the order of the code; 0 is no limit.\<close>

definition check_limits_334 :: "sampler \<Rightarrow> sample_event list" where
  "check_limits_334 s =
     (if sa_limitCPUTime s \<noteq> 0 \<and> sa_limitCPUTime s \<le> flt (sa_currentCPUTime s + lostCPUTime s)
      then [Shown (Print (''runsolver_max_cpu_time_exceeded'' @ endl)),
            Stop_called ''Maximum CPU time exceeded: sending SIGTERM then SIGKILL''] else []) @
     (if sa_limitWallClockTime s \<noteq> 0 \<and> sa_limitWallClockTime s \<le> sa_elapsed s
      then [Stop_called ''Maximum wall clock time exceeded: sending SIGTERM then SIGKILL''] else []) @
     (if sa_limitVSize s \<noteq> 0 \<and> sa_limitVSize s \<le> sa_currentVSize s
      then [Shown (Print (''runsolver_max_memory_limit_exceeded'' @ endl)),
            Stop_called ''Maximum VSize exceeded: sending SIGTERM then SIGKILL''] else [])"

section \<open>Sampling\<close>

text \<open>
  The result is true when the root has ended; then the sample is given up, and both pointers
  point to the last tree.
\<close>

definition readProcessData_334 ::
  "rooted_tree \<Rightarrow> process_data \<Rightarrow> 'a proc_system_scheme \<Rightarrow> u64 \<Rightarrow> bool \<Rightarrow> sampler \<Rightarrow>
    (bool \<times> sample_event list \<times> sampler) run" where
  "readProcessData_334 raw raw_data os ticks updateChildrenList s =
     (if sa_childpid s = 0 then returns (False, [], s)
      else
        run_then (fill_tree raw raw_data os updateChildrenList s) (\<lambda>(t, l, evs).
        let last_tree = sa_procTree s; s = s\<lparr>sa_lastProcTree := Some last_tree, sa_listAllProcesses := l\<rparr> in
        if rootProcessEnded t then returns (True, map Shown evs, s)
        else
          run_then (take_sums ticks t s) (\<lambda>s.
          run_then (warn_lost ticks (add_lost s)) (\<lambda>(warned, s).
            returns (False,
              map Shown evs @ warned @ [Pushed (sa_procTree s), Stamped (flt (sa_currentCPUTime s + lostCPUTime s))] @
              check_limits_334 s @ [Sent (sa_currentCPUTime s)], s)))))"

definition displayProcessData_334 ::
  "'a proc_system_scheme \<Rightarrow> u64 \<Rightarrow> nat \<Rightarrow> rat \<Rightarrow> rat \<Rightarrow> sampler \<Rightarrow> (sample_event list \<times> sampler) run" where
  "displayProcessData_334 os ticks myUid cpuUsageThreshold heavyProcessThreshold s =
     run_then (show_tree ticks (sa_currentCPUTime s) (sa_currentVSize s) (sa_procTree s)) (\<lambda>(ev, t).
     let s = s\<lparr>sa_lastDisplayedElapsedTime := rt_elapsed (sa_procTree s), sa_procTree := t\<rparr> in
     if 2 < sa_elapsed s \<and> sa_currentCPUTime s < flt (cpuUsageThreshold * sa_elapsed s) then
       run_then (dumpHeavyProcesses_334 os ticks myUid heavyProcessThreshold t) (\<lambda>(t, evs).
         returns (ev @ map Shown evs, s\<lparr>sa_procTree := t\<rparr>))
     else returns (ev, s))"


section \<open>What a sampling requests\<close>

fun stop_calls :: "sample_event list \<Rightarrow> string list" where
  "stop_calls [] = []"
| "stop_calls (Stop_called m # ev) = m # stop_calls ev"
| "stop_calls (_ # ev) = stop_calls ev"

lemma stop_calls_append [simp]: "stop_calls (ev @ ev') = stop_calls ev @ stop_calls ev'"
  by (induction ev rule: stop_calls.induct) simp_all

lemma stop_calls_shown [simp]: "stop_calls (map Shown evs) = []"
  by (induction evs) simp_all

lemma show_tree_quiet: "show_tree ticks cpu vs t = returns (ev, t') \<Longrightarrow> stop_calls ev = []"
  by (auto simp: show_tree_def run_then_iff)

lemma add_lost_frame [simp]:
  "sa_currentCPUTime (add_lost s) = sa_currentCPUTime s" "sa_currentVSize (add_lost s) = sa_currentVSize s"
  "lastCPUTime (add_lost s) = lastCPUTime s" "sa_elapsed (add_lost s) = sa_elapsed s"
  "sa_limitCPUTime (add_lost s) = sa_limitCPUTime s" "sa_limitWallClockTime (add_lost s) = sa_limitWallClockTime s"
  "sa_limitVSize (add_lost s) = sa_limitVSize s"
  by (simp_all add: add_lost_def)

lemma warn_lost_frame:
  assumes "warn_lost ticks s = returns (ev, s')"
  shows "stop_calls ev = []" and "\<exists>l t. s' = s\<lparr>sa_lastProcTree := l, sa_procTree := t\<rparr>"
proof -
  show "stop_calls ev = []" using assms
    by (auto simp: warn_lost_def run_then_iff dest!: show_tree_quiet split: if_splits option.splits)
  show "\<exists>l t. s' = s\<lparr>sa_lastProcTree := l, sa_procTree := t\<rparr>"
  proof (cases "sa_currentCPUTime s < lastCPUTime s")
    case True
    then show ?thesis using assms by (auto simp: warn_lost_def run_then_iff)
  next
    case False
    then have "s' = s\<lparr>sa_lastProcTree := sa_lastProcTree s, sa_procTree := sa_procTree s\<rparr>"
      using assms by (simp add: warn_lost_def)
    then show ?thesis by blast
  qed
qed

lemma take_sums_frame:
  "take_sums ticks t s = returns s' \<Longrightarrow> sa_elapsed s' = sa_elapsed s \<and> sa_limitCPUTime s' = sa_limitCPUTime s \<and>
     sa_limitWallClockTime s' = sa_limitWallClockTime s \<and> sa_limitVSize s' = sa_limitVSize s \<and>
     lastCPUTime s' = sa_currentCPUTime s \<and> lostCPUTime s' = lostCPUTime s"
  by (auto simp: take_sums_def run_then_iff)

text \<open>The stages of a sampling that is not given up.\<close>

lemma sample_stages:
  assumes "readProcessData_334 raw raw_data os ticks full s = returns (False, evs, s')" and "sa_childpid s \<noteq> 0"
  obtains t l evs0 s0 s1 warned where
    "fill_tree raw raw_data os full s = returns (t, l, evs0)" "\<not> rootProcessEnded t"
    "take_sums ticks t (s\<lparr>sa_lastProcTree := Some (sa_procTree s), sa_listAllProcesses := l\<rparr>) = returns s0"
    "warn_lost ticks (add_lost s0) = returns (warned, s')"
    "evs = map Shown evs0 @ warned @ [Pushed (sa_procTree s'), Stamped (flt (sa_currentCPUTime s' + lostCPUTime s'))] @
       check_limits_334 s' @ [Sent (sa_currentCPUTime s')]"
proof -
  from assms obtain t l evs0 where f: "fill_tree raw raw_data os full s = returns (t, l, evs0)"
    and e: "\<not> rootProcessEnded t"
    by (auto simp: readProcessData_334_def run_then_iff Let_def split: if_splits)
  let ?s = "s\<lparr>sa_lastProcTree := Some (sa_procTree s), sa_listAllProcesses := l\<rparr>"
  from assms f e obtain s0 where s0: "take_sums ticks t ?s = returns s0"
    by (auto simp: readProcessData_334_def run_then_iff Let_def)
  from assms f e s0 obtain warned where "warn_lost ticks (add_lost s0) = returns (warned, s')"
    "evs = map Shown evs0 @ warned @ [Pushed (sa_procTree s'), Stamped (flt (sa_currentCPUTime s' + lostCPUTime s'))] @
       check_limits_334 s' @ [Sent (sa_currentCPUTime s')]"
    by (auto simp: readProcessData_334_def run_then_iff Let_def)
  with f e s0 show ?thesis by (rule that)
qed

text \<open>What a sampling that is not given up requests and keeps.\<close>

lemma sampling_effects:
  assumes "readProcessData_334 raw raw_data os ticks full s = returns (False, evs, s')" and "sa_childpid s \<noteq> 0"
  shows "stop_calls evs = stop_calls (check_limits_334 s')"
    and "Stamped (flt (sa_currentCPUTime s' + lostCPUTime s')) \<in> set evs"
    and "sa_limitCPUTime s' = sa_limitCPUTime s \<and> sa_limitWallClockTime s' = sa_limitWallClockTime s \<and>
      sa_limitVSize s' = sa_limitVSize s \<and> sa_elapsed s' = sa_elapsed s"
proof -
  from assms obtain t l evs0 s0 warned where
    s0: "take_sums ticks t (s\<lparr>sa_lastProcTree := Some (sa_procTree s), sa_listAllProcesses := l\<rparr>) = returns s0"
    and w: "warn_lost ticks (add_lost s0) = returns (warned, s')"
    and evs: "evs = map Shown evs0 @ warned @ [Pushed (sa_procTree s'), Stamped (flt (sa_currentCPUTime s' + lostCPUTime s'))] @
       check_limits_334 s' @ [Sent (sa_currentCPUTime s')]"
    by (rule sample_stages)
  show "stop_calls evs = stop_calls (check_limits_334 s')"
    "Stamped (flt (sa_currentCPUTime s' + lostCPUTime s')) \<in> set evs"
    using warn_lost_frame(1) [OF w] by (simp_all add: evs)
  show "sa_limitCPUTime s' = sa_limitCPUTime s \<and> sa_limitWallClockTime s' = sa_limitWallClockTime s \<and>
      sa_limitVSize s' = sa_limitVSize s \<and> sa_elapsed s' = sa_elapsed s"
    using take_sums_frame [OF s0] warn_lost_frame(2) [OF w] by auto
qed

text \<open>
  Property C19: a sampling asks for the end of the solver exactly for the limits that are set and
  reached, in the order CPU time, wall clock time, memory: the CPU time counts with the lost time,
  and it is handed to the time stamper with it too.
\<close>

theorem sample_requests:
  assumes "readProcessData_334 raw raw_data os ticks full s = returns (False, evs, s')" and "sa_childpid s \<noteq> 0"
  shows "stop_calls evs =
      (if sa_limitCPUTime s \<noteq> 0 \<and> sa_limitCPUTime s \<le> flt (sa_currentCPUTime s' + lostCPUTime s')
       then [''Maximum CPU time exceeded: sending SIGTERM then SIGKILL''] else []) @
      (if sa_limitWallClockTime s \<noteq> 0 \<and> sa_limitWallClockTime s \<le> sa_elapsed s
       then [''Maximum wall clock time exceeded: sending SIGTERM then SIGKILL''] else []) @
      (if sa_limitVSize s \<noteq> 0 \<and> sa_limitVSize s \<le> sa_currentVSize s'
       then [''Maximum VSize exceeded: sending SIGTERM then SIGKILL''] else []) \<and>
    Stamped (flt (sa_currentCPUTime s' + lostCPUTime s')) \<in> set evs"
  using sampling_effects [OF assms] by (simp add: check_limits_334_def)


text \<open>
  When the root has ended, the sampling changes nothing but the list of all processes:
  no tree goes to the history, no limit is checked, and both pointers are the last tree.
\<close>

theorem ended_root_ignored:
  assumes "readProcessData_334 raw raw_data os ticks full s = returns (True, evs, s')"
  shows "s' = s\<lparr>sa_lastProcTree := Some (sa_procTree s), sa_listAllProcesses := sa_listAllProcesses s'\<rparr> \<and>
    (\<exists>shown. evs = map Shown shown)"
  using assms by (auto simp: readProcessData_334_def run_then_iff Let_def split: if_splits)


section \<open>A sampling of the system with one process\<close>

definition demo_sampler :: "rat \<Rightarrow> sampler" where
  "demo_sampler cpu = \<lparr>sa_childpid = 42, sa_procTree = demo_rooted, sa_lastProcTree = None, sa_elapsed = 12,
     sa_lastDisplayedElapsedTime = 0, sa_cleanup = False, sa_listAllProcesses = {}, currentUserTime = 0,
     currentSystemTime = 0, sa_currentCPUTime = cpu, lastUserTime = 0, lastSystemTime = 0, lastCPUTime = 0,
     lostUserTime = 0, lostSystemTime = 0, lostCPUTime = 0, sa_currentVSize = 0, lastVSize = 0, sa_maxVSize = 0,
     sa_limitCPUTime = 0, sa_limitWallClockTime = 10, sa_limitVSize = 0\<rparr>"

lemma demo_rooted_entries:
  "touch_entry 42 demo_rooted = demo_rooted" "touch_entry 43 demo_rooted = demo_rooted" "touch_entry 7 demo_rooted = demo_rooted"
  "entry demo_rooted 7 = None" "currentRootPID demo_rooted = 42"
  "\<exists>d. entry demo_rooted 42 = Some d \<and> children d = [43, 7]" "\<exists>d. entry demo_rooted 43 = Some d \<and> children d = []"
  by (simp_all add: demo_rooted_def touch_entry_def entry_def map_find_def)

lemma demo_copy: "\<exists>t. rt_copy raw raw_data demo_rooted = Some t \<and> currentRootPID t = 42"
proof -
  obtain d k where d: "entry demo_rooted 42 = Some d" "children d = [43, 7]"
    and k: "entry demo_rooted 43 = Some k" "children k = []" using demo_rooted_entries by blast
  show ?thesis
    by (simp add: rt_copy_def cloneRec_334.simps [of _ _ 42] cloneRec_334.simps [of _ _ 43] cloneRec_334.simps [of _ _ 7]
        d k demo_rooted_entries set_entry_def)
qed

lemma demo_dump: "\<exists>d. dumpProcessTree_334 ticks demo_rooted = Some (d, demo_rooted)"
proof -
  obtain d k where d: "entry demo_rooted 42 = Some d" "children d = [43, 7]"
    and k: "entry demo_rooted 43 = Some k" "children k = []" using demo_rooted_entries by blast
  show ?thesis
    by (simp add: dumpProcessTree_334_def dumpProcessTreeRec_334.simps [of _ 42] dumpProcessTreeRec_334.simps [of _ 43]
        dumpProcessTreeRec_334.simps [of _ 7] d k demo_rooted_entries Let_def)
qed

lemma blind_times: "utime blind_process = 0" "stime blind_process = 0" "cutime blind_process = 0"
  "cstime blind_process = 0" "vsize blind_process = 0"
  by (simp_all add: blind_process_def pd_create_334_def pd_read_334_def read_stat_334_def blind_system_def pd_construct_def pd_init_def)

lemma blind_sums:
  assumes "currentRootPID t = 42"
  shows "currentCPUTime_334 ticks (blind_tree t) = Some ((0, 0), blind_tree t)"
    and "currentVSize_334 (blind_tree t) = Some (0, blind_tree t)"
    and "\<exists>d. dumpProcessTree_334 ticks (blind_tree t) = Some (d, blind_tree t)"
proof -
  have "getOverallUserTime ticks (blind_process\<lparr>children := [43]\<rparr>) = 0"
    "getOverallSystemTime ticks (blind_process\<lparr>children := [43]\<rparr>) = 0" "getVSize (blind_process\<lparr>children := [43]\<rparr>) = 0"
    by (simp_all add: getOverallUserTime_def getOverallSystemTime_def getVSize_def float_of_def blind_times)
  then show "currentCPUTime_334 ticks (blind_tree t) = Some ((0, 0), blind_tree t)"
    "currentVSize_334 (blind_tree t) = Some (0, blind_tree t)"
    using assms by (simp_all add: currentCPUTime_334_def currentCPUTimeRec_334.simps [of _ 42] currentVSize_334_def
        currentVSizeRec_334.simps [of 42] Let_def)
  show "\<exists>d. dumpProcessTree_334 ticks (blind_tree t) = Some (d, blind_tree t)"
    using assms by (simp add: dumpProcessTree_334_def dumpProcessTreeRec_334.simps [of _ 42]
        dumpProcessTreeRec_334.simps [of _ 43] Let_def blind_fields)
qed

lemma demo_sample:
  assumes "0 \<le> cpu"
  shows "\<exists>evs s'. readProcessData_334 raw raw_data blind_system ticks True (demo_sampler cpu) = returns (False, evs, s') \<and>
    sa_currentCPUTime s' = 0 \<and> sa_currentVSize s' = 0"
proof -
  obtain t where t: "rt_copy raw raw_data demo_rooted = Some t" "currentRootPID t = 42" using demo_copy by blast
  let ?t = "setElapsedTime_334 12 t" and ?s = "demo_sampler cpu"
  have r: "currentRootPID ?t = 42" using t(2) by (simp add: setElapsedTime_334_def)
  have f: "fill_tree raw raw_data blind_system True ?s = returns (blind_tree ?t, {}, [])"
    using t by (simp add: fill_tree_def demo_sampler_def blind_read [OF r] Let_def)
  have e: "\<not> rootProcessEnded (blind_tree ?t)" using r by (simp add: rootProcessEnded_def)
  obtain s0 where s0: "take_sums ticks (blind_tree ?t) (?s\<lparr>sa_lastProcTree := Some demo_rooted, sa_listAllProcesses := {}\<rparr>) = returns s0"
    "sa_currentCPUTime s0 = 0" "sa_currentVSize s0 = 0" "sa_procTree s0 = blind_tree ?t" "sa_lastProcTree s0 = Some demo_rooted"
    by (simp add: take_sums_def blind_sums [OF r] demo_sampler_def)
  obtain d1 d2 where "dumpProcessTree_334 ticks demo_rooted = Some (d1, demo_rooted)"
    "dumpProcessTree_334 ticks (blind_tree ?t) = Some (d2, blind_tree ?t)"
    using demo_dump blind_sums(3) [OF r] by blast
  moreover have "sa_procTree (add_lost s0) = blind_tree ?t" "sa_lastProcTree (add_lost s0) = Some demo_rooted"
    using s0 by (simp_all add: add_lost_def)
  ultimately obtain warned s' where w: "warn_lost ticks (add_lost s0) = returns (warned, s')"
    by (cases "sa_currentCPUTime (add_lost s0) < lastCPUTime (add_lost s0)") (auto simp: warn_lost_def show_tree_def)
  have "sa_currentCPUTime s' = 0" "sa_currentVSize s' = 0" using warn_lost_frame(2) [OF w] s0 by auto
  moreover have "sa_childpid ?s \<noteq> 0" "sa_procTree ?s = demo_rooted" by (simp_all add: demo_sampler_def)
  ultimately show ?thesis using e s0(1) w by (simp add: readProcessData_334_def f Let_def)
qed

lemma sample_requests_witness:
  "\<exists>evs s'. readProcessData_334 demo_rooted (garbage demo_system) blind_system 100 True (demo_sampler 0) = returns (False, evs, s') \<and>
    stop_calls evs = [''Maximum wall clock time exceeded: sending SIGTERM then SIGKILL'']"
proof -
  obtain evs s' where r: "readProcessData_334 demo_rooted (garbage demo_system) blind_system 100 True (demo_sampler 0) =
      returns (False, evs, s')"
    using demo_sample [of 0 demo_rooted "garbage demo_system" 100] by auto
  have "sa_childpid (demo_sampler 0) \<noteq> 0" by (simp add: demo_sampler_def)
  from sample_requests [OF r this] r show ?thesis by (auto simp: demo_sampler_def)
qed


definition ended_sampler :: sampler where
  "ended_sampler = (demo_sampler 0)\<lparr>sa_procTree := demo_rooted\<lparr>currentRootPID := 7\<rparr>\<rparr>"

lemma ended_root_ignored_witness:
  "\<exists>evs s'. readProcessData_334 demo_rooted (garbage demo_system) blind_system 100 False ended_sampler = returns (True, evs, s') \<and>
    sa_procTree s' = demo_rooted\<lparr>currentRootPID := 7\<rparr>"
proof -
  have "entry (demo_rooted\<lparr>currentRootPID := 7\<rparr>) 7 = None" by (simp add: demo_rooted_def entry_def map_find_def)
  then obtain evs s' where r: "readProcessData_334 demo_rooted (garbage demo_system) blind_system 100 False ended_sampler =
      returns (True, evs, s')"
    by (simp add: readProcessData_334_def ended_sampler_def demo_sampler_def fill_tree_def rt_copy_def
        cloneRec_334.simps [of _ _ 7] updateProcessesData_334_def updateProcessesDataRec_334.simps [of _ 7]
        setElapsedTime_334_def touch_entry_def entry_def map_find_def rootProcessEnded_def Let_def)
  have "sa_procTree s' = sa_procTree ended_sampler"
    using ended_root_ignored [OF r] by (metis sampler.ext_inject sampler.surjective sampler.update_convs(3) sampler.update_convs(7))
  then show ?thesis using r by (simp add: ended_sampler_def)
qed

end
