(* ===== verification/Filters.thy ===== *)
theory Filters
  imports Runsolver_Prelude
begin

text \<open>
  CircularBufferFilter.hh: systemWrite, which handles partial writes and EINTR, the filter
  NullFilter, and CircularBufferFilter, which keeps the first and the last bytes of an
  output that exceeds a limit.
\<close>

section \<open>The system call write\<close>

text \<open>
  The answers of the kernel to successive calls of write: a number of bytes accepted (cut
  to what was offered), an interruption (EINTR) or another error. \<open>kernel w n\<close> is the answer
  to the n-th call; \<open>files w fd\<close> are the bytes that descriptor fd has received.
\<close>

datatype write_answer = Wrote nat | Interrupted | Write_error

record world =
  files :: "int \<Rightarrow> string"
  kernel :: "nat \<Rightarrow> write_answer"
  calls :: nat
  perrors :: "string list"

definition append_file :: "int \<Rightarrow> string \<Rightarrow> 'a world_scheme \<Rightarrow> 'a world_scheme" where
  "append_file fd bs w = w\<lparr>files := (files w)(fd := files w fd @ bs)\<rparr>"

text \<open>
  The do-while loop of systemWrite; None when it never ends (the kernel accepts nothing for
  ever). A continue statement in a do-while loop goes to its condition, so EINTR leaves the
  loop when nothing is left to write.
\<close>

partial_function (option) systemWrite ::
  "int \<Rightarrow> string \<Rightarrow> 'a world_scheme \<Rightarrow> 'a world_scheme option" where
  "systemWrite fd buf w =
     (let w' = w\<lparr>calls := Suc (calls w)\<rparr> in
      case kernel w (calls w) of
        Write_error \<Rightarrow> Some (w'\<lparr>perrors := perrors w' @ [''write failed: '']\<rparr>)
      | Interrupted \<Rightarrow> (if buf = [] then Some w' else systemWrite fd buf w')
      | Wrote k \<Rightarrow>
          (let n = min k (length buf); rest = drop n buf;
               w'' = append_file fd (take n buf) w'
           in if rest = [] then Some w'' else systemWrite fd rest w''))"

text \<open>
  A kernel is fair when no call of write fails and it accepts data again and again; it may
  interrupt and cut writes as often as it likes in between.
\<close>

definition fair_kernel :: "'a world_scheme \<Rightarrow> bool" where
  "fair_kernel w \<longleftrightarrow> (\<forall>n. kernel w n \<noteq> Write_error) \<and>
     (\<forall>n. \<exists>m\<ge>n. \<exists>k>0. kernel w m = Wrote k)"

lemma append_file_simps [os_simps]:
  "kernel (append_file fd bs w) = kernel w"
  "calls (append_file fd bs w) = calls w"
  "perrors (append_file fd bs w) = perrors w"
  "files (append_file fd bs w) = (files w)(fd := files w fd @ bs)"
  "append_file fd bs (append_file fd cs w) = append_file fd (cs @ bs) w"
  "append_file fd bs (w\<lparr>calls := n\<rparr>) = (append_file fd bs w)\<lparr>calls := n\<rparr>"
  by (simp_all add: append_file_def)

lemma append_file_Nil [simp]: "append_file fd [] w = w"
  by (simp add: append_file_def)

lemma fair_kernel_frame [os_simps]:
  "fair_kernel (append_file fd bs w) = fair_kernel w"
  "fair_kernel (w\<lparr>calls := n\<rparr>) = fair_kernel w"
  by (simp_all add: fair_kernel_def os_simps)

text \<open>
  Under a fair kernel systemWrite returns, and the descriptor has received exactly the
  bytes of the buffer. The induction follows the bytes left, and for each number of bytes
  left the calls that remain before the kernel accepts data.
\<close>

definition delivers :: "int \<Rightarrow> string \<Rightarrow> 'a world_scheme \<Rightarrow> bool" where
  "delivers fd buf w \<longleftrightarrow>
     (\<exists>n. systemWrite fd buf w = Some ((append_file fd buf w)\<lparr>calls := n\<rparr>))"

lemma systemWrite_accept:
  fixes w :: "'a world_scheme"
  assumes "fair_kernel w" and "kernel w (calls w) = Wrote j" and "0 < j" and "buf \<noteq> []"
    and IH: "\<And>cs (v :: 'a world_scheme). length cs < length buf \<Longrightarrow> fair_kernel v \<Longrightarrow> delivers fd cs v"
  shows "delivers fd buf w"
proof -
  let ?n = "min j (length buf)"
  let ?v = "append_file fd (take ?n buf) (w\<lparr>calls := Suc (calls w)\<rparr>)"
  show ?thesis
  proof (cases "drop ?n buf = []")
    case True
    then have "take ?n buf = buf" by simp
    then show ?thesis using True assms(2)
      by (auto simp: delivers_def systemWrite.simps [of fd buf w] Let_def os_simps)
  next
    case False
    have "length (drop ?n buf) < length buf" using assms(3,4) by auto
    moreover have "fair_kernel ?v" using assms(1) by (simp add: os_simps)
    ultimately have "delivers fd (drop ?n buf) ?v" by (rule IH)
    then show ?thesis using False assms(2)
      by (auto simp: delivers_def systemWrite.simps [of fd buf w] Let_def os_simps)
  qed
qed

lemma systemWrite_stutter:
  fixes w :: "'a world_scheme"
  assumes "fair_kernel w" and "kernel w m = Wrote k" and "0 < k" and "calls w \<le> m"
    and "buf \<noteq> []"
    and IH: "\<And>cs (v :: 'a world_scheme). length cs < length buf \<Longrightarrow> fair_kernel v \<Longrightarrow> delivers fd cs v"
  shows "delivers fd buf w"
  using assms(1-4)
proof (induction "m - calls w" arbitrary: w)
  case 0
  then show ?case using systemWrite_accept [OF _ _ _ assms(5) IH] by simp
next
  case (Suc d)
  let ?w = "w\<lparr>calls := Suc (calls w)\<rparr>"
  have "delivers fd buf ?w"
    using Suc.hyps(2) Suc.prems by (intro Suc.hyps(1)) (auto simp: os_simps)
  then have again: "\<exists>n. systemWrite fd buf ?w = Some ((append_file fd buf w)\<lparr>calls := n\<rparr>)"
    by (simp add: delivers_def os_simps)
  show ?case
  proof (cases "kernel w (calls w)")
    case (Wrote j)
    show ?thesis
    proof (cases "j = 0")
      case True
      with Wrote again assms(5) show ?thesis
        by (simp add: delivers_def systemWrite.simps [of fd buf w])
    next
      case False
      then show ?thesis using systemWrite_accept [OF Suc.prems(1) Wrote _ assms(5) IH] by simp
    qed
  next
    case Interrupted
    with again assms(5) show ?thesis
      by (simp add: delivers_def systemWrite.simps [of fd buf w])
  next
    case Write_error
    with Suc.prems(1) show ?thesis by (simp add: fair_kernel_def)
  qed
qed

lemma systemWrite_delivers:
  fixes w :: "'a world_scheme"
  assumes "fair_kernel w"
  shows "delivers fd buf w"
  using assms
proof (induction buf arbitrary: w rule: length_induct)
  case (1 buf)
  show ?case
  proof (cases "buf = []")
    case True
    have "kernel w (calls w) \<noteq> Write_error" using "1.prems" by (simp add: fair_kernel_def)
    then show ?thesis using True
      by (cases "kernel w (calls w)")
         (auto simp: delivers_def systemWrite.simps [of fd "[]" w] Let_def os_simps)
  next
    case False
    from "1.prems" obtain m k where "calls w \<le> m" "0 < k" "kernel w m = Wrote k"
      unfolding fair_kernel_def by meson
    then show ?thesis using systemWrite_stutter [of w m k buf fd] False 1 by blast
  qed
qed

lemma systemWrite_fair:
  assumes "fair_kernel w"
  obtains n where "systemWrite fd buf w = Some ((append_file fd buf w)\<lparr>calls := n\<rparr>)"
  using systemWrite_delivers [OF assms, of fd buf] by (auto simp: delivers_def)

section \<open>The interface of an output sink\<close>

text \<open>
  What the time stamper relies on when it writes, whether to a descriptor or to a filter:
  a sink in a state that stands for the bytes t takes a chunk b and then stands for t
  followed by b, as long as the total fits. The client's lemma is proved here once: a
  sequence of chunks amounts to their concatenation.
\<close>

locale output_sink =
  fixes put :: "string \<Rightarrow> 's \<Rightarrow> 's option"
    and stands_for :: "'s \<Rightarrow> string \<Rightarrow> bool"
    and chunk :: "string \<Rightarrow> bool"
    and fits :: "string \<Rightarrow> bool"
  assumes put_ok: "stands_for s t \<Longrightarrow> chunk b \<Longrightarrow> fits (t @ b) \<Longrightarrow>
        \<exists>s'. put b s = Some s' \<and> stands_for s' (t @ b)"
    and fits_prefix: "fits (t @ b) \<Longrightarrow> fits t"
begin

lemma puts_ok:
  assumes "stands_for s t" and "\<forall>b\<in>set bs. chunk b" and "fits (t @ concat bs)"
  shows "\<exists>s'. for_each put bs s = Some s' \<and> stands_for s' (t @ concat bs)"
  using assms
proof (induction bs arbitrary: s t)
  case Nil
  then show ?case by simp
next
  case (Cons b bs)
  have "fits (t @ b)" using Cons.prems(3) fits_prefix [of "t @ b" "concat bs"] by simp
  then obtain s1 where s1: "put b s = Some s1" "stands_for s1 (t @ b)"
    using put_ok [OF Cons.prems(1), of b] Cons.prems(2) by auto
  then obtain s' where "for_each put bs s1 = Some s'" "stands_for s' ((t @ b) @ concat bs)"
    using Cons.IH [OF s1(2)] Cons.prems by auto
  with s1(1) show ?case by auto
qed

end

text \<open>A descriptor is a sink: \<open>base\<close> is what it had received before.\<close>

definition fd_stands_for :: "int \<Rightarrow> string \<Rightarrow> 'a world_scheme \<Rightarrow> string \<Rightarrow> bool" where
  "fd_stands_for fd base w t \<longleftrightarrow> fair_kernel w \<and> files w fd = base @ t"

lemma systemWrite_sink:
  assumes "fd_stands_for fd base w t"
  shows "\<exists>w'. systemWrite fd b w = Some w' \<and> fd_stands_for fd base w' (t @ b)"
proof -
  obtain n where "systemWrite fd b w = Some ((append_file fd b w)\<lparr>calls := n\<rparr>)"
    using assms systemWrite_fair [of w fd b] unfolding fd_stands_for_def by blast
  with assms show ?thesis by (simp add: fd_stands_for_def os_simps)
qed

interpretation fd_sink: output_sink "systemWrite fd" "fd_stands_for fd base" "\<lambda>_. True" "\<lambda>_. True"
  for fd base
  by unfold_locales (simp_all add: systemWrite_sink)

section \<open>NullFilter\<close>

record null_filter =
  nf_fd :: int

definition nf_write :: "string \<Rightarrow> null_filter \<Rightarrow> 'a world_scheme \<Rightarrow> 'a world_scheme option" where
  "nf_write buffer f w = systemWrite (nf_fd f) buffer w"

interpretation null_sink: output_sink "\<lambda>b. nf_write b f" "fd_stands_for (nf_fd f) base"
    "\<lambda>_. True" "\<lambda>_. True" for f base
  by unfold_locales (simp_all add: systemWrite_sink nf_write_def)

section \<open>CircularBufferFilter\<close>

text \<open>
  \<open>cb_data\<close> is the pointer to the circular buffer: None while it is null. \<open>cb_w\<close> is the
  32-bit position at which the next byte goes.
\<close>

record cbf =
  cb_total :: u64
  cb_activateSize :: u64
  cb_maxSize :: u64
  cb_bufferSize :: u64
  cb_data :: "string option"
  cb_w :: u32
  cb_fd :: int

text \<open>The constructor leaves every field but the pointer indeterminate.\<close>

definition cb_construct :: "cbf \<Rightarrow> cbf" where
  "cb_construct raw = raw\<lparr>cb_data := None\<rparr>"

definition cb_setup :: "int \<Rightarrow> u64 \<Rightarrow> u64 \<Rightarrow> cbf \<Rightarrow> cbf" where
  "cb_setup fd activate mx f =
     f\<lparr>cb_fd := fd, cb_activateSize := activate, cb_maxSize := mx,
       cb_bufferSize := mx - activate, cb_total := 0\<rparr>"

text \<open>memcpy into the buffer from position i on.\<close>

definition overwrite :: "nat \<Rightarrow> string \<Rightarrow> string \<Rightarrow> string" where
  "overwrite i bs d = take i d @ bs @ drop (i + length bs) d"

text \<open>
  The do-while loop of write; \<open>rest\<close> are the bytes of the caller's buffer from position r
  on, so the loop goes on while \<open>rest\<close> is not empty. None when it never ends.
\<close>

partial_function (option) cb_loop :: "string \<Rightarrow> cbf \<Rightarrow> cbf option" where
  "cb_loop rest f =
     (let n = (of_nat (length rest) :: u32);
          room = cb_bufferSize f - ucast (cb_w f);
          n = (if room < ucast n then ucast room else n);
          f = f\<lparr>cb_data := map_option (overwrite (unat (cb_w f)) (take (unat n) rest)) (cb_data f)\<rparr>;
          rest = drop (unat n) rest;
          w = cb_w f + n;
          f = f\<lparr>cb_w := (if cb_bufferSize f \<le> ucast w then 0 else w)\<rparr>
      in if rest = [] then Some f else cb_loop rest f)"

text \<open>
  write: the bytes that new char[] leaves indeterminate are zero here; none of them is ever
  read (see \<open>cb_flush_correct\<close>).
\<close>

definition cb_write ::
  "string \<Rightarrow> cbf \<Rightarrow> 'a world_scheme \<Rightarrow> (cbf \<times> 'a world_scheme) option" where
  "cb_write buffer f w =
     (let len = (of_nat (length buffer) :: u64);
          f = f\<lparr>cb_total := cb_total f + len\<rparr>
      in if cb_total f < cb_activateSize f then
           do { w \<leftarrow> systemWrite (cb_fd f) buffer w; Some (f, w) }
         else
           let f = (case cb_data f of
                      None \<Rightarrow> f\<lparr>cb_data := Some (replicate (unat (cb_bufferSize f)) (CHR 0x00)), cb_w := 0\<rparr>
                    | Some _ \<Rightarrow> f)
           in if cb_total f - len < cb_activateSize f then
                let n = (ucast (cb_activateSize f - cb_total f + len) :: u32)
                in do { w \<leftarrow> systemWrite (cb_fd f) (take (unat n) buffer) w;
                        f \<leftarrow> cb_loop (drop (unat n) buffer) f;
                        Some (f, w) }
              else do { f \<leftarrow> cb_loop buffer f; Some (f, w) })"

definition lost_message :: "u64 \<Rightarrow> u64 \<Rightarrow> u64 \<Rightarrow> u64 \<Rightarrow> string" where
  "lost_message tot activate buffer lost =
     [newline] @
     ''###########################################################'' @ [newline] @
     ''# A total of '' @ dec_nat (unat tot) @ '' bytes were output by the program.'' @ [newline] @
     ''# This exceeds the hard limit that is enforced.'' @ [newline] @
     ''# Only the '' @ dec_nat (unat activate) @ '' first bytes are saved in this file before'' @ [newline] @
     ''# this point and only the '' @ dec_nat (unat buffer) @ '' last bytes are saved after'' @ [newline] @
     ''# this point. A total of '' @ dec_nat (unat lost) @ '' bytes are lost.'' @ [newline] @
     ''###########################################################'' @ [newline]"

text \<open>flush; snprintf cuts the message to the 512 bytes of msg, final zero included.\<close>

definition cb_flush :: "cbf \<Rightarrow> 'a world_scheme \<Rightarrow> 'a world_scheme option" where
  "cb_flush f w =
     (case cb_data f of
        None \<Rightarrow> Some w
      | Some d \<Rightarrow>
          if cb_total f \<le> cb_maxSize f then
            systemWrite (cb_fd f) (take (unat (cb_total f - cb_activateSize f)) d) w
          else
            do { w \<leftarrow> systemWrite (cb_fd f)
                       (take 511 (lost_message (cb_total f) (cb_activateSize f)
                          (cb_bufferSize f) (cb_total f - cb_maxSize f))) w;
                 w \<leftarrow> systemWrite (cb_fd f)
                       (take (unat (cb_bufferSize f - ucast (cb_w f))) (drop (unat (cb_w f)) d)) w;
                 systemWrite (cb_fd f) (take (unat (cb_w f)) d) w })"

section \<open>The circular buffer holds the last bytes\<close>

text \<open>
  The buffer against the list s of all bytes received: byte j of s, when it is one of the
  last B, is at position (j - A) mod B.
\<close>

definition ring_rep :: "nat \<Rightarrow> nat \<Rightarrow> string \<Rightarrow> string \<Rightarrow> nat \<Rightarrow> bool" where
  "ring_rep A B s d w \<longleftrightarrow>
     0 < B \<and> length d = B \<and> A \<le> length s \<and> w = (length s - A) mod B \<and>
     (\<forall>j. A \<le> j \<and> j < length s \<and> length s - j \<le> B \<longrightarrow> d ! ((j - A) mod B) = s ! j)"

lemma length_overwrite [simp]:
  "i + length bs \<le> length d \<Longrightarrow> length (overwrite i bs d) = length d"
  by (simp add: overwrite_def)

lemma nth_overwrite:
  "i + length bs \<le> length d \<Longrightarrow> k < length d \<Longrightarrow>
   overwrite i bs d ! k = (if i \<le> k \<and> k < i + length bs then bs ! (k - i) else d ! k)"
  by (auto simp: overwrite_def nth_append)

lemma ring_rep_append:
  assumes rep: "ring_rep A B s d w" and fit: "w + length c \<le> B"
  shows "ring_rep A B (s @ c) (overwrite w c d) (if B \<le> w + length c then 0 else w + length c)"
proof -
  let ?t = "length s - A"
  from rep have B: "0 < B" and d: "length d = B" and A: "A \<le> length s" and w: "w = ?t mod B"
    and old: "\<And>j. A \<le> j \<Longrightarrow> j < length s \<Longrightarrow> length s - j \<le> B \<Longrightarrow> d ! ((j - A) mod B) = s ! j"
    by (auto simp: ring_rep_def)
  have pos: "(?t + i) mod B = (if B \<le> w + i then w + i - B else w + i)" if "i \<le> length c" for i
  proof -
    have "(?t + i) mod B = (w + i) mod B" by (simp add: w mod_add_left_eq)
    with that fit B show ?thesis by (auto simp: mod_if le_mod_geq)
  qed
  have new: "overwrite w c d ! ((j - A) mod B) = (s @ c) ! j"
    if j: "A \<le> j" "j < length (s @ c)" "length (s @ c) - j \<le> B" for j
  proof (cases "j < length s")
    case False
    then have ji: "j - A = ?t + (j - length s)" and lt: "j - length s < length c"
      using A j(2) by auto
    then have "(j - A) mod B = w + (j - length s)"
      using pos [of "j - length s"] fit by simp
    moreover have "overwrite w c d ! (w + (j - length s)) = c ! (j - length s)"
      using lt fit d by (subst nth_overwrite) auto
    ultimately show ?thesis using False by (simp add: nth_append)
  next
    case True
    have out: "\<not> (w \<le> (j - A) mod B \<and> (j - A) mod B < w + length c)"
    proof
      assume in_new: "w \<le> (j - A) mod B \<and> (j - A) mod B < w + length c"
      define i where "i = (j - A) mod B - w"
      have i: "i < length c" "(j - A) mod B = w + i" using in_new by (auto simp: i_def)
      then have "(?t + i) mod B = (j - A) mod B" using pos [of i] fit by simp
      moreover have "j - A \<le> ?t + i" using True j(1) by linarith
      ultimately have "B dvd (?t + i) - (j - A)" by (simp add: mod_eq_dvd_iff_nat)
      moreover have "0 < (?t + i) - (j - A)" "(?t + i) - (j - A) < B"
        using True j i(1) A by auto
      ultimately show False using dvd_imp_le by fastforce
    qed
    have "(j - A) mod B < length d" using B d by simp
    then have "overwrite w c d ! ((j - A) mod B) = d ! ((j - A) mod B)"
      using fit d out by (auto simp: nth_overwrite)
    also have "\<dots> = s ! j" using old True j by simp
    finally show ?thesis using True by (simp add: nth_append)
  qed
  have w': "(length (s @ c) - A) mod B = (if B \<le> w + length c then 0 else w + length c)"
  proof -
    have "length (s @ c) - A = ?t + length c" using A by simp
    then have "(length (s @ c) - A) mod B =
        (if B \<le> w + length c then w + length c - B else w + length c)"
      using pos [of "length c"] by (simp only: order_refl)
    then show ?thesis using fit by (simp split: if_splits)
  qed
  have l: "length (overwrite w c d) = B" and A': "A \<le> length (s @ c)"
    using fit d A by simp_all
  show ?thesis
    unfolding ring_rep_def using B l A' w' [symmetric] new by blast
qed

lemma ring_rep_start:
  assumes "0 < B" and "length d = B"
  shows "ring_rep (length s) B s d 0"
  using assms by (auto simp: ring_rep_def)

text \<open>What flush reads of the buffer: the last bytes in order.\<close>

lemma ring_rep_short:
  assumes "ring_rep A B s d w" and "length s \<le> A + B"
  shows "take (length s - A) d = drop A s"
proof (rule nth_equalityI)
  from assms(1) have d: "length d = B" and A: "A \<le> length s"
    and old: "\<And>j. A \<le> j \<Longrightarrow> j < length s \<Longrightarrow> length s - j \<le> B \<Longrightarrow> d ! ((j - A) mod B) = s ! j"
    by (auto simp: ring_rep_def)
  show "length (take (length s - A) d) = length (drop A s)" using d A assms(2) by simp
  fix i assume "i < length (take (length s - A) d)"
  then have i: "i < length s - A" "i < B" using d by auto
  then have "d ! ((A + i - A) mod B) = s ! (A + i)"
    using assms(2) by (intro old) auto
  then show "take (length s - A) d ! i = drop A s ! i" using i A by simp
qed

lemma ring_rep_long:
  assumes rep: "ring_rep A B s d w" and long: "A + B < length s"
  shows "drop w d @ take w d = drop (length s - B) s"
proof (rule nth_equalityI)
  from rep have B: "0 < B" and d: "length d = B" and w: "w = (length s - A) mod B"
    and old: "\<And>j. A \<le> j \<Longrightarrow> j < length s \<Longrightarrow> length s - j \<le> B \<Longrightarrow> d ! ((j - A) mod B) = s ! j"
    by (auto simp: ring_rep_def)
  have wB: "w < B" using B w by simp
  then show "length (drop w d @ take w d) = length (drop (length s - B) s)"
    using d long by simp
  fix i assume "i < length (drop w d @ take w d)"
  then have i: "i < B" using d wB by simp
  let ?j = "length s - B + i"
  have "?j - A + B = length s - A + i" using long by simp
  then have "(?j - A) mod B = (length s - A + i) mod B"
    by (metis mod_add_self2)
  also have "\<dots> = (w + i) mod B" by (simp add: w mod_add_left_eq)
  finally have p: "(?j - A) mod B = (if w + i < B then w + i else w + i - B)"
    using i wB by (simp add: mod_if le_mod_geq)
  have "d ! ((?j - A) mod B) = s ! ?j" using long i by (intro old) auto
  then show "(drop w d @ take w d) ! i = drop (length s - B) s ! i"
  proof (cases "w + i < B")
    case True
    then have "i < length (drop w d)" using d by simp
    then show ?thesis using True p d wB i long \<open>d ! _ = _\<close> by (simp add: nth_append)
  next
    case False
    then have "\<not> i < length (drop w d)" "i - (B - w) < w" using d i by auto
    moreover have "i - (B - w) = w + i - B" using False wB by simp
    ultimately show ?thesis using False p d wB i long \<open>d ! _ = _\<close> by (simp add: nth_append)
  qed
qed

section \<open>The filter keeps what it promises\<close>

text \<open>
  The loop of write appends the rest of the caller's buffer to the ring; it ends because
  the buffer is not empty and its size fits the 32-bit position.
\<close>

lemma ring_rep_bounds: "ring_rep A B s d w \<Longrightarrow> w < B" "ring_rep A B s d w \<Longrightarrow> 0 < B"
  by (auto simp: ring_rep_def)

text \<open>How many bytes one turn of the loop copies, and the next position.\<close>

lemma cb_loop_turn:
  assumes B: "unat (cb_bufferSize f) < 2 ^ 32" and w: "unat (cb_w f) < unat (cb_bufferSize f)"
    and len: "length rest < 2 ^ 31"
  defines "room \<equiv> cb_bufferSize f - ucast (cb_w f)"
  defines "n \<equiv> (if room < ucast (of_nat (length rest) :: u32) then ucast room
                else (of_nat (length rest) :: u32))"
  shows "unat n = min (length rest) (unat (cb_bufferSize f) - unat (cb_w f))"
    and "unat (cb_w f + n) = unat (cb_w f) + unat n"
proof -
  have le: "(ucast (cb_w f) :: u64) \<le> cb_bufferSize f"
    using w by (simp add: word_le_nat_alt unat_ucast_u64)
  have room: "unat room = unat (cb_bufferSize f) - unat (cb_w f)"
    unfolding room_def using le by (simp add: unat_minus_le unat_ucast_u64)
  have l32: "unat (of_nat (length rest) :: u32) = length rest"
    using len by (intro unat_of_nat_u32) simp
  have r32: "unat (ucast room :: u32) = unat room"
    using room B by (intro unat_ucast_u32) simp
  show n: "unat n = min (length rest) (unat (cb_bufferSize f) - unat (cb_w f))"
    unfolding n_def by (auto simp: word_less_nat_alt unat_ucast_u64 l32 r32 room)
  have "unat (cb_w f) + unat n < 2 ^ LENGTH(32)" using n B w by simp
  then show "unat (cb_w f + n) = unat (cb_w f) + unat n" by (simp add: unat_word_ariths)
qed

lemma cb_loop_appends:
  assumes "ring_rep A (unat (cb_bufferSize f)) s d (unat (cb_w f))" and "cb_data f = Some d"
    and "unat (cb_bufferSize f) < 2 ^ 32" and "length rest < 2 ^ 31"
  shows "\<exists>d' w'. cb_loop rest f = Some (f\<lparr>cb_data := Some d', cb_w := w'\<rparr>) \<and>
           ring_rep A (unat (cb_bufferSize f)) (s @ rest) d' (unat w')"
  using assms
proof (induction rest arbitrary: f s d rule: length_induct)
  case (1 rest)
  let ?B = "unat (cb_bufferSize f)"
  let ?room = "cb_bufferSize f - ucast (cb_w f)"
  define n where "n = (if ?room < ucast (of_nat (length rest) :: u32) then ucast ?room
                       else (of_nat (length rest) :: u32))"
  have wB: "unat (cb_w f) < ?B" using "1.prems"(1) by (rule ring_rep_bounds)
  have n: "unat n = min (length rest) (?B - unat (cb_w f))"
    and wn: "unat (cb_w f + n) = unat (cb_w f) + unat n"
    using cb_loop_turn [OF "1.prems"(3) wB "1.prems"(4)] unfolding n_def by blast+
  define d1 where "d1 = overwrite (unat (cb_w f)) (take (unat n) rest) d"
  define w1 where "w1 = (if cb_bufferSize f \<le> ucast (cb_w f + n) then 0 else cb_w f + n)"
  define f1 where "f1 = f\<lparr>cb_data := Some d1, cb_w := w1\<rparr>"
  have uw1: "unat w1 = (if ?B \<le> unat (cb_w f) + unat n then 0 else unat (cb_w f) + unat n)"
    by (simp add: w1_def word_le_nat_alt unat_ucast_u64 wn)
  have ln: "length (take (unat n) rest) = unat n" and fit: "unat (cb_w f) + unat n \<le> ?B"
    using n wB by simp_all
  have rep1: "ring_rep A ?B (s @ take (unat n) rest) d1 (unat w1)"
    using ring_rep_append [OF "1.prems"(1), of "take (unat n) rest"] fit
    by (simp only: uw1 d1_def ln)
  have unfold: "cb_loop rest f =
      (if drop (unat n) rest = [] then Some f1 else cb_loop (drop (unat n) rest) f1)"
    by (subst cb_loop.simps)
       (simp add: Let_def n_def [symmetric] f1_def d1_def w1_def "1.prems"(2))
  show ?case
  proof (cases "drop (unat n) rest = []")
    case True
    then have "take (unat n) rest = rest" by simp
    with True rep1 show ?thesis by (auto simp: unfold f1_def)
  next
    case False
    have "0 < unat n" using n wB False by auto
    then have lt: "length (drop (unat n) rest) < length rest" using False by auto
    have hyps: "ring_rep A (unat (cb_bufferSize f1)) (s @ take (unat n) rest) d1 (unat (cb_w f1))"
      "cb_data f1 = Some d1" "unat (cb_bufferSize f1) < 2 ^ 32" "length (drop (unat n) rest) < 2 ^ 31"
      using rep1 "1.prems"(3,4) by (simp_all add: f1_def)
    from "1.IH" [rule_format, OF lt hyps] obtain d' w' where
      "cb_loop (drop (unat n) rest) f1 = Some (f1\<lparr>cb_data := Some d', cb_w := w'\<rparr>)"
      "ring_rep A ?B (s @ take (unat n) rest @ drop (unat n) rest) d' (unat w')"
      by (auto simp: f1_def)
    then show ?thesis using False by (auto simp: unfold f1_def)
  qed
qed

text \<open>
  The filter against the bytes s it has received, and the file, which has received the
  first \<open>activateSize\<close> of them.
\<close>

definition cb_sizes :: "cbf \<Rightarrow> bool" where
  "cb_sizes f \<longleftrightarrow> cb_activateSize f < cb_maxSize f \<and>
     cb_bufferSize f = cb_maxSize f - cb_activateSize f \<and> unat (cb_bufferSize f) < 2 ^ 32"

definition cb_rep :: "cbf \<Rightarrow> string \<Rightarrow> bool" where
  "cb_rep f s \<longleftrightarrow>
     unat (cb_total f) = length s \<and> cb_sizes f \<and>
     (case cb_data f of
        None \<Rightarrow> s = [] \<or> length s < unat (cb_activateSize f)
      | Some d \<Rightarrow> ring_rep (unat (cb_activateSize f)) (unat (cb_bufferSize f)) s d (unat (cb_w f)))"

definition same_setup :: "cbf \<Rightarrow> cbf \<Rightarrow> bool" where
  "same_setup f g \<longleftrightarrow> cb_activateSize f = cb_activateSize g \<and> cb_maxSize f = cb_maxSize g \<and>
     cb_bufferSize f = cb_bufferSize g \<and> cb_fd f = cb_fd g"

lemma cb_rep_setup:
  assumes "activate < mx" and "unat (mx - activate) < 2 ^ 32" and "cb_data f = None"
  shows "cb_rep (cb_setup fd activate mx f) []"
  using assms by (simp add: cb_rep_def cb_sizes_def cb_setup_def)

lemma cb_rep_total_less:
  assumes "cb_rep f s" and "length (s @ b) < 2 ^ 64"
  shows "unat (cb_total f + of_nat (length b)) = length (s @ b)"
    and "unat (of_nat (length b) :: u64) = length b"
    and "unat (cb_total f + of_nat (length b) - of_nat (length b)) = length s"
  using assms by (simp_all add: cb_rep_def unat_word_ariths unat_of_nat_u64)

text \<open>
  The filter once its buffer is allocated: the bytes that go straight to the file complete
  the first \<open>activateSize\<close> ones, and the ring holds what follows.
\<close>

definition cb_allocated :: "string \<Rightarrow> cbf \<Rightarrow> cbf" where
  "cb_allocated b f =
     (let f = f\<lparr>cb_total := cb_total f + of_nat (length b)\<rparr>
      in case cb_data f of
           None \<Rightarrow> f\<lparr>cb_data := Some (replicate (unat (cb_bufferSize f)) (CHR 0x00)), cb_w := 0\<rparr>
         | Some _ \<Rightarrow> f)"

lemma cb_allocated_setup [simp]:
  "cb_bufferSize (cb_allocated b f) = cb_bufferSize f"
  "cb_activateSize (cb_allocated b f) = cb_activateSize f"
  "cb_maxSize (cb_allocated b f) = cb_maxSize f"
  "cb_fd (cb_allocated b f) = cb_fd f"
  "cb_total (cb_allocated b f) = cb_total f + of_nat (length b)"
  by (simp_all add: cb_allocated_def Let_def split: option.splits)

lemma cb_sizes_frame [simp]:
  "cb_sizes (f\<lparr>cb_data := d, cb_w := p\<rparr>) = cb_sizes f"
  "cb_sizes (f\<lparr>cb_total := t\<rparr>) = cb_sizes f"
  "cb_sizes (cb_allocated b f) = cb_sizes f"
  by (simp_all add: cb_sizes_def)

lemma cb_allocated_ring:
  assumes rep: "cb_rep f s" and long: "unat (cb_activateSize f) \<le> length (s @ b)"
  shows "\<exists>d. cb_data (cb_allocated b f) = Some d \<and>
           ring_rep (unat (cb_activateSize f)) (unat (cb_bufferSize f))
             (s @ take (unat (cb_activateSize f) - length s) b) d (unat (cb_w (cb_allocated b f)))"
proof (cases "cb_data f")
  case None
  have "0 < unat (cb_bufferSize f)"
    using rep by (auto simp: cb_rep_def cb_sizes_def unat_minus_le word_less_nat_alt less_imp_le)
  moreover have "length (s @ take (unat (cb_activateSize f) - length s) b) = unat (cb_activateSize f)"
    using None rep long by (auto simp: cb_rep_def)
  ultimately have "ring_rep (unat (cb_activateSize f)) (unat (cb_bufferSize f))
      (s @ take (unat (cb_activateSize f) - length s) b)
      (replicate (unat (cb_bufferSize f)) (CHR 0x00)) 0"
    using ring_rep_start by (metis length_replicate)
  with None show ?thesis by (simp add: cb_allocated_def Let_def)
next
  case (Some d)
  then have "ring_rep (unat (cb_activateSize f)) (unat (cb_bufferSize f)) s d (unat (cb_w f))"
    using rep by (simp add: cb_rep_def)
  then show ?thesis using Some by (simp add: cb_allocated_def ring_rep_def)
qed

lemma cb_loop_completes:
  assumes rep: "cb_rep f s" and long: "unat (cb_activateSize f) \<le> length (s @ b)"
    and b: "length b < 2 ^ 31" and total: "length (s @ b) < 2 ^ 64"
  shows "\<exists>f'. cb_loop (drop (unat (cb_activateSize f) - length s) b) (cb_allocated b f) = Some f' \<and>
           cb_rep f' (s @ b) \<and> same_setup f' f"
proof -
  let ?k = "unat (cb_activateSize f) - length s" and ?f = "cb_allocated b f"
  obtain d where "cb_data ?f = Some d" and
    "ring_rep (unat (cb_activateSize f)) (unat (cb_bufferSize f)) (s @ take ?k b) d (unat (cb_w ?f))"
    using cb_allocated_ring [OF rep long] by blast
  moreover have "length (drop ?k b) < 2 ^ 31" using b by simp
  moreover have "unat (cb_bufferSize f) < 2 ^ 32"
    using rep unfolding cb_rep_def cb_sizes_def by blast
  ultimately obtain d' w' where
    loop: "cb_loop (drop ?k b) ?f = Some (?f\<lparr>cb_data := Some d', cb_w := w'\<rparr>)" and
    ring: "ring_rep (unat (cb_activateSize f)) (unat (cb_bufferSize f)) (s @ b) d' (unat w')"
    using cb_loop_appends [of "unat (cb_activateSize f)" ?f "s @ take ?k b" d "drop ?k b"] by auto
  have "cb_rep (?f\<lparr>cb_data := Some d', cb_w := w'\<rparr>) (s @ b)"
    using ring rep cb_rep_total_less(1) [OF rep total]
    by (simp add: cb_rep_def)
  with loop show ?thesis by (auto simp: same_setup_def)
qed

lemma cb_write_correct:
  fixes w :: "'a world_scheme"
  assumes rep: "cb_rep f s" and fair: "fair_kernel w"
    and b: "length b < 2 ^ 31" and total: "length (s @ b) < 2 ^ 64"
  defines "k \<equiv> unat (cb_activateSize f) - length s"
  shows "\<exists>f' n. cb_write b f w = Some (f', (append_file (cb_fd f) (take k b) w)\<lparr>calls := n\<rparr>) \<and>
           cb_rep f' (s @ b) \<and> same_setup f' f"
proof -
  let ?len = "of_nat (length b) :: u64" and ?A = "unat (cb_activateSize f)"
  note tot = cb_rep_total_less [OF rep total]
  have lt: "cb_total f + ?len < cb_activateSize f \<longleftrightarrow> length (s @ b) < ?A"
    and lt0: "cb_total f < cb_activateSize f \<longleftrightarrow> length s < ?A"
    using tot rep by (simp_all add: word_less_nat_alt cb_rep_def)
  obtain n where n: "systemWrite (cb_fd f) (take k b) w =
      Some ((append_file (cb_fd f) (take k b) w)\<lparr>calls := n\<rparr>)"
    using systemWrite_fair [OF fair] .
  have body: "cb_write b f w =
      (if length (s @ b) < ?A then
         do { w \<leftarrow> systemWrite (cb_fd f) b w; Some (f\<lparr>cb_total := cb_total f + ?len\<rparr>, w) }
       else if length s < ?A then
         let n = (ucast (cb_activateSize f - cb_total f) :: u32)
         in do { w \<leftarrow> systemWrite (cb_fd f) (take (unat n) b) w;
                 f \<leftarrow> cb_loop (drop (unat n) b) (cb_allocated b f); Some (f, w) }
       else do { f \<leftarrow> cb_loop b (cb_allocated b f); Some (f, w) })"
    by (cases "cb_data f") (simp_all add: cb_write_def cb_allocated_def Let_def lt lt0)
  show ?thesis
  proof (cases "length (s @ b) < ?A")
    case True
    then have "take k b = b" by (simp add: k_def)
    moreover have "cb_rep (f\<lparr>cb_total := cb_total f + ?len\<rparr>) (s @ b)"
      using rep tot(1) True by (auto simp: cb_rep_def cb_sizes_def ring_rep_def split: option.splits)
    ultimately show ?thesis using True n by (auto simp: body same_setup_def)
  next
    case False
    then obtain f' where f': "cb_loop (drop k b) (cb_allocated b f) = Some f'"
      "cb_rep f' (s @ b)" "same_setup f' f"
      using cb_loop_completes [OF rep _ b total] by (auto simp: k_def)
    show ?thesis
    proof (cases "length s < ?A")
      case True
      have "unat (cb_activateSize f - cb_total f) = k"
        using rep True by (simp add: cb_rep_def unat_minus_le word_le_nat_alt k_def)
      moreover have "k < 2 ^ 32" using False b by (simp add: k_def)
      ultimately have "unat (ucast (cb_activateSize f - cb_total f) :: u32) = k"
        by (simp add: unat_ucast_u32)
      with False True n f' show ?thesis by (auto simp: body)
    next
      case enough: False
      then have "k = 0" by (simp add: k_def)
      with False enough f' show ?thesis by (auto simp: body intro!: exI [of _ "calls w"])
    qed
  qed
qed

text \<open>The filter is a sink too: it stands for all the bytes written to it.\<close>

fun cb_stands_for ::
  "int \<Rightarrow> u64 \<Rightarrow> u64 \<Rightarrow> string \<Rightarrow> cbf \<times> 'a world_scheme \<Rightarrow> string \<Rightarrow> bool" where
  "cb_stands_for fd activate mx base (f, w) t \<longleftrightarrow>
     cb_rep f t \<and> cb_fd f = fd \<and> cb_activateSize f = activate \<and> cb_maxSize f = mx \<and>
     fair_kernel w \<and> files w fd = base @ take (unat activate) t"

definition cb_put :: "string \<Rightarrow> cbf \<times> 'a world_scheme \<Rightarrow> (cbf \<times> 'a world_scheme) option" where
  "cb_put b fw = (case fw of (f, w) \<Rightarrow> cb_write b f w)"

lemma cb_put_sink:
  assumes "cb_stands_for fd activate mx base fw t" and "length b < 2 ^ 31"
    and "length (t @ b) < 2 ^ 64"
  shows "\<exists>fw'. cb_put b fw = Some fw' \<and> cb_stands_for fd activate mx base fw' (t @ b)"
proof -
  obtain f w where fw: "fw = (f, w)" by (cases fw)
  with assms obtain f' n where
    "cb_write b f w = Some (f', (append_file fd (take (unat activate - length t) b) w)\<lparr>calls := n\<rparr>)"
    "cb_rep f' (t @ b)" "same_setup f' f"
    using cb_write_correct [of f t w b] by auto
  with assms(1) show ?thesis by (simp add: fw cb_put_def same_setup_def os_simps)
qed

interpretation cb_sink: output_sink cb_put "cb_stands_for fd activate mx base"
    "\<lambda>b. length b < 2 ^ 31" "\<lambda>t. length t < 2 ^ 64" for fd activate mx base
  by unfold_locales (rule cb_put_sink, assumption+, simp)

text \<open>The message fits the 512 bytes of msg, whatever the counters.\<close>

lemma length_dec_u64: "length (dec_nat (unat (x :: u64))) \<le> 20"
proof -
  have "unat x < 2 ^ LENGTH(64)" by (rule unsigned_less)
  then have "unat x < 10 ^ Suc 19" by simp
  then show ?thesis using length_dec_nat [of "unat x" 19] by simp
qed

lemma length_lost_message: "length (lost_message a b c d) \<le> 447"
  using length_dec_u64 [of a] length_dec_u64 [of b] length_dec_u64 [of c] length_dec_u64 [of d]
  by (simp add: lost_message_def)

text \<open>What a reader finds in the file in the end.\<close>

definition limited_output :: "u64 \<Rightarrow> u64 \<Rightarrow> string \<Rightarrow> string" where
  "limited_output activate mx s =
     (if length s \<le> unat mx then s
      else take (unat activate) s @
           lost_message (of_nat (length s)) activate (mx - activate) (of_nat (length s) - mx) @
           drop (length s - unat (mx - activate)) s)"

lemma systemWrite_then:
  assumes "fair_kernel w"
  shows "\<exists>n. fair_kernel ((append_file fd buf w)\<lparr>calls := n\<rparr>) \<and>
           Option.bind (systemWrite fd buf w) k = k ((append_file fd buf w)\<lparr>calls := n\<rparr>)"
  using systemWrite_delivers [OF assms, of fd buf] assms by (auto simp: delivers_def os_simps)

lemma systemWrite_three:
  assumes "fair_kernel w"
  shows "\<exists>n. do { w \<leftarrow> systemWrite fd a w; w \<leftarrow> systemWrite fd b w; systemWrite fd c w } =
           Some ((append_file fd (a @ b @ c) w)\<lparr>calls := n\<rparr>)"
proof -
  obtain n1 where 1: "fair_kernel ((append_file fd a w)\<lparr>calls := n1\<rparr>)"
    "systemWrite fd a w = Some ((append_file fd a w)\<lparr>calls := n1\<rparr>)"
    using systemWrite_fair [OF assms] assms by (metis fair_kernel_frame)
  obtain n2 where 2: "systemWrite fd b ((append_file fd a w)\<lparr>calls := n1\<rparr>) =
      Some ((append_file fd (a @ b) w)\<lparr>calls := n2\<rparr>)"
    using systemWrite_fair [OF 1(1), of fd b] by (auto simp: os_simps)
  have "fair_kernel ((append_file fd (a @ b) w)\<lparr>calls := n2\<rparr>)" using assms by (simp add: os_simps)
  then obtain n3 where "systemWrite fd c ((append_file fd (a @ b) w)\<lparr>calls := n2\<rparr>) =
      Some ((append_file fd (a @ b @ c) w)\<lparr>calls := n3\<rparr>)"
    by (rule systemWrite_fair [of _ fd c]) (auto simp: os_simps)
  with 1(2) 2 show ?thesis by auto
qed

lemma cb_flush_correct:
  fixes w :: "'a world_scheme"
  assumes rep: "cb_rep f s" and fair: "fair_kernel w"
    and content: "files w (cb_fd f) = base @ take (unat (cb_activateSize f)) s"
  shows "\<exists>w'. cb_flush f w = Some w' \<and>
           files w' (cb_fd f) = base @ limited_output (cb_activateSize f) (cb_maxSize f) s"
proof -
  let ?A = "unat (cb_activateSize f)" and ?B = "unat (cb_bufferSize f)" and ?M = "unat (cb_maxSize f)"
  from rep have tot: "unat (cb_total f) = length s" and sizes: "cb_sizes f"
    by (simp_all add: cb_rep_def)
  have ofs: "of_nat (length s) = cb_total f" unfolding tot [symmetric] by simp
  have AM: "?A \<le> ?M" "?B = ?M - ?A" "?A < ?M"
    using sizes by (simp_all add: cb_sizes_def unat_minus_le word_le_nat_alt word_less_nat_alt)
  show ?thesis
  proof (cases "cb_data f")
    case None
    then have "length s \<le> ?A" using rep by (auto simp: cb_rep_def)
    with None content AM show ?thesis by (simp add: cb_flush_def limited_output_def)
  next
    case (Some d)
    then have ring: "ring_rep ?A ?B s d (unat (cb_w f))" using rep by (simp add: cb_rep_def)
    then have A: "?A \<le> length s" and wB: "unat (cb_w f) < ?B" and d: "length d = ?B"
      by (auto simp: ring_rep_def)
    show ?thesis
    proof (cases "length s \<le> ?M")
      case True
      have "unat (cb_total f - cb_activateSize f) = length s - ?A"
        using A tot by (simp add: unat_minus_le word_le_nat_alt)
      moreover have "take (length s - ?A) d = drop ?A s"
        using ring_rep_short [OF ring] True AM by simp
      moreover obtain n where "systemWrite (cb_fd f) (drop ?A s) w =
          Some ((append_file (cb_fd f) (drop ?A s) w)\<lparr>calls := n\<rparr>)"
        using systemWrite_fair [OF fair] .
      ultimately show ?thesis
        using Some True content tot by (simp add: cb_flush_def limited_output_def word_le_nat_alt os_simps)
    next
      case False
      let ?m = "lost_message (cb_total f) (cb_activateSize f) (cb_bufferSize f) (cb_total f - cb_maxSize f)"
      have "unat (cb_bufferSize f - ucast (cb_w f)) = ?B - unat (cb_w f)"
        using wB by (simp add: unat_minus_le word_le_nat_alt unat_ucast_u64)
      then have tail: "take (unat (cb_bufferSize f - ucast (cb_w f))) (drop (unat (cb_w f)) d) =
          drop (unat (cb_w f)) d"
        using d by simp
      have m: "take 511 ?m = ?m" using le_trans [OF length_lost_message, of 511] by simp
      obtain n where "do { w \<leftarrow> systemWrite (cb_fd f) ?m w;
            w \<leftarrow> systemWrite (cb_fd f) (drop (unat (cb_w f)) d) w;
            systemWrite (cb_fd f) (take (unat (cb_w f)) d) w } =
          Some ((append_file (cb_fd f) (?m @ drop (unat (cb_w f)) d @ take (unat (cb_w f)) d) w)\<lparr>calls := n\<rparr>)"
        using systemWrite_three [OF fair] by blast
      moreover have "drop (unat (cb_w f)) d @ take (unat (cb_w f)) d = drop (length s - ?B) s"
        using ring_rep_long [OF ring] False AM by simp
      ultimately have "cb_flush f w = Some ((append_file (cb_fd f) (?m @ drop (length s - ?B) s) w)\<lparr>calls := n\<rparr>)"
        using Some False tot by (simp add: cb_flush_def word_le_nat_alt m tail)
      with False content AM sizes show ?thesis
        by (simp add: limited_output_def os_simps ofs cb_sizes_def)
    qed
  qed
qed

section \<open>Properties\<close>

text \<open>
  The life of a filter as its users drive it: setup, the writes in order, and flush, which
  the destructor calls.
\<close>

definition cb_session ::
  "int \<Rightarrow> u64 \<Rightarrow> u64 \<Rightarrow> string list \<Rightarrow> cbf \<Rightarrow> 'a world_scheme \<Rightarrow> 'a world_scheme option" where
  "cb_session fd activate mx bs raw w =
     do { (f, w) \<leftarrow> for_each cb_put bs (cb_setup fd activate mx (cb_construct raw), w);
          cb_flush f w }"

text \<open>
  Property C12: a circular buffer filter set up with activateSize below maxSize (and a buffer
  whose size fits 32 bits) always returns from its writes and from flush, whatever chunks it
  gets and however the kernel cuts the writes; and the file then holds everything that was
  written if that is at most maxSize bytes, and otherwise the first activateSize bytes, the
  message with the true counts, and the last maxSize - activateSize bytes.
\<close>

theorem circular_filter_output:
  assumes "fair_kernel w" and "activate < mx" and "unat (mx - activate) < 2 ^ 32"
    and "\<forall>b\<in>set bs. length b < 2 ^ 31" and "length (concat bs) < 2 ^ 64"
  shows "\<exists>w'. cb_session fd activate mx bs raw w = Some w' \<and>
           files w' fd = files w fd @ limited_output activate mx (concat bs)"
proof -
  let ?f = "cb_setup fd activate mx (cb_construct raw)"
  have "cb_rep ?f []" using assms(2,3) by (simp add: cb_rep_setup cb_construct_def)
  then have "cb_stands_for fd activate mx (files w fd) (?f, w) []"
    using assms(1) by (simp add: cb_setup_def)
  then obtain fw where fw: "for_each cb_put bs (?f, w) = Some fw"
    "cb_stands_for fd activate mx (files w fd) fw (concat bs)"
    using cb_sink.puts_ok [of fd activate mx "files w fd" "(?f, w)" "[]" bs] assms(4,5) by auto
  obtain f' w1 where "fw = (f', w1)" by (cases fw)
  with fw show ?thesis
    using cb_flush_correct [of f' "concat bs" w1 "files w fd"] by (auto simp: cb_session_def)
qed

definition idle_world :: world where
  "idle_world = \<lparr>files = \<lambda>_. [], kernel = \<lambda>n. if even n then Interrupted else Wrote 3,
                 calls = 0, perrors = []\<rparr>"

lemma idle_world_fair: "fair_kernel idle_world"
proof -
  have "\<exists>m\<ge>n. \<exists>k>0. kernel idle_world m = Wrote k" for n
    by (rule exI [of _ "2 * n + 1"]) (simp add: idle_world_def)
  then show ?thesis by (simp add: fair_kernel_def) (simp add: idle_world_def)
qed

definition raw_filter :: cbf where
  "raw_filter = \<lparr>cb_total = 7, cb_activateSize = 7, cb_maxSize = 7, cb_bufferSize = 7,
                 cb_data = None, cb_w = 7, cb_fd = 7\<rparr>"

theorem circular_filter_output_witness:
  "\<exists>w'. cb_session 1 2 6 [''hello'', '' '', ''world''] raw_filter idle_world = Some w' \<and>
     files w' 1 = ''he'' @ lost_message 11 2 4 5 @ ''orld''"
  using circular_filter_output [OF idle_world_fair, of 2 6 "[''hello'', '' '', ''world'']" 1 raw_filter]
  by (simp add: limited_output_def) (simp add: idle_world_def)

text \<open>
  Property C37: systemWrite hands over the whole buffer. Under a kernel that never fails a
  write and accepts bytes again and again (with any number of interruptions, empty and
  partial writes in between) it returns, and the descriptor has received exactly the bytes
  of the buffer, once and in order; no other descriptor is touched.
\<close>

theorem systemWrite_complete:
  assumes "fair_kernel w"
  shows "\<exists>w'. systemWrite fd buf w = Some w' \<and>
           files w' = (files w)(fd := files w fd @ buf) \<and> perrors w' = perrors w"
  using systemWrite_delivers [OF assms, of fd buf] by (auto simp: delivers_def os_simps)

theorem systemWrite_complete_witness:
  "\<exists>w'. systemWrite 1 ''partial writes'' idle_world = Some w' \<and>
     files w' = (files idle_world)(1 := ''partial writes'') \<and> perrors w' = []"
  using systemWrite_complete [OF idle_world_fair, of 1 "''partial writes''"]
  by (simp add: idle_world_def)

lemma cb_loop_empty_buffer:
  assumes "cb_bufferSize f = 0" and "cb_w f = 0" and "rest \<noteq> []"
  shows "cb_loop rest f = None"
proof (rule ccontr)
  have no_room: "(if (0::u64) < ucast n then 0 else n) = (0::u32)" for n :: u32
    by (metis unat_0 unat_eq_0 unat_ucast_u64 word_gt_0)
  assume "cb_loop rest f \<noteq> None"
  then obtain r where "cb_loop rest f = Some r" by blast
  then have "\<not> (cb_bufferSize f = 0 \<and> cb_w f = 0 \<and> rest \<noteq> [])"
  proof (rule cb_loop.raw_induct
      [where P = "\<lambda>rest f r. \<not> (cb_bufferSize f = 0 \<and> cb_w f = 0 \<and> rest \<noteq> [])", rotated])
    fix g :: "string \<Rightarrow> cbf \<Rightarrow> cbf option" and rest f r
    assume IH: "\<And>rest f r. g rest f = Some r \<Longrightarrow> \<not> (cb_bufferSize f = 0 \<and> cb_w f = 0 \<and> rest \<noteq> [])"
    assume "(let n = (of_nat (length rest) :: u32);
          room = cb_bufferSize f - ucast (cb_w f);
          n = (if room < ucast n then ucast room else n);
          f = f\<lparr>cb_data := map_option (overwrite (unat (cb_w f)) (take (unat n) rest)) (cb_data f)\<rparr>;
          rest = drop (unat n) rest;
          w = cb_w f + n;
          f = f\<lparr>cb_w := (if cb_bufferSize f \<le> ucast w then 0 else w)\<rparr>
      in if rest = [] then Some f else g rest f) = Some r"
    then have eq: "(if rest = [] then Some f1 else g rest f1) = Some r"
      if "cb_bufferSize f = 0" "cb_w f = 0"
        "f1 = f\<lparr>cb_data := map_option (overwrite 0 []) (cb_data f), cb_w := 0\<rparr>" for f1
      using that no_room [of "of_nat (length rest)"] by (simp add: Let_def cong: if_cong)
    show "\<not> (cb_bufferSize f = 0 \<and> cb_w f = 0 \<and> rest \<noteq> [])"
    proof
      assume *: "cb_bufferSize f = 0 \<and> cb_w f = 0 \<and> rest \<noteq> []"
      with eq have "g rest (f\<lparr>cb_data := map_option (overwrite 0 []) (cb_data f), cb_w := 0\<rparr>) = Some r"
        by simp
      with * show False by (auto dest: IH)
    qed
  qed
  with assms show False by blast
qed

text \<open>
  A filter set up with activateSize equal to maxSize has an empty buffer, and
  the first write that brings bytes past activateSize never returns (the copy loop moves no
  byte). The option parser refuses such sizes; the filter itself does not.
\<close>

theorem empty_buffer_never_returns:
  assumes "unat activate < length b" and "length b < 2 ^ 31"
  shows "cb_write b (cb_setup fd activate activate (cb_construct raw)) w = None"
proof -
  let ?f = "cb_setup fd activate activate (cb_construct raw)"
  let ?g = "?f\<lparr>cb_total := of_nat (length b), cb_data := Some [], cb_w := 0\<rparr>"
  have "\<not> (of_nat (length b) :: u64) < activate"
    using assms by (simp add: word_less_nat_alt unat_of_nat_u64)
  moreover have "unat (ucast activate :: u32) = unat activate"
    using assms by (intro unat_ucast_u32) simp
  moreover have "cb_loop (drop (unat activate) b) ?g = None" "cb_loop b ?g = None"
    using assms by (auto intro!: cb_loop_empty_buffer simp: cb_setup_def)
  ultimately show ?thesis
    by (simp add: cb_write_def Let_def cb_setup_def cb_construct_def split: Option.bind_splits)
qed

theorem empty_buffer_never_returns_witness:
  "cb_write ''abc'' (cb_setup 1 2 2 (cb_construct raw_filter)) idle_world = None"
  by (rule empty_buffer_never_returns) simp_all

end
