(* ===== verification/Timestamper.thy ===== *)
theory Timestamper
  imports Filters Printing
begin

text \<open>
  TimeStamper.hh: the thread that reads the output of the solver and writes it, with a time
  stamp at the beginning of each line, to a descriptor or to a filter.
\<close>

section \<open>The operating system\<close>

text \<open>
  The time that gettimeofday returns; the operating system keeps the microseconds between 0
  and 999999.
\<close>

record timeval =
  tv_sec :: int
  tv_usec :: int

definition valid_time :: "timeval \<Rightarrow> bool" where
  "valid_time t \<longleftrightarrow> 0 \<le> tv_usec t \<and> tv_usec t < 1000000"

definition microseconds :: "timeval \<Rightarrow> int" where
  "microseconds t = tv_sec t * 1000000 + tv_usec t"

text \<open>
  The filters that the program has created, by address; \<open>inputs w fd\<close> is what the calls of
  read on fd find, in order: data (a call takes at most what it asks for) or an error; then
  the end of file. \<open>clock w n\<close> is the answer to the n-th call of gettimeofday, and \<open>cout\<close>
  what was written to the standard stream.
\<close>

datatype filter_object = Null_filter null_filter | Circular_filter cbf

record ts_world = world +
  filters :: "nat \<Rightarrow> filter_object"
  inputs :: "int \<Rightarrow> string option list"
  clock :: "nat \<Rightarrow> timeval"
  clock_reads :: nat
  cout :: string

definition print :: "string \<Rightarrow> ts_world \<Rightarrow> ts_world" where
  "print s w = w\<lparr>cout := cout w @ s\<rparr>"

definition gettimeofday :: "ts_world \<Rightarrow> timeval \<times> ts_world" where
  "gettimeofday w = (clock w (clock_reads w), w\<lparr>clock_reads := Suc (clock_reads w)\<rparr>)"

datatype read_answer = Got string | Got_error

definition sys_read :: "int \<Rightarrow> nat \<Rightarrow> ts_world \<Rightarrow> read_answer \<times> ts_world" where
  "sys_read fd count w =
     (case inputs w fd of
        [] \<Rightarrow> (Got [], w)
      | None # later \<Rightarrow> (Got_error, w\<lparr>inputs := (inputs w)(fd := later)\<rparr>)
      | Some data # later \<Rightarrow>
          (Got (take count data),
           w\<lparr>inputs := (inputs w)(fd := if length data \<le> count then later
                                          else Some (drop count data) # later)\<rparr>))"

text \<open>The virtual method write of AbstractFilter, called through a pointer.\<close>

definition filter_write :: "nat \<Rightarrow> string \<Rightarrow> ts_world \<Rightarrow> ts_world option" where
  "filter_write p bs w =
     (case filters w p of
        Null_filter f \<Rightarrow> nf_write bs f w
      | Circular_filter f \<Rightarrow>
          map_option (\<lambda>(f', w'). w'\<lparr>filters := (filters w')(p := Circular_filter f')\<rparr>)
            (cb_write bs f w))"

section \<open>State\<close>

text \<open>A letter with code 0 is unused.\<close>

record info =
  filteredOutput :: bool
  inputdescr :: int
  outputdescr :: int
  outputfilter :: nat
  info_name :: char
  EOLBefore :: bool

definition unnamed :: char where
  "unnamed = CHR 0x00"

record timestamper =
  withCPUtime :: bool
  lastKnownCPUtime :: rat
  tvStart :: timeval
  tv :: timeval
  ts_max :: int
  ts_watcher :: "int set"
  tstampbuffer :: string
  tstampsize :: nat
  incompleteLineSent :: bool
  addEOFLine :: bool
  watched :: "info list"

text \<open>info::write; its private systemWrite repeats the one of the filters.\<close>

definition info_write :: "info \<Rightarrow> string \<Rightarrow> ts_world \<Rightarrow> ts_world option" where
  "info_write entry bs w =
     (if filteredOutput entry then filter_write (outputfilter entry) bs w
      else systemWrite (outputdescr entry) bs w)"

section \<open>Operations\<close>

definition resetTimeStamp :: "timestamper \<Rightarrow> ts_world \<Rightarrow> timestamper \<times> ts_world" where
  "resetTimeStamp ts w = (let (t, w) = gettimeofday w in (ts\<lparr>tvStart := t\<rparr>, w))"

definition ts_construct :: "bool \<Rightarrow> timestamper \<Rightarrow> ts_world \<Rightarrow> timestamper \<times> ts_world" where
  "ts_construct cpu raw w =
     (let ts = raw\<lparr>withCPUtime := cpu, ts_watcher := {}, ts_max := 1, watched := []\<rparr>;
          (ts, w) = resetTimeStamp ts w
      in (ts\<lparr>lastKnownCPUtime := 0, addEOFLine := False, incompleteLineSent := False\<rparr>, w))"

definition addEOF :: "bool \<Rightarrow> timestamper \<Rightarrow> timestamper" where
  "addEOF add ts = ts\<lparr>addEOFLine := add\<rparr>"

definition watch_entry :: "info \<Rightarrow> timestamper \<Rightarrow> timestamper" where
  "watch_entry entry ts =
     ts\<lparr>ts_watcher := insert (inputdescr entry) (ts_watcher ts),
        ts_max := (if ts_max ts \<le> inputdescr entry then inputdescr entry + 1 else ts_max ts),
        watched := watched ts @ [entry]\<rparr>"

definition watch_fd :: "int \<Rightarrow> char \<Rightarrow> int \<Rightarrow> timestamper \<Rightarrow> timestamper" where
  "watch_fd inputfd letter outputfd =
     watch_entry \<lparr>filteredOutput = False, inputdescr = inputfd, outputdescr = outputfd,
       outputfilter = 0, info_name = letter, EOLBefore = True\<rparr>"

definition watch_filter :: "int \<Rightarrow> nat \<Rightarrow> char \<Rightarrow> timestamper \<Rightarrow> timestamper" where
  "watch_filter inputfd object letter =
     watch_entry \<lparr>filteredOutput = True, inputdescr = inputfd, outputdescr = 0,
       outputfilter = object, info_name = letter, EOLBefore = True\<rparr>"

definition time_since :: "timeval \<Rightarrow> timeval \<Rightarrow> timeval" where
  "time_since start now =
     (let u = tv_usec now - tv_usec start; s = tv_sec now - tv_sec start
      in if u < 0 then \<lparr>tv_sec = s - 1, tv_usec = u + 1000000\<rparr>
         else \<lparr>tv_sec = s, tv_usec = u\<rparr>)"

definition getTimeStamp :: "timestamper \<Rightarrow> ts_world \<Rightarrow> timestamper \<times> ts_world" where
  "getTimeStamp ts w =
     (let (now, w) = gettimeofday w in (ts\<lparr>tv := time_since (tvStart ts) now\<rparr>, w))"

definition setCPUtimeFromAnotherThread :: "rat \<Rightarrow> timestamper \<Rightarrow> timestamper" where
  "setCPUtimeFromAnotherThread cputime ts = ts\<lparr>lastKnownCPUtime := cputime\<rparr>"

text \<open>
  The text of a stamp. The divisions of C round towards 0; tv_usec is not negative here.
\<close>

definition stamp_text :: "bool \<Rightarrow> char \<Rightarrow> rat \<Rightarrow> timeval \<Rightarrow> string" where
  "stamp_text cpu name cputime t =
     (if name \<noteq> unnamed then [name] else []) @
     (if cpu then fixed 2 cputime @ ''/'' else []) @
     dec_int (tv_sec t) @ ''.'' @ zero_padded 2 (tv_usec t div 10000) @ [tab]"

text \<open>
  snprintf stores at most 63 characters of the text but returns its whole length.
\<close>

definition prepareTimeStamp :: "char \<Rightarrow> timestamper \<Rightarrow> ts_world \<Rightarrow> timestamper \<times> ts_world" where
  "prepareTimeStamp name ts w =
     (let (ts, w) = getTimeStamp ts w;
          text = stamp_text (withCPUtime ts) name (lastKnownCPUtime ts) (tv ts)
      in (ts\<lparr>tstampbuffer := take 63 text, tstampsize := length text\<rparr>, w))"

text \<open>
  Writing tstampsize bytes of the buffer: a size above 64 reads beyond it, and a size of 64
  includes the terminating null character.
\<close>

definition write_stamp :: "info \<Rightarrow> timestamper \<Rightarrow> ts_world \<Rightarrow> ts_world run" where
  "write_stamp entry ts w =
     (if 64 < tstampsize ts then Some (Inl (Undefined ''tstampbuffer''))
      else lift_option (info_write entry
             (take (tstampsize ts) (tstampbuffer ts @ [CHR 0x00])) w))"

text \<open>
  The loop of readFrom that splits the buffer into lines, with the output of the last
  incomplete line: the new values of EOLBefore and incompleteLineSent.
\<close>

function split_loop ::
  "info \<Rightarrow> timestamper \<Rightarrow> string \<Rightarrow> bool \<Rightarrow> ts_world \<Rightarrow> (bool \<times> bool \<times> ts_world) run" where
  "split_loop entry ts s bol w =
     (if s \<noteq> [] \<and> newline \<in> set s then
        let eol = length (takeWhile (\<lambda>c. c \<noteq> newline) s);
            s' = drop (eol + 1) s
        in run_then (lift_option (info_write entry (take (eol + 1) s) w)) (\<lambda>w.
           if s' \<noteq> [] then run_then (write_stamp entry ts w) (split_loop entry ts s' bol)
           else split_loop entry ts s' True w)
      else if s \<noteq> [] then
        run_then (lift_option (info_write entry s w)) (\<lambda>w. returns (bol, True, w))
      else returns (bol, False, w))"
  by pat_completeness auto
termination by (relation "measure (\<lambda>(entry, ts, s, bol, w). length s)") auto

declare split_loop.simps [simp del]

definition readFrom :: "nat \<Rightarrow> timestamper \<Rightarrow> ts_world \<Rightarrow> (bool \<times> timestamper \<times> ts_world) run" where
  "readFrom i ts w =
     (let entry = watched ts ! i; (answer, w) = sys_read (inputdescr entry) 1024 w in
      case answer of
        Got_error \<Rightarrow> returns (False, ts, w)
      | Got buffer \<Rightarrow>
          if buffer = [] then returns (False, ts, w)
          else
            let (ts, w) = prepareTimeStamp (info_name entry) ts w in
            run_then (if EOLBefore entry then write_stamp entry ts w else returns w) (\<lambda>w.
            run_then (split_loop entry ts buffer False w) (\<lambda>(eol, incomplete, w).
            returns (True, ts\<lparr>watched := (watched ts)[i := entry\<lparr>EOLBefore := eol\<rparr>],
                              incompleteLineSent := incomplete\<rparr>, w))))"

text \<open>
  The body of the for loop of timeStampLines for the files from index i on; \<open>ready\<close> is the
  set that select has left. \<open>todo\<close> bounds the number of files not looked at yet.
\<close>

definition recompute_max :: "info list \<Rightarrow> int" where
  "recompute_max l = fold (\<lambda>entry m. if m \<le> inputdescr entry then inputdescr entry + 1 else m) l 1"

definition unwatch :: "nat \<Rightarrow> timestamper \<Rightarrow> timestamper" where
  "unwatch i ts =
     (let fd = inputdescr (watched ts ! i); l = take i (watched ts) @ drop (Suc i) (watched ts)
      in ts\<lparr>ts_watcher := ts_watcher ts - {fd}, watched := l, ts_max := recompute_max l\<rparr>)"

fun serve_files ::
  "nat \<Rightarrow> int set \<Rightarrow> nat \<Rightarrow> timestamper \<Rightarrow> ts_world \<Rightarrow> (timestamper \<times> ts_world) run" where
  "serve_files 0 ready i ts w = returns (ts, w)"
| "serve_files (Suc todo) ready i ts w =
     (if inputdescr (watched ts ! i) \<in> ready then
        run_then (readFrom i ts w) (\<lambda>(more, ts, w).
          if more then serve_files todo ready (Suc i) ts w
          else serve_files todo ready i (unwatch i ts) w)
      else serve_files todo ready (Suc i) ts w)"

text \<open>
  The lines after the loop. By then the vector is empty, unless select kept failing.
\<close>

definition add_last_line :: "timestamper \<Rightarrow> ts_world \<Rightarrow> (timestamper \<times> ts_world) run" where
  "add_last_line ts w =
     (if \<not> addEOFLine ts then returns (ts, w)
      else if watched ts = [] then Some (Inl (Undefined ''watched[0]''))
      else
        let entry = watched ts ! 0 in
        run_then (if incompleteLineSent ts then lift_option (info_write entry [newline] w)
                  else returns w) (\<lambda>w.
        let (ts, w) = prepareTimeStamp unnamed ts w in
        run_then (write_stamp entry ts w) (\<lambda>w.
        run_then (lift_option (info_write entry (''EOF'' @ [newline]) w)) (\<lambda>w.
        returns (ts, w)))))"

text \<open>
  The answers of select, in order: an error with its text, or the set of the files that have
  data or are closed, of which select reports those watched and smaller than max. When the answers given are used up the thread is still in select.
\<close>

datatype select_answer = Select_error string | Ready "int set"

datatype 'a progress = Waiting 'a | Ended 'a

definition select_result :: "int set \<Rightarrow> timestamper \<Rightarrow> int set" where
  "select_result tmp ts = {fd \<in> ts_watcher ts. fd \<in> tmp \<and> fd < ts_max ts}"

fun select_loop ::
  "select_answer list \<Rightarrow> nat \<Rightarrow> timestamper \<Rightarrow> ts_world \<Rightarrow>
   (timestamper \<times> ts_world) progress run" where
  "select_loop answers watchDog ts w =
     (if watched ts = [] then
        run_then (add_last_line ts w) (\<lambda>tw. returns (Ended tw))
      else case answers of
        [] \<Rightarrow> returns (Waiting (ts, w))
      | Select_error e # answers \<Rightarrow>
          let w = print (''timestamper::select: '' @ e @ endl) w in
          if Suc watchDog < 10 then select_loop answers (Suc watchDog) ts w
          else run_then (add_last_line ts (print (''Error in TimeStamper::timeStampLines(), '' @
                   ''select() keeps returning errors, exiting.'' @ endl) w))
                 (\<lambda>tw. returns (Ended tw))
      | Ready tmp # answers \<Rightarrow>
          run_then (serve_files (length (watched ts)) (select_result tmp ts) 0 ts w)
            (\<lambda>(ts, w). select_loop answers 0 ts w))"

declare select_loop.simps [simp del]

definition timeStampLines ::
  "select_answer list \<Rightarrow> timestamper \<Rightarrow> ts_world \<Rightarrow> (timestamper \<times> ts_world) progress run" where
  "timeStampLines answers ts w = select_loop answers 0 ts w"

section \<open>Time stamps\<close>

lemma microseconds_time_since:
  "microseconds (time_since start now) = microseconds now - microseconds start"
  by (simp add: microseconds_def time_since_def Let_def algebra_simps)

lemma valid_time_since: "valid_time start \<Longrightarrow> valid_time now \<Longrightarrow> valid_time (time_since start now)"
  by (auto simp: valid_time_def time_since_def Let_def)

lemma length_stamp_text:
  assumes "0 \<le> cputime" and "cputime < 10 ^ 33" and "valid_time t" and "\<bar>tv_sec t\<bar> \<le> 2 ^ 63"
  shows "length (stamp_text cpu name cputime t) \<le> 63"
proof -
  have "length (fixed 2 cputime) \<le> 37" using length_fixed_2 [OF assms(1,2)] by simp
  moreover have "length (dec_int (tv_sec t)) \<le> 20"
    using length_dec_int [of "tv_sec t" 18] assms(4) by simp
  moreover have "length (zero_padded 2 (tv_usec t div 10000)) = 2"
    using assms(3) by (intro length_zero_padded_2) (auto simp: valid_time_def)
  ultimately show ?thesis by (simp add: stamp_text_def)
qed

section \<open>Writing\<close>

lemma append_file_ts [os_simps]:
  "inputs (append_file fd bs w) = inputs w" "clock (append_file fd bs w) = clock w"
  "clock_reads (append_file fd bs w) = clock_reads w" "cout (append_file fd bs w) = cout w"
  "filters (append_file fd bs w) = filters w"
  by (simp_all add: append_file_def)

text \<open>
  The output of a watched file, be it a descriptor or a filter: it stands for the bytes
  written to it, and the rest of the world is as it was.
\<close>

type_synonym frame = "(int \<Rightarrow> string option list) \<times> (nat \<Rightarrow> timeval) \<times> nat \<times> string"

definition frame_of :: "ts_world \<Rightarrow> frame" where
  "frame_of w = (inputs w, clock w, clock_reads w, cout w)"

definition entry_stands_for :: "info \<Rightarrow> string \<Rightarrow> frame \<Rightarrow> ts_world \<Rightarrow> string \<Rightarrow> bool" where
  "entry_stands_for entry base fr w t \<longleftrightarrow> frame_of w = fr \<and>
     (if filteredOutput entry then
        case filters w (outputfilter entry) of
          Null_filter f \<Rightarrow> fd_stands_for (nf_fd f) base w t
        | Circular_filter f \<Rightarrow>
            cb_stands_for (cb_fd f) (cb_activateSize f) (cb_maxSize f) base (f, w) t
      else fd_stands_for (outputdescr entry) base w t)"

lemma info_write_sink:
  assumes "entry_stands_for entry base fr w t" and "length b < 2 ^ 31" and "length (t @ b) < 2 ^ 64"
  shows "\<exists>w'. info_write entry b w = Some w' \<and> entry_stands_for entry base fr w' (t @ b)"
proof -
  have fair: "fair_kernel w"
    using assms(1) by (auto simp: entry_stands_for_def fd_stands_for_def
        split: if_splits filter_object.splits)
  show ?thesis
  proof (cases "filteredOutput entry")
    case False
    obtain n where "systemWrite (outputdescr entry) b w =
        Some ((append_file (outputdescr entry) b w)\<lparr>calls := n\<rparr>)"
      using systemWrite_fair [OF fair] .
    with False assms(1) show ?thesis
      by (simp add: info_write_def entry_stands_for_def fd_stands_for_def frame_of_def os_simps)
  next
    case filtered: True
    show ?thesis
    proof (cases "filters w (outputfilter entry)")
      case (Null_filter f)
      obtain n where "systemWrite (nf_fd f) b w = Some ((append_file (nf_fd f) b w)\<lparr>calls := n\<rparr>)"
        using systemWrite_fair [OF fair] .
      with filtered Null_filter assms(1) show ?thesis
        by (simp add: info_write_def filter_write_def nf_write_def entry_stands_for_def
            fd_stands_for_def frame_of_def os_simps)
    next
      case (Circular_filter f)
      from assms(1) filtered Circular_filter have
        rep: "cb_rep f t" "files w (cb_fd f) = base @ take (unat (cb_activateSize f)) t"
        by (simp_all add: entry_stands_for_def)
      obtain f' n where f': "cb_write b f w =
          Some (f', (append_file (cb_fd f) (take (unat (cb_activateSize f) - length t) b) w)\<lparr>calls := n\<rparr>)"
        "cb_rep f' (t @ b)" "same_setup f' f"
        using cb_write_correct [OF rep(1) fair assms(2)] assms(3) by auto
      have frame: "fair_kernel (v\<lparr>filters := x\<rparr>) = fair_kernel v" for v :: ts_world and x
        by (simp add: fair_kernel_def)
      from f' rep filtered Circular_filter assms(1) fair show ?thesis
        by (simp add: info_write_def filter_write_def entry_stands_for_def frame_of_def
            same_setup_def frame os_simps)
    qed
  qed
qed

interpretation entry_sink: output_sink "info_write entry" "entry_stands_for entry base fr"
    "\<lambda>b. length b < 2 ^ 31" "\<lambda>t. length t < 2 ^ 64" for entry base fr
  by unfold_locales (rule info_write_sink, assumption+, simp)

section \<open>One read\<close>

text \<open>
  The reference, byte by byte: the stamp comes before the first byte of each line; \<open>bol\<close>
  tells whether the text starts at the beginning of a line.
\<close>

fun stamped :: "string \<Rightarrow> bool \<Rightarrow> string \<Rightarrow> string" where
  "stamped st bol [] = []"
| "stamped st bol (c # cs) = (if bol then st else []) @ c # stamped st (c = newline) cs"

text \<open>The pieces that the loop of readFrom writes.\<close>

function line_chunks :: "string \<Rightarrow> string \<Rightarrow> string list" where
  "line_chunks st s =
     (if s \<noteq> [] \<and> newline \<in> set s then
        let eol = length (takeWhile (\<lambda>c. c \<noteq> newline) s); s' = drop (eol + 1) s
        in take (eol + 1) s # (if s' \<noteq> [] then st # line_chunks st s' else [])
      else if s \<noteq> [] then [s] else [])"
  by pat_completeness auto
termination by (relation "measure (\<lambda>(st, s). length s)") auto

declare line_chunks.simps [simp del]

lemma stamped_no_newline: "newline \<notin> set s \<Longrightarrow> stamped st False (s @ r) = s @ stamped st False r"
  by (induction s) auto

lemma split_at_newline:
  assumes "newline \<in> set s"
  obtains l r where "s = l @ newline # r" "newline \<notin> set l"
    "takeWhile (\<lambda>c. c \<noteq> newline) s = l"
proof -
  obtain l r where s: "s = l @ newline # r" "newline \<notin> set l"
    using split_list_first [OF assms] by blast
  have "takeWhile (\<lambda>c. c \<noteq> newline) (l @ newline # r) = l" using s(2) by (induction l) auto
  with s that show ?thesis by blast
qed

lemma stamped_True: "s \<noteq> [] \<Longrightarrow> stamped st True s = st @ stamped st False s"
  by (cases s) auto

lemma concat_line_chunks: "concat (line_chunks st s) = stamped st False s"
proof (induction st s rule: line_chunks.induct)
  case (1 st s)
  show ?case
  proof (cases "newline \<in> set s")
    case True
    then obtain l r where s: "s = l @ newline # r" "newline \<notin> set l"
      "takeWhile (\<lambda>c. c \<noteq> newline) s = l" by (rule split_at_newline)
    show ?thesis
      using 1 s stamped_no_newline [OF s(2), of st "newline # r"]
      by (subst line_chunks.simps) (auto simp: stamped_True Let_def)
  next
    case False
    then show ?thesis using stamped_no_newline [OF False, of st "[]"]
      by (subst line_chunks.simps) auto
  qed
qed

text \<open>The bytes that a stamp consists of, when it fits the buffer.\<close>

definition stamp_bytes :: "timestamper \<Rightarrow> string" where
  "stamp_bytes ts = take (tstampsize ts) (tstampbuffer ts @ [CHR 0x00])"

lemma write_stamp_fits:
  "tstampsize ts \<le> 64 \<Longrightarrow> write_stamp entry ts w = lift_option (info_write entry (stamp_bytes ts) w)"
  by (simp add: write_stamp_def stamp_bytes_def)

lemma split_loop_chunks:
  assumes "tstampsize ts \<le> 64" and "for_each (info_write entry) (line_chunks (stamp_bytes ts) s) w = Some w'"
  shows "split_loop entry ts s bol w =
    returns (if s \<noteq> [] \<and> last s = newline then True else bol, s \<noteq> [] \<and> last s \<noteq> newline, w')"
  using assms
proof (induction "length s" arbitrary: s bol w rule: less_induct)
  case less
  show ?case
  proof (cases "newline \<in> set s")
    case True
    then obtain l r where s: "s = l @ newline # r" "newline \<notin> set l"
      "takeWhile (\<lambda>c. c \<noteq> newline) s = l" by (rule split_at_newline)
    have chunks: "line_chunks (stamp_bytes ts) s = (l @ [newline]) #
        (if r \<noteq> [] then stamp_bytes ts # line_chunks (stamp_bytes ts) r else [])"
      using s by (subst line_chunks.simps) (simp add: Let_def)
    from less.prems(2) chunks obtain w1 where w1: "info_write entry (l @ [newline]) w = Some w1"
      "for_each (info_write entry)
         (if r \<noteq> [] then stamp_bytes ts # line_chunks (stamp_bytes ts) r else []) w1 = Some w'"
      by (auto split: option.splits)
    have step: "split_loop entry ts s bol w =
        (if r \<noteq> [] then run_then (write_stamp entry ts w1) (split_loop entry ts r bol)
         else split_loop entry ts r True w1)"
      using s w1(1) by (subst split_loop.simps) (simp add: Let_def)
    show ?thesis
    proof (cases "r = []")
      case True
      with w1(2) s step show ?thesis by (simp add: split_loop.simps [of entry ts "[]"])
    next
      case False
      from w1(2) False obtain w2 where w2: "info_write entry (stamp_bytes ts) w1 = Some w2"
        "for_each (info_write entry) (line_chunks (stamp_bytes ts) r) w2 = Some w'"
        by (auto split: option.splits)
      have "split_loop entry ts r bol w2 =
          returns (if r \<noteq> [] \<and> last r = newline then True else bol, r \<noteq> [] \<and> last r \<noteq> newline, w')"
        using less.hyps [of r] less.prems(1) w2(2) s(1) by simp
      with False step s(1) w2(1) less.prems(1) show ?thesis by (simp add: write_stamp_fits)
    qed
  next
    case False
    show ?thesis
    proof (cases "s = []")
      case True
      then show ?thesis using less.prems(2)
        by (simp add: split_loop.simps [of entry ts "[]"] line_chunks.simps [of _ "[]"])
    next
      case nonempty: False
      with False have chunks: "line_chunks (stamp_bytes ts) s = [s]"
        by (subst line_chunks.simps) simp
      have "last s \<noteq> newline" using False nonempty last_in_set [of s] by metis
      with less.prems(2) False nonempty chunks show ?thesis
        by (subst split_loop.simps) (auto split: option.splits)
    qed
  qed
qed

lemma length_line_chunks:
  "b \<in> set (line_chunks st s) \<Longrightarrow> length b \<le> max (length st) (length s)"
proof (induction st s rule: line_chunks.induct)
  case (1 st s)
  show ?case
  proof (cases "newline \<in> set s")
    case True
    then obtain l r where s: "s = l @ newline # r" "newline \<notin> set l"
      "takeWhile (\<lambda>c. c \<noteq> newline) s = l" by (rule split_at_newline)
    then have "line_chunks st s = (l @ [newline]) # (if r \<noteq> [] then st # line_chunks st r else [])"
      by (subst line_chunks.simps) (simp add: Let_def)
    with 1 s show ?thesis by (fastforce simp: Let_def split: if_splits)
  next
    case False
    with 1 show ?thesis by (subst (asm) (2) line_chunks.simps) (auto split: if_splits)
  qed
qed

definition stamp_at :: "timestamper \<Rightarrow> char \<Rightarrow> timeval \<Rightarrow> string" where
  "stamp_at ts name now =
     stamp_text (withCPUtime ts) name (lastKnownCPUtime ts) (time_since (tvStart ts) now)"

definition with_stamp :: "char \<Rightarrow> timeval \<Rightarrow> timestamper \<Rightarrow> timestamper" where
  "with_stamp name now ts =
     ts\<lparr>tv := time_since (tvStart ts) now, tstampbuffer := take 63 (stamp_at ts name now),
        tstampsize := length (stamp_at ts name now)\<rparr>"

definition stampable :: "timestamper \<Rightarrow> timeval \<Rightarrow> bool" where
  "stampable ts now \<longleftrightarrow> 0 \<le> lastKnownCPUtime ts \<and> lastKnownCPUtime ts < 10 ^ 33 \<and>
     valid_time (tvStart ts) \<and> valid_time now \<and> \<bar>tv_sec (time_since (tvStart ts) now)\<bar> \<le> 2 ^ 63"

lemma watched_with_stamp: "watched (with_stamp name now ts) = watched ts"
  by (simp add: with_stamp_def)

lemma prepareTimeStamp_eq:
  "prepareTimeStamp name ts w =
     (with_stamp name (clock w (clock_reads w)) ts, w\<lparr>clock_reads := Suc (clock_reads w)\<rparr>)"
  by (simp add: prepareTimeStamp_def getTimeStamp_def gettimeofday_def with_stamp_def stamp_at_def
      Let_def)

lemma length_stamp_at: "stampable ts now \<Longrightarrow> length (stamp_at ts name now) \<le> 63"
  by (simp add: stampable_def stamp_at_def length_stamp_text valid_time_since)

lemma stamp_bytes_with_stamp:
  assumes "stampable ts now"
  shows "stamp_bytes (with_stamp name now ts) = stamp_at ts name now"
    and "tstampsize (with_stamp name now ts) \<le> 64"
  using length_stamp_at [OF assms, of name] by (simp_all add: stamp_bytes_def with_stamp_def)

lemma entry_stands_for_frame:
  assumes "entry_stands_for entry base fr w t"
  shows "entry_stands_for entry base (frame_of (w\<lparr>inputs := ins, clock_reads := n\<rparr>))
           (w\<lparr>inputs := ins, clock_reads := n\<rparr>) t"
proof -
  have "fair_kernel (w\<lparr>inputs := ins, clock_reads := n\<rparr>) = fair_kernel w"
    by (simp add: fair_kernel_def)
  with assms show ?thesis
    by (auto simp: entry_stands_for_def fd_stands_for_def split: filter_object.splits)
qed

definition after_read :: "nat \<Rightarrow> string \<Rightarrow> timeval \<Rightarrow> timestamper \<Rightarrow> timestamper" where
  "after_read i buffer now ts =
     (with_stamp (info_name (watched ts ! i)) now ts)
       \<lparr>watched := (watched ts)[i := (watched ts ! i)\<lparr>EOLBefore := (last buffer = newline)\<rparr>],
        incompleteLineSent := (last buffer \<noteq> newline)\<rparr>"

lemma readFrom_correct:
  assumes data: "sys_read (inputdescr e) 1024 w = (Got buffer, w\<lparr>inputs := ins\<rparr>)" "buffer \<noteq> []"
    and e: "e = watched ts ! i" and now: "now = clock w (clock_reads w)"
    and stampable: "stampable ts now"
    and out: "entry_stands_for e base fr w t"
    and fits: "length (t @ stamped (stamp_at ts (info_name e) now) (EOLBefore e) buffer) < 2 ^ 64"
    and short: "length buffer \<le> 1024"
  shows "\<exists>w'. readFrom i ts w = returns (True, after_read i buffer now ts, w') \<and>
     entry_stands_for e base (frame_of (w\<lparr>inputs := ins, clock_reads := Suc (clock_reads w)\<rparr>)) w'
       (t @ stamped (stamp_at ts (info_name e) now) (EOLBefore e) buffer)"
proof -
  let ?st = "stamp_at ts (info_name e) now" and ?ts = "with_stamp (info_name e) now ts"
  let ?w = "w\<lparr>inputs := ins, clock_reads := Suc (clock_reads w)\<rparr>"
  let ?bs = "(if EOLBefore e then [?st] else []) @ line_chunks ?st buffer"
  note stamp = stamp_bytes_with_stamp [OF stampable, of "info_name e"]
  have start: "entry_stands_for e base (frame_of ?w) ?w t" by (rule entry_stands_for_frame [OF out])
  have bytes: "concat ?bs = stamped ?st (EOLBefore e) buffer"
    using data(2) by (simp add: concat_line_chunks stamped_True)
  have "length b \<le> 1024" if "b \<in> set ?bs" for b
    using that length_line_chunks [of b ?st buffer] length_stamp_at [OF stampable, of "info_name e"] short
    by (auto split: if_splits)
  then have chunks: "\<forall>b\<in>set ?bs. length b < 2 ^ 31" by fastforce
  obtain w' where w': "for_each (info_write e) ?bs ?w = Some w'"
    "entry_stands_for e base (frame_of ?w) w' (t @ stamped ?st (EOLBefore e) buffer)"
    using entry_sink.puts_ok [OF start chunks, unfolded bytes, OF fits] by blast
  obtain w1 where w1: "(if EOLBefore e then write_stamp e ?ts ?w else returns ?w) = returns w1"
    "for_each (info_write e) (line_chunks ?st buffer) w1 = Some w'"
    using w'(1) stamp by (cases "EOLBefore e") (auto simp: write_stamp_fits split: option.splits)
  have "split_loop e ?ts buffer False w1 =
      returns (last buffer = newline, last buffer \<noteq> newline, w')"
    using split_loop_chunks [OF stamp(2), of e buffer w1 w' False] w1(2) data(2)
    by (simp add: stamp(1))
  moreover have "readFrom i ts w =
      run_then (if EOLBefore e then write_stamp e ?ts ?w else returns ?w) (\<lambda>w.
      run_then (split_loop e ?ts buffer False w) (\<lambda>(eol, incomplete, w).
      returns (True, ?ts\<lparr>watched := (watched ts)[i := e\<lparr>EOLBefore := eol\<rparr>],
                         incompleteLineSent := incomplete\<rparr>, w)))"
    using data now e [symmetric]
    by (simp add: readFrom_def prepareTimeStamp_eq Let_def watched_with_stamp)
  ultimately have "readFrom i ts w = returns (True, after_read i buffer now ts, w')"
    by (simp only: w1(1) run_then_returns prod.case after_read_def e [symmetric])
  with w'(2) show ?thesis by blast
qed

section \<open>The watched files\<close>

text \<open>
  What select is given agrees with the vector: no file twice, exactly the files of the vector
  in the set, and max above all of them.
\<close>

definition ts_ok :: "timestamper \<Rightarrow> bool" where
  "ts_ok ts \<longleftrightarrow> distinct (map inputdescr (watched ts)) \<and>
     ts_watcher ts = inputdescr ` set (watched ts) \<and>
     (\<forall>e\<in>set (watched ts). inputdescr e < ts_max ts)"

lemma ts_ok_select: "ts_ok ts \<Longrightarrow> select_result tmp ts = tmp \<inter> inputdescr ` set (watched ts)"
  by (auto simp: ts_ok_def select_result_def)

lemma ts_ok_construct: "ts_ok (fst (ts_construct cpu raw w))"
  by (simp add: ts_construct_def resetTimeStamp_def gettimeofday_def ts_ok_def Let_def)

lemma ts_ok_watch:
  "ts_ok ts \<Longrightarrow> inputdescr e \<notin> inputdescr ` set (watched ts) \<Longrightarrow> ts_ok (watch_entry e ts)"
  by (fastforce simp: ts_ok_def watch_entry_def)

lemma recompute_max_aux:
  "(\<forall>e\<in>set l. inputdescr e < fold (\<lambda>entry m. if m \<le> inputdescr entry then inputdescr entry + 1 else m) l k)
   \<and> k \<le> fold (\<lambda>entry m. if m \<le> inputdescr entry then inputdescr entry + 1 else m) l k"
proof (induction l arbitrary: k)
  case Nil
  show ?case by simp
next
  case (Cons e l)
  show ?case
    using Cons [of "inputdescr e + 1"] Cons [of k] by (auto simp: not_le)
qed

lemma recompute_max_bound: "e \<in> set l \<Longrightarrow> inputdescr e < recompute_max l"
  using recompute_max_aux [of l 1] by (simp add: recompute_max_def)

lemma ts_ok_unwatch:
  assumes "ts_ok ts" and "i < length (watched ts)"
  shows "ts_ok (unwatch i ts)"
proof -
  have split: "watched ts = take i (watched ts) @ watched ts ! i # drop (Suc i) (watched ts)"
    using assms(2) by (rule id_take_nth_drop)
  let ?l = "take i (watched ts) @ drop (Suc i) (watched ts)"
  have "distinct (map inputdescr (watched ts))" using assms(1) by (simp add: ts_ok_def)
  then have "distinct (map inputdescr (take i (watched ts) @ watched ts ! i # drop (Suc i) (watched ts)))"
    using split by simp
  then have d: "distinct (map inputdescr ?l)"
    "inputdescr (watched ts ! i) \<notin> inputdescr ` set ?l" by auto
  have "set (watched ts) = insert (watched ts ! i) (set ?l)"
    by (subst split) auto
  with d assms(1) show ?thesis
    by (auto simp: ts_ok_def unwatch_def Let_def recompute_max_bound)
qed

definition same_files :: "timestamper \<Rightarrow> timestamper \<Rightarrow> bool" where
  "same_files ts' ts \<longleftrightarrow> map inputdescr (watched ts') = map inputdescr (watched ts) \<and>
     ts_watcher ts' = ts_watcher ts \<and> ts_max ts' = ts_max ts \<and> addEOFLine ts' = addEOFLine ts"

lemma ts_ok_same_files:
  assumes "same_files ts' ts"
  shows "ts_ok ts' = ts_ok ts"
proof -
  have m: "map inputdescr (watched ts') = map inputdescr (watched ts)"
    using assms by (simp add: same_files_def)
  then have "inputdescr ` set (watched ts') = inputdescr ` set (watched ts)"
    by (metis list.set_map)
  moreover from this have "(\<forall>e\<in>set (watched ts'). inputdescr e < k) =
      (\<forall>e\<in>set (watched ts). inputdescr e < k)" for k
    by (metis (no_types, lifting) imageE imageI)
  ultimately show ?thesis using assms m by (simp add: ts_ok_def same_files_def)
qed

lemma readFrom_files:
  assumes "readFrom i ts w = returns (go_on, ts', w')" and "i < length (watched ts)"
  shows "same_files ts' ts"
proof -
  have upd: "map inputdescr ((watched ts)[i := (watched ts ! i)\<lparr>EOLBefore := b\<rparr>]) =
      map inputdescr (watched ts)" for b
    using assms(2) by (auto intro: nth_equalityI simp: nth_list_update)
  show ?thesis
    using assms(1) upd
    by (auto simp: readFrom_def prepareTimeStamp_eq with_stamp_def same_files_def return_iff Let_def
        split: prod.splits read_answer.splits if_splits)
qed

lemma same_files_length: "same_files ts' ts \<Longrightarrow> length (watched ts') = length (watched ts)"
  by (metis length_map same_files_def)

lemma length_unwatch: "i < length (watched ts) \<Longrightarrow> length (watched (unwatch i ts)) = length (watched ts) - 1"
  by (simp add: unwatch_def Let_def)

lemma serve_files_ok:
  assumes "serve_files todo ready i ts w = returns (ts', w')" and "i + todo = length (watched ts)"
    and "ts_ok ts"
  shows "ts_ok ts'"
  using assms
proof (induction todo arbitrary: i ts w)
  case 0
  then show ?case by simp
next
  case (Suc todo)
  have i: "i < length (watched ts)" using Suc.prems(2) by simp
  show ?case
  proof (cases "inputdescr (watched ts ! i) \<in> ready")
    case False
    with Suc.prems Suc.IH [of "Suc i" ts w] show ?thesis by simp
  next
    case True
    with Suc.prems(1) obtain b ts1 w1 where r: "readFrom i ts w = returns (b, ts1, w1)"
      "(if b then serve_files todo ready (Suc i) ts1 w1
        else serve_files todo ready i (unwatch i ts1) w1) = returns (ts', w')"
      by (auto simp: return_iff)
    have same: "same_files ts1 ts" using readFrom_files [OF r(1) i] .
    then have l: "length (watched ts1) = length (watched ts)" by (rule same_files_length)
    have ok: "ts_ok ts1" using same Suc.prems(3) by (simp add: ts_ok_same_files)
    show ?thesis
      using r(2) l ok i Suc.prems(2) Suc.IH [of "Suc i" ts1 w1] Suc.IH [of i "unwatch i ts1" w1]
        ts_ok_unwatch [OF ok, of i] length_unwatch [of i ts1]
      by (cases b) auto
  qed
qed

lemma select_loop_ok:
  assumes "select_loop answers n ts w = returns (Waiting (ts', w'))" and "ts_ok ts"
  shows "ts_ok ts'"
  using assms
proof (induction answers arbitrary: n ts w)
  case Nil
  then show ?case by (auto simp: select_loop.simps [of "[]"] return_iff split: if_splits)
next
  case (Cons a answers)
  have files_left: "watched ts \<noteq> []"
    using Cons.prems(1) by (auto simp: select_loop.simps [of "a # answers"] return_iff)
  show ?case
  proof (cases a)
    case (Select_error e)
    with files_left Cons show ?thesis
      by (auto simp: select_loop.simps [of "Select_error e # answers"] return_iff Let_def
          split: if_splits)
  next
    case (Ready tmp)
    with files_left Cons.prems(1) obtain ts1 w1 where
      r: "serve_files (length (watched ts)) (select_result tmp ts) 0 ts w = returns (ts1, w1)"
        "select_loop answers 0 ts1 w1 = returns (Waiting (ts', w'))"
      by (auto simp: select_loop.simps [of "Ready tmp # answers"] return_iff)
    have "ts_ok ts1" using serve_files_ok [OF r(1) _ Cons.prems(2)] by simp
    with r(2) Cons.IH show ?thesis by blast
  qed
qed

section \<open>A whole session\<close>

text \<open>
  The data of successive reads, each with its stamp; the next piece is at the beginning of a
  line when the last one ended with a newline.
\<close>

fun stamped_reads :: "bool \<Rightarrow> (string \<times> string) list \<Rightarrow> string" where
  "stamped_reads bol [] = []"
| "stamped_reads bol ((st, s) # reads) =
     stamped st bol s @ stamped_reads (last s = newline) reads"

definition stamps :: "timestamper \<Rightarrow> char \<Rightarrow> ts_world \<Rightarrow> string list \<Rightarrow> (string \<times> string) list" where
  "stamps ts name w data =
     zip (map (\<lambda>k. stamp_at ts name (clock w (clock_reads w + k))) [0..<length data]) data"

definition sees :: "int \<Rightarrow> select_answer \<Rightarrow> bool" where
  "sees fd a = (case a of Select_error e \<Rightarrow> False | Ready tmp \<Rightarrow> fd \<in> tmp)"

lemma stamps_Cons:
  "stamps ts name w (s # data) =
     (stamp_at ts name (clock w (clock_reads w)), s) #
     stamps ts name (w\<lparr>clock_reads := Suc (clock_reads w)\<rparr>) data"
  by (simp add: stamps_def map_upt_Suc stamp_at_def del: upt_Suc)

text \<open>
  One watched file, whose reads give pieces of data and then the end of file: the loop ends,
  and what it has written is the data with the stamps.
\<close>

lemma session_end:
  assumes "watched ts = [e]" and "inputs w (inputdescr e) = []" and "ts_ok ts"
    and "\<not> addEOFLine ts" and "sees (inputdescr e) a"
  shows "select_loop (a # answers) n ts w = returns (Ended (unwatch 0 ts, w))"
proof -
  obtain tmp where tmp: "a = Ready tmp" "inputdescr e \<in> tmp"
    using assms(5) by (cases a) (auto simp: sees_def)
  have "inputdescr e \<in> select_result tmp ts"
    using assms(1,3) tmp(2) by (simp add: ts_ok_select)
  then have "serve_files (length (watched ts)) (select_result tmp ts) 0 ts w =
      returns (unwatch 0 ts, w)"
    using assms(1,2) by (simp add: readFrom_def sys_read_def)
  then have "select_loop (a # answers) n ts w = select_loop answers 0 (unwatch 0 ts) w"
    using assms(1) tmp(1) by (simp add: select_loop.simps [of "Ready tmp # answers"] del: serve_files.simps)
  moreover have "watched (unwatch 0 ts) = []" "addEOFLine (unwatch 0 ts) = addEOFLine ts"
    using assms(1) by (simp_all add: unwatch_def Let_def)
  ultimately show ?thesis
    using assms(4) by (simp add: select_loop.simps [of answers] add_last_line_def)
qed

lemma session_step:
  assumes one: "watched ts = [e]" and data: "inputs w (inputdescr e) = Some s # later"
      "s \<noteq> []" "length s \<le> 1024"
    and ok: "ts_ok ts" "sees (inputdescr e) a"
    and now: "now = clock w (clock_reads w)" and stampable: "stampable ts now"
    and out: "entry_stands_for e base fr w t"
    and fits: "length (t @ stamped (stamp_at ts (info_name e) now) (EOLBefore e) s) < 2 ^ 64"
  obtains w' where
    "select_loop (a # answers) n ts w = select_loop answers 0 (after_read 0 s now ts) w'"
    "entry_stands_for e base (frame_of (w\<lparr>inputs := (inputs w)(inputdescr e := later),
        clock_reads := Suc (clock_reads w)\<rparr>)) w'
      (t @ stamped (stamp_at ts (info_name e) now) (EOLBefore e) s)"
proof -
  obtain tmp where tmp: "a = Ready tmp" "inputdescr e \<in> tmp"
    using ok(2) by (cases a) (auto simp: sees_def)
  have ready: "inputdescr e \<in> select_result tmp ts"
    using one ok(1) tmp(2) by (simp add: ts_ok_select)
  have "sys_read (inputdescr e) 1024 w = (Got s, w\<lparr>inputs := (inputs w)(inputdescr e := later)\<rparr>)"
    using data by (simp add: sys_read_def)
  from readFrom_correct [OF this data(2) _ now stampable out fits data(3), of 0] one
  obtain w' where w': "readFrom 0 ts w = returns (True, after_read 0 s now ts, w')"
    "entry_stands_for e base (frame_of (w\<lparr>inputs := (inputs w)(inputdescr e := later),
        clock_reads := Suc (clock_reads w)\<rparr>)) w'
      (t @ stamped (stamp_at ts (info_name e) now) (EOLBefore e) s)" by auto
  have "select_loop (a # answers) n ts w = select_loop answers 0 (after_read 0 s now ts) w'"
    using w'(1) one tmp(1) ready by (simp add: select_loop.simps [of "Ready tmp # answers"])
  with w'(2) that show ?thesis by blast
qed

lemma after_read_frame:
  "stamp_at (after_read i s now ts) = stamp_at ts"
  "stampable (after_read i s now ts) = stampable ts"
  "addEOFLine (after_read i s now ts) = addEOFLine ts"
  by (auto simp: after_read_def with_stamp_def stamp_at_def stampable_def fun_eq_iff)

lemma after_read_one:
  assumes "watched ts = [e]" and "ts_ok ts"
  shows "watched (after_read 0 s now ts) = [e\<lparr>EOLBefore := (last s = newline)\<rparr>]"
    and "ts_ok (after_read 0 s now ts)"
  using assms by (simp_all add: after_read_def with_stamp_def ts_ok_def)

lemma entry_stands_for_EOLBefore:
  "entry_stands_for (e\<lparr>EOLBefore := b\<rparr>) = entry_stands_for e"
  by (simp add: fun_eq_iff entry_stands_for_def)

definition reads_give :: "string list \<Rightarrow> string option list \<Rightarrow> bool" where
  "reads_give data ins \<longleftrightarrow> ins = map Some data \<and> (\<forall>s\<in>set data. s \<noteq> [] \<and> length s \<le> 1024)"

lemma session_runs:
  assumes "watched ts = [e]" and "ts_ok ts" and "reads_give data (inputs w (inputdescr e))"
    and "length answers = Suc (length data)" and "\<forall>a\<in>set answers. sees (inputdescr e) a"
    and "\<forall>k. stampable ts (clock w k)"
    and "entry_stands_for e base (frame_of w) w t"
    and "length (t @ stamped_reads (EOLBefore e) (stamps ts (info_name e) w data)) < 2 ^ 64"
  shows "\<exists>ts' w'. select_loop (answers @ more_answers) n ts w = select_loop more_answers 0 ts' w' \<and>
     watched ts' = [] \<and> addEOFLine ts' = addEOFLine ts \<and> inputs w' (inputdescr e) = [] \<and>
     entry_stands_for e base (frame_of w') w'
       (t @ stamped_reads (EOLBefore e) (stamps ts (info_name e) w data))"
  using assms
proof (induction data arbitrary: answers n ts e w t)
  case Nil
  then obtain a tmp where a: "answers = [a]" "a = Ready tmp" "inputdescr e \<in> tmp"
    by (cases answers; cases "hd answers") (auto simp: sees_def)
  have "inputdescr e \<in> select_result tmp ts"
    using Nil.prems(1,2) a(3) by (simp add: ts_ok_select)
  moreover have "inputs w (inputdescr e) = []" using Nil.prems(3) by (simp add: reads_give_def)
  ultimately have "serve_files (length (watched ts)) (select_result tmp ts) 0 ts w =
      returns (unwatch 0 ts, w)"
    using Nil.prems(1) by (simp add: readFrom_def sys_read_def)
  then have "select_loop (answers @ more_answers) n ts w = select_loop more_answers 0 (unwatch 0 ts) w"
    using Nil.prems(1) a(1,2)
    by (simp add: select_loop.simps [of "Ready tmp # more_answers"] del: serve_files.simps)
  moreover have "watched (unwatch 0 ts) = []" "addEOFLine (unwatch 0 ts) = addEOFLine ts"
    using Nil.prems(1) by (simp_all add: unwatch_def Let_def)
  moreover have "inputs w (inputdescr e) = []" using Nil.prems(3) by (simp add: reads_give_def)
  ultimately show ?case using Nil.prems(7) by (auto simp: stamps_def)
next
  case (Cons s data)
  let ?now = "clock w (clock_reads w)"
  let ?st = "stamp_at ts (info_name e) ?now" and ?e = "e\<lparr>EOLBefore := (last s = newline)\<rparr>"
  let ?w = "w\<lparr>inputs := (inputs w)(inputdescr e := map Some data),
        clock_reads := Suc (clock_reads w)\<rparr>"
  obtain a rest_answers where a: "answers = a # rest_answers" using Cons.prems(4) by (cases answers) auto
  have s: "inputs w (inputdescr e) = Some s # map Some data" "s \<noteq> []" "length s \<le> 1024"
    using Cons.prems(3) by (simp_all add: reads_give_def)
  have fits: "length (t @ stamped ?st (EOLBefore e) s) < 2 ^ 64"
    using Cons.prems(8) by (simp add: stamps_Cons)
  obtain w1 where w1:
    "select_loop (answers @ more_answers) n ts w =
       select_loop (rest_answers @ more_answers) 0 (after_read 0 s ?now ts) w1"
    "entry_stands_for e base (frame_of ?w) w1 (t @ stamped ?st (EOLBefore e) s)"
    using session_step [OF Cons.prems(1) s Cons.prems(2) _ refl _ Cons.prems(7) fits, of a
        "rest_answers @ more_answers" n] Cons.prems(5,6) a by auto
  from w1(2) have frame: "frame_of w1 = frame_of ?w" by (simp add: entry_stands_for_def)
  then have w1_eq: "inputs w1 (inputdescr e) = map Some data" "clock w1 = clock w"
    "clock_reads w1 = Suc (clock_reads w)" by (auto simp: frame_of_def)
  have same: "entry_stands_for ?e base (frame_of w1) w1 (t @ stamped ?st (EOLBefore e) s)"
    using w1(2) frame by (simp add: entry_stands_for_def)
  have stamps_eq: "stamps (after_read 0 s ?now ts) (info_name e) w1 data =
      stamps ts (info_name e) (w\<lparr>clock_reads := Suc (clock_reads w)\<rparr>) data"
    by (simp add: stamps_def after_read_frame w1_eq)
  have "\<exists>ts' w'. select_loop (rest_answers @ more_answers) 0 (after_read 0 s ?now ts) w1 =
       select_loop more_answers 0 ts' w' \<and>
     watched ts' = [] \<and> addEOFLine ts' = addEOFLine (after_read 0 s ?now ts) \<and>
     inputs w' (inputdescr ?e) = [] \<and>
     entry_stands_for ?e base (frame_of w') w' ((t @ stamped ?st (EOLBefore e) s) @
       stamped_reads (EOLBefore ?e) (stamps (after_read 0 s ?now ts) (info_name ?e) w1 data))"
    using after_read_one [OF Cons.prems(1,2)] Cons.prems(3-6,8) a
    by (intro Cons.IH same) (auto simp: reads_give_def w1_eq after_read_frame stamps_eq stamps_Cons)
  then show ?case
    by (simp add: w1(1) stamps_eq stamps_Cons after_read_frame entry_stands_for_EOLBefore)
qed

section \<open>Properties\<close>

text \<open>
  Property C20: on one watched file whose reads give the pieces of data and then the end of
  file, and an output (a descriptor or a filter) of a fair kernel, timeStampLines ends, has read
  everything, stops watching the file, and has written exactly the data with a stamp before
  the first byte of every line: nothing is lost, reordered or duplicated, wherever the
  reads cut the lines.
\<close>

theorem timeStampLines_session:
  assumes "watched ts = [e]" and "ts_ok ts" and "\<not> addEOFLine ts"
    and "reads_give data (inputs w (inputdescr e))"
    and "length answers = Suc (length data)" and "\<forall>a\<in>set answers. sees (inputdescr e) a"
    and "\<forall>k. stampable ts (clock w k)"
    and "entry_stands_for e base (frame_of w) w t"
    and "length (t @ stamped_reads (EOLBefore e) (stamps ts (info_name e) w data)) < 2 ^ 64"
  shows "\<exists>ts' w'. timeStampLines answers ts w = returns (Ended (ts', w')) \<and>
     watched ts' = [] \<and> inputs w' (inputdescr e) = [] \<and>
     entry_stands_for e base (frame_of w') w'
       (t @ stamped_reads (EOLBefore e) (stamps ts (info_name e) w data))"
proof -
  obtain ts' w' where r: "select_loop answers 0 ts w = select_loop [] 0 ts' w'" "watched ts' = []"
    "addEOFLine ts' = addEOFLine ts" "inputs w' (inputdescr e) = []"
    "entry_stands_for e base (frame_of w') w'
       (t @ stamped_reads (EOLBefore e) (stamps ts (info_name e) w data))"
    using session_runs [OF assms(1,2,4-9), of "[]" 0] by auto
  then have "timeStampLines answers ts w = returns (Ended (ts', w'))"
    using assms(3) by (simp add: timeStampLines_def select_loop.simps [of "[]"] add_last_line_def)
  with r show ?thesis by blast
qed

definition demo_world :: ts_world where
  "demo_world = \<lparr>files = \<lambda>_. [], kernel = \<lambda>_. Wrote 5, calls = 0, perrors = [],
     filters = \<lambda>_. Null_filter \<lparr>nf_fd = 1\<rparr>,
     inputs = (\<lambda>_. [])(7 := [Some (''ab'' @ [newline] @ ''c''), Some (''d'' @ [newline])]),
     clock = \<lambda>n. \<lparr>tv_sec = 100 + int (min n 9), tv_usec = 250000\<rparr>, clock_reads = 0, cout = []\<rparr>"

definition demo_stamper :: "timestamper \<times> ts_world" where
  "demo_stamper =
     (let (ts, w) = ts_construct False \<lparr>withCPUtime = True, lastKnownCPUtime = 0,
            tvStart = \<lparr>tv_sec = 0, tv_usec = 0\<rparr>, tv = \<lparr>tv_sec = 0, tv_usec = 0\<rparr>, ts_max = 0,
            ts_watcher = {}, tstampbuffer = [], tstampsize = 0, incompleteLineSent = True,
            addEOFLine = True, watched = []\<rparr> demo_world
      in (watch_fd 7 (CHR ''o'') 1 ts, w))"

lemma demo_stamper_fields:
  assumes "demo_stamper = (ts, w)"
  shows "w = demo_world\<lparr>clock_reads := 1\<rparr>"
    and "watched ts = [\<lparr>filteredOutput = False, inputdescr = 7, outputdescr = 1, outputfilter = 0,
           info_name = CHR ''o'', EOLBefore = True\<rparr>]"
    and "tvStart ts = \<lparr>tv_sec = 100, tv_usec = 250000\<rparr>" "lastKnownCPUtime ts = 0"
    and "withCPUtime ts = False" "ts_max ts = 8" "ts_watcher ts = {7}" "\<not> addEOFLine ts"
  using assms by (auto simp: demo_stamper_def ts_construct_def resetTimeStamp_def gettimeofday_def
      demo_world_def watch_fd_def watch_entry_def)

lemma demo_fair: "fair_kernel demo_world"
  by (auto simp: fair_kernel_def demo_world_def)

theorem timeStampLines_session_witness:
  "\<exists>ts' w'. timeStampLines (replicate 3 (Ready {7})) (fst demo_stamper) (snd demo_stamper) =
       returns (Ended (ts', w')) \<and>
     files w' 1 = ''o1.00'' @ [tab] @ ''ab'' @ [newline] @ ''o1.00'' @ [tab] @ ''c'' @ ''d'' @ [newline]"
proof -
  obtain ts w where demo: "demo_stamper = (ts, w)" by (cases demo_stamper)
  note w = demo_stamper_fields(1) [OF demo] and ts = demo_stamper_fields(2-8) [OF demo]
  let ?e = "hd (watched ts)" and ?data = "[''ab'' @ [newline] @ ''c'', ''d'' @ [newline]]"
  have texts: "stamp_text False (CHR ''o'') 0 \<lparr>tv_sec = 1, tv_usec = 0\<rparr> = ''o1.00'' @ [tab]"
    by code_simp
  have "stamps ts (CHR ''o'') w ?data =
      [(''o1.00'' @ [tab], ''ab'' @ [newline] @ ''c''),
       (stamp_text False (CHR ''o'') 0 \<lparr>tv_sec = 2, tv_usec = 0\<rparr>, ''d'' @ [newline])]"
    by (simp add: stamps_def stamp_at_def w ts demo_world_def time_since_def texts)
  then have out: "stamped_reads True (stamps ts (CHR ''o'') w ?data) =
      ''o1.00'' @ [tab] @ ''ab'' @ [newline] @ ''o1.00'' @ [tab] @ ''c'' @ ''d'' @ [newline]"
    by (simp add: newline_def)
  have ok: "ts_ok ts" by (simp add: ts_ok_def ts)
  have give: "reads_give ?data (inputs w (inputdescr ?e))"
    by (simp add: reads_give_def ts w demo_world_def)
  have now: "\<forall>k. stampable ts (clock w k)"
    by (auto simp: stampable_def ts w demo_world_def valid_time_def time_since_def)
  have start: "entry_stands_for ?e [] (frame_of w) w []"
    using demo_fair by (simp add: entry_stands_for_def fd_stands_for_def ts w demo_world_def
        fair_kernel_def)
  have "\<exists>ts' w'. timeStampLines (replicate 3 (Ready {7})) ts w = returns (Ended (ts', w')) \<and>
     watched ts' = [] \<and> inputs w' (inputdescr ?e) = [] \<and>
     entry_stands_for ?e [] (frame_of w') w'
       ([] @ stamped_reads (EOLBefore ?e) (stamps ts (info_name ?e) w ?data))"
    by (rule timeStampLines_session [OF _ ok _ give _ _ now start])
      (simp_all add: ts sees_def out [simplified])
  then show ?thesis
    by (auto simp: demo ts out [simplified] entry_stands_for_def fd_stands_for_def)
qed

text \<open>
  With the EOF line requested, the same session ends with an access to the
  first element of an empty vector, after all the data has been written: the loop is only
  left when the vector is empty, so the line is never written.
\<close>

theorem eof_line_out_of_bounds:
  assumes "watched ts = [e]" and "ts_ok ts" and "addEOFLine ts"
    and "reads_give data (inputs w (inputdescr e))"
    and "length answers = Suc (length data)" and "\<forall>a\<in>set answers. sees (inputdescr e) a"
    and "\<forall>k. stampable ts (clock w k)"
    and "entry_stands_for e base (frame_of w) w t"
    and "length (t @ stamped_reads (EOLBefore e) (stamps ts (info_name e) w data)) < 2 ^ 64"
  shows "timeStampLines answers ts w = Some (Inl (Undefined ''watched[0]''))"
proof -
  obtain ts' w' where r: "select_loop answers 0 ts w = select_loop [] 0 ts' w'" "watched ts' = []"
    "addEOFLine ts' = addEOFLine ts"
    using session_runs [OF assms(1,2,4-9), of "[]" 0] by auto
  then show ?thesis
    using assms(3) by (simp add: timeStampLines_def select_loop.simps [of "[]"] add_last_line_def)
qed

theorem eof_line_out_of_bounds_witness:
  "timeStampLines [Ready {7}] (addEOF True (fst demo_stamper))
     ((snd demo_stamper)\<lparr>inputs := \<lambda>_. []\<rparr>) = Some (Inl (Undefined ''watched[0]''))"
proof -
  obtain ts w where demo: "demo_stamper = (ts, w)" by (cases demo_stamper)
  note w = demo_stamper_fields(1) [OF demo] and ts = demo_stamper_fields(2-8) [OF demo]
  let ?e = "hd (watched ts)" and ?ts = "addEOF True ts" and ?w = "w\<lparr>inputs := \<lambda>_. []\<rparr>"
  have ok: "ts_ok ?ts" by (simp add: ts_ok_def ts addEOF_def)
  have give: "reads_give [] (inputs ?w (inputdescr ?e))" by (simp add: reads_give_def)
  have now: "\<forall>k. stampable ?ts (clock ?w k)"
    by (auto simp: stampable_def ts w demo_world_def valid_time_def time_since_def addEOF_def)
  have start: "entry_stands_for ?e [] (frame_of ?w) ?w []"
    using demo_fair by (simp add: entry_stands_for_def fd_stands_for_def ts w demo_world_def
        fair_kernel_def)
  have "timeStampLines [Ready {7}] ?ts ?w = Some (Inl (Undefined ''watched[0]''))"
    by (rule eof_line_out_of_bounds [OF _ ok _ give _ _ now start])
      (simp_all add: ts sees_def addEOF_def stamps_def)
  then show ?thesis by (simp add: demo)
qed

text \<open>
  Whatever select answers and however the reads end, while timeStampLines waits,
  the set and the bound it gives to select are those of the files in the vector, so that no
  watched file is forgotten and no closed one is waited for.
\<close>

theorem select_watches_open_files:
  assumes "timeStampLines answers ts w = returns (Waiting (ts', w'))" and "ts_ok ts"
  shows "ts_ok ts' \<and> select_result tmp ts' = tmp \<inter> inputdescr ` set (watched ts')"
  using select_loop_ok assms ts_ok_select unfolding timeStampLines_def by blast

theorem select_watches_open_files_witness:
  "\<exists>ts' w'. timeStampLines [Select_error ''EINTR''] (fst demo_stamper) (snd demo_stamper) =
       returns (Waiting (ts', w')) \<and> ts_ok ts' \<and> select_result {3, 7} ts' = {7}"
proof -
  obtain ts w where demo: "demo_stamper = (ts, w)" by (cases demo_stamper)
  note w = demo_stamper_fields(1) [OF demo] and ts = demo_stamper_fields(2-8) [OF demo]
  obtain w' where r: "timeStampLines [Select_error ''EINTR''] ts w = returns (Waiting (ts, w'))"
    by (simp add: timeStampLines_def select_loop.simps [of "[_]"] select_loop.simps [of "[]"] ts Let_def)
  have "ts_ok ts" by (simp add: ts_ok_def ts)
  from select_watches_open_files [OF r this, of "{3, 7}"] r show ?thesis
    by (auto simp: demo ts)
qed

text \<open>
  The text of a stamp, terminator included, fits the 64 bytes of tstampbuffer for
  every letter, every CPU time below 10 ^ 33 seconds and every elapsed time that a long holds,
  so the bytes written are those of the text. The elapsed time is exact and normalised.
\<close>

theorem prepareTimeStamp_fits:
  assumes "stampable ts now" and "now = clock w (clock_reads w)"
    and "prepareTimeStamp name ts w = (ts', w')"
  shows "tstampsize ts' < 64 \<and>
     stamp_bytes ts' = stamp_text (withCPUtime ts) name (lastKnownCPUtime ts) (tv ts') \<and>
     microseconds (tv ts') = microseconds now - microseconds (tvStart ts) \<and> valid_time (tv ts')"
proof -
  from assms have ts': "ts' = with_stamp name now ts" by (simp add: prepareTimeStamp_eq)
  have "valid_time (time_since (tvStart ts) now)"
    using assms(1) by (simp add: stampable_def valid_time_since)
  then show ?thesis
    using length_stamp_at [OF assms(1), of name] stamp_bytes_with_stamp(1) [OF assms(1), of name]
    by (simp add: ts' with_stamp_def stamp_at_def microseconds_time_since)
qed

theorem prepareTimeStamp_fits_witness:
  "\<exists>ts' w'. prepareTimeStamp (CHR ''o'') (fst demo_stamper) (snd demo_stamper) = (ts', w') \<and>
     tstampsize ts' < 64 \<and> microseconds (tv ts') = 1000000"
proof -
  obtain ts w where demo: "demo_stamper = (ts, w)" by (cases demo_stamper)
  note w = demo_stamper_fields(1) [OF demo] and ts = demo_stamper_fields(2-8) [OF demo]
  obtain ts' w' where r: "prepareTimeStamp (CHR ''o'') ts w = (ts', w')"
    by (cases "prepareTimeStamp (CHR ''o'') ts w")
  have "stampable ts (clock w (clock_reads w))"
    by (auto simp: stampable_def ts w demo_world_def valid_time_def time_since_def)
  from prepareTimeStamp_fits [OF this refl r] r show ?thesis
    by (auto simp: demo w ts demo_world_def microseconds_def)
qed

end
