(* ===== verification/Watcher.thy ===== *)
theory Watcher
  imports Process_History Timestamper
begin

text \<open>
  Watcher.hh and ExecutionSummary.hh: the state that the main thread and the watcher thread
  share, the operations of each, and the summary of a run. How the threads interleave is in
  \<open>Watcher_Threads\<close>.
\<close>

section \<open>The system\<close>

text \<open>
  One value is what the operating system shows during one operation of the watcher: /proc,
  the memory \<open>raw_tree\<close> in which an object is created, the number of clock ticks per second,
  the real and the effective user and the pid of runsolver.
\<close>

record watch_system = proc_system +
  raw_tree :: process_tree
  hz :: u64
  user_id :: nat
  effective_user :: nat
  own_pid :: int

definition sigkill :: int where
  "sigkill = 9"

definition sigterm :: int where
  "sigterm = 15"

section \<open>State\<close>

text \<open>
  The process trees live at addresses; \<open>trees\<close> holds those that are allocated, and new
  addresses are taken from \<open>next_tree\<close>. \<open>ts_stamper\<close> is the time stamper that the pointer
  timeStamper shows to. Fields whose names other classes use have the prefix w.
\<close>

record watcher =
  hasChildReaper :: bool
  varOutputFilename :: "string option"
  binVarOutputFilename :: "string option"
  childpid :: int
  solverIsRunning :: bool
  abortChild :: bool
  limitCPUTime :: rat
  limitWallClockTime :: rat
  limitVSize :: int
  limitMemory :: int
  maxDisplayPeriod :: rat
  starttv :: timeval
  stoptv :: timeval
  w_elapsed :: rat
  lastDisplayedElapsedTime :: rat
  stopSolverRequested :: bool
  stopReason :: "string option"
  stopSolverState :: int
  trees :: "nat \<Rightarrow> process_tree option"
  next_tree :: nat
  procTree :: nat
  lastProcTree :: "nat option"
  procHistory :: "nat history"
  listAllProcesses :: "int set"
  delayBeforeKill :: int
  maxVSize :: int
  maxMemory :: int
  currentCPUTime :: rat
  currentSystemTime :: rat
  currentUserTime :: rat
  w_completedCPUTime :: rat
  completedUserTime :: rat
  completedSystemTime :: rat
  completedChildrenList :: "int list"
  currentVSize :: int
  lastVSize :: int
  currentMemory :: int
  lastMemory :: int
  cleanupSolverOwnIPCQueues :: bool
  cleanupAllIPCQueues :: bool
  ts_stamper :: "timestamper option"

definition cpuUsageThreshold :: rat where
  "cpuUsageThreshold = flt (dbl (8 / 10))"

definition heavyProcessThreshold :: rat where
  "heavyProcessThreshold = flt (dbl (1 / 10))"

section \<open>Pointers\<close>

definition deref :: "watcher \<Rightarrow> nat \<Rightarrow> process_tree run" where
  "deref w p = (case trees w p of None \<Rightarrow> Some (Inl (Undefined ''process tree'')) | Some t \<Rightarrow> returns t)"

definition delete_trees :: "nat list \<Rightarrow> watcher \<Rightarrow> watcher run" where
  "delete_trees ps w =
     (if distinct ps \<and> (\<forall>p\<in>set ps. trees w p \<noteq> None)
      then returns (w\<lparr>trees := \<lambda>p. if p \<in> set ps then None else trees w p\<rparr>)
      else Some (Inl (Undefined ''delete'')))"

text \<open>procHistory.push, which deletes the trees that the history gives up.\<close>

definition push_tree :: "nat \<Rightarrow> watcher \<Rightarrow> watcher run" where
  "push_tree p w =
     run_then (Some (push p (procHistory w))) (\<lambda>(h, dropped).
       delete_trees dropped (w\<lparr>procHistory := h\<rparr>))"

text \<open>The constructor; \<open>raw\<close> is the memory of the object, whose heap holds no tree.\<close>

definition w_init :: "watcher \<Rightarrow> watcher" where
  "w_init raw = raw\<lparr>hasChildReaper := False, childpid := 0, stopSolverRequested := False,
     stopReason := None, stopSolverState := 0, ts_stamper := None,
     procHistory := ph_construct 0 10, listAllProcesses := {}, completedChildrenList := [],
     solverIsRunning := False, abortChild := False, maxDisplayPeriod := 60,
     limitCPUTime := 0, limitWallClockTime := 0, limitVSize := 0, limitMemory := 0,
     delayBeforeKill := 2, maxVSize := 0, maxMemory := 0,
     currentCPUTime := 0, currentUserTime := 0, currentSystemTime := 0,
     w_completedCPUTime := 0, completedUserTime := 0, completedSystemTime := 0,
     currentVSize := 0, lastVSize := 0, currentMemory := 0, lastMemory := 0,
     varOutputFilename := None, binVarOutputFilename := None,
     cleanupAllIPCQueues := False, cleanupSolverOwnIPCQueues := False, lastProcTree := None\<rparr>"

definition w_construct :: "watch_system \<Rightarrow> watcher \<Rightarrow> watcher run" where
  "w_construct os raw =
     (let w = w_init raw; p = next_tree w
      in push_tree p (w\<lparr>procTree := p, next_tree := Suc p,
           trees := (trees w)(p := Some (pt_construct (raw_tree os)))\<rparr>))"

section \<open>Settings\<close>

definition setTimeStamper :: "timestamper \<Rightarrow> watcher \<Rightarrow> watcher" where
  "setTimeStamper t w = w\<lparr>ts_stamper := Some t\<rparr>"

definition setChildReaper :: "bool \<Rightarrow> watcher \<Rightarrow> watcher" where
  "setChildReaper cr w = w\<lparr>hasChildReaper := cr\<rparr>"

definition setCleanupSolverOwnIPCQueues :: "bool \<Rightarrow> watcher \<Rightarrow> watcher" where
  "setCleanupSolverOwnIPCQueues cleanup w = w\<lparr>cleanupSolverOwnIPCQueues := cleanup\<rparr>"

definition setCleanupAllIPCQueues :: "bool \<Rightarrow> watcher \<Rightarrow> watcher" where
  "setCleanupAllIPCQueues cleanup w = w\<lparr>cleanupAllIPCQueues := cleanup\<rparr>"

definition setCPULimit :: "int \<Rightarrow> watcher \<Rightarrow> watcher" where
  "setCPULimit sec w = w\<lparr>limitCPUTime := flt (of_int sec)\<rparr>"

definition setWallClockLimit :: "int \<Rightarrow> watcher \<Rightarrow> watcher" where
  "setWallClockLimit sec w = w\<lparr>limitWallClockTime := flt (of_int sec)\<rparr>"

definition setVSizeLimit :: "int \<Rightarrow> watcher \<Rightarrow> watcher" where
  "setVSizeLimit limit w = w\<lparr>limitVSize := limit\<rparr>"

definition setMemoryLimit :: "int \<Rightarrow> watcher \<Rightarrow> watcher" where
  "setMemoryLimit limit w = w\<lparr>limitMemory := limit\<rparr>"

definition setVarOutputFile :: "string \<Rightarrow> watcher \<Rightarrow> watcher" where
  "setVarOutputFile filename w = w\<lparr>varOutputFilename := Some filename\<rparr>"

definition setBinVarOutputFile :: "string \<Rightarrow> watcher \<Rightarrow> watcher" where
  "setBinVarOutputFile filename w = w\<lparr>binVarOutputFilename := Some filename\<rparr>"

definition setDelayBeforeKill :: "int \<Rightarrow> watcher \<Rightarrow> watcher" where
  "setDelayBeforeKill seconds w = w\<lparr>delayBeforeKill := seconds\<rparr>"

section \<open>Sampling\<close>

definition stopSolver :: "string \<Rightarrow> watcher \<Rightarrow> watcher" where
  "stopSolver msg w = w\<lparr>stopSolverRequested := True, stopReason := Some msg\<rparr>"

text \<open>The end of readProcessData: the four limits, each one off when it is 0.\<close>

definition check_limits :: "watcher \<Rightarrow> watcher" where
  "check_limits w =
     (let w = (if limitCPUTime w \<noteq> 0 \<and> limitCPUTime w \<le> flt (currentCPUTime w + w_completedCPUTime w)
               then stopSolver ''Maximum CPU time exceeded: sending SIGTERM then SIGKILL'' w else w);
          w = (if limitWallClockTime w \<noteq> 0 \<and> limitWallClockTime w \<le> w_elapsed w
               then stopSolver ''Maximum wall clock time exceeded: sending SIGTERM then SIGKILL'' w else w);
          w = (if limitVSize w \<noteq> 0 \<and> limitVSize w \<le> currentVSize w
               then stopSolver ''Maximum VSize exceeded: sending SIGTERM then SIGKILL'' w else w);
          w = (if limitMemory w \<noteq> 0 \<and> limitMemory w \<le> currentMemory w
               then stopSolver ''Maximum memory exceeded: sending SIGTERM then SIGKILL'' w else w)
      in w)"

text \<open>The sums over the new tree, and the maxima.\<close>

definition account :: "u64 \<Rightarrow> process_tree \<Rightarrow> watcher \<Rightarrow> watcher run" where
  "account ticks pt w =
     run_then (lift_option (currentTimes ticks pt)) (\<lambda>(user, system).
     run_then (lift_option (pt_currentVSize pt)) (\<lambda>vs.
     run_then (lift_option (pt_currentMemory pt)) (\<lambda>mem.
       returns (w\<lparr>lastVSize := currentVSize w, lastMemory := currentMemory w,
         currentUserTime := user, currentSystemTime := system, currentCPUTime := flt (user + system),
         currentVSize := vs, currentMemory := mem,
         maxVSize := max (maxVSize w) vs, maxMemory := max (maxMemory w) mem\<rparr>))))"

text \<open>The new tree: a copy of the old one, read again or updated.\<close>

definition refresh_tree ::
  "watch_system \<Rightarrow> bool \<Rightarrow> watcher \<Rightarrow> process_tree \<Rightarrow> (process_tree \<times> event list \<times> int set) run" where
  "refresh_tree os updateChildrenList w pt =
     (if updateChildrenList then
        run_then (readProcesses os pt) (\<lambda>(pt, evs).
          if cleanupSolverOwnIPCQueues w then
            run_then (lift_option (listProcesses pt (listAllProcesses w))) (\<lambda>l. returns (pt, evs, l))
          else returns (pt, evs, listAllProcesses w))
      else
        run_then (updateProcessesData os pt) (\<lambda>(pt, evs). returns (pt, evs, listAllProcesses w)))"

definition new_tree :: "watch_system \<Rightarrow> watcher \<Rightarrow> process_tree run" where
  "new_tree os w =
     run_then (deref w (procTree w)) (\<lambda>old.
     run_then (lift_option (pt_copy (raw_tree os) (garbage os) old)) (\<lambda>copy.
       returns (setCompletedCPUTime (w_completedCPUTime w) (setElapsedTime (w_elapsed w) copy))))"

definition record_sample :: "watch_system \<Rightarrow> process_tree \<Rightarrow> watcher \<Rightarrow> watcher run" where
  "record_sample os pt w =
     run_then (account (hz os) pt w) (\<lambda>w.
     run_then (push_tree (procTree w) w) (\<lambda>w.
       returns (check_limits (w\<lparr>ts_stamper := map_option
         (setCPUtimeFromAnotherThread (flt (currentCPUTime w + w_completedCPUTime w))) (ts_stamper w)\<rparr>))))"

definition readProcessData ::
  "watch_system \<Rightarrow> bool \<Rightarrow> watcher \<Rightarrow> (watcher \<times> event list \<times> bool) run" where
  "readProcessData os updateChildrenList w =
     (if childpid w = 0 then returns (w, [], False)
      else
        run_then (new_tree os w) (\<lambda>pt.
        run_then (refresh_tree os updateChildrenList w pt) (\<lambda>(pt, evs, l).
          let p = next_tree w;
              w1 = w\<lparr>lastProcTree := Some (procTree w), procTree := p, next_tree := Suc p,
                     trees := (trees w)(p := Some pt), listAllProcesses := l\<rparr>
          in if solverEnded pt \<and> \<not> solverIsRunning w1 then
               run_then (delete_trees [p] w1) (\<lambda>w2. returns (w2\<lparr>procTree := procTree w\<rparr>, evs, True))
             else run_then (record_sample os pt w1) (\<lambda>w2. returns (w2, evs, False)))))"

section \<open>Display and signals\<close>

definition displayProcessData :: "watch_system \<Rightarrow> watcher \<Rightarrow> (watcher \<times> event list) run" where
  "displayProcessData os w =
     run_then (deref w (procTree w)) (\<lambda>pt.
     let w = w\<lparr>lastDisplayedElapsedTime := elapsed pt\<rparr> in
     run_then (lift_option (dumpProcessTree (hz os) pt)) (\<lambda>t.
     let out = [Print t, Print (dump_sums pt (currentCPUTime w) (currentVSize w) (currentMemory w))] in
     if 2 < w_elapsed w \<and> currentCPUTime w < flt (cpuUsageThreshold * w_elapsed w) then
       run_then (dumpHeavyProcesses os (hz os) (user_id os) heavyProcessThreshold pt) (\<lambda>(pt, evs).
         returns (w\<lparr>trees := (trees w)(procTree w := Some pt)\<rparr>, out @ evs))
     else returns (w, out)))"

definition send_signal :: "int \<Rightarrow> string \<Rightarrow> watcher \<Rightarrow> event list run" where
  "send_signal sig name w =
     run_then (deref w (procTree w)) (\<lambda>pt.
     run_then (lift_option (sendSignalBottomUp pt sig)) (\<lambda>evs.
       returns (Print ([newline] @ ''Sending '' @ name @ '' to process tree (bottom up)'' @ endl) # evs)))"

definition sendSIGTERM :: "watcher \<Rightarrow> event list run" where
  "sendSIGTERM = send_signal sigterm ''SIGTERM''"

definition sendSIGKILL :: "watcher \<Rightarrow> event list run" where
  "sendSIGKILL = send_signal sigkill ''SIGKILL''"

section \<open>The loop of the watcher thread\<close>

record loop_vars =
  now :: timeval
  displayPeriod :: rat
  nextDisplayTime :: rat
  count :: int
  subcount :: int

text \<open>Seconds from \<open>start\<close> to \<open>t\<close>: computed in double precision, stored as a float.\<close>

definition seconds_since :: "timeval \<Rightarrow> timeval \<Rightarrow> rat" where
  "seconds_since start t =
     flt (dbl (dbl (dbl (of_int (tv_sec t) + dbl (of_int (tv_usec t) / 1000000)) -
                    of_int (tv_sec start)) - dbl (of_int (tv_usec start) / 1000000)))"

definition loop_init :: "timeval \<Rightarrow> loop_vars" where
  "loop_init t = \<lparr>now = t, displayPeriod = flt (dbl (1 / 10)), nextDisplayTime = 0,
     count = 0, subcount = 1\<rparr>"

text \<open>The remainder of C has the sign of the dividend.\<close>

definition c_rem :: "int \<Rightarrow> int \<Rightarrow> int" where
  "c_rem a b = (if a < 0 then - (- a mod b) else a mod b)"

text \<open>The nanoseconds to sleep; an interrupted sleep goes on with what remains of it.\<close>

definition sleep_time :: "timeval \<Rightarrow> timeval \<Rightarrow> int" where
  "sleep_time start t = 100000000 - c_rem (tv_usec t - tv_usec start + 1000000) 100000 * 1000"

text \<open>What one turn does before and during the sleep: \<open>t\<close> is the time at its end.\<close>

definition turn_start :: "watcher \<Rightarrow> watcher" where
  "turn_start w =
     (if abortChild w then stopSolver ''Received SIGTERM or SIGINT, killing child'' w else w)"

definition turn_clock :: "timeval \<Rightarrow> watcher \<times> loop_vars \<Rightarrow> watcher \<times> loop_vars" where
  "turn_clock t st = ((fst st)\<lparr>w_elapsed := seconds_since (starttv (fst st)) t\<rparr>, (snd st)\<lparr>now := t\<rparr>)"

definition full_read :: "loop_vars \<Rightarrow> bool" where
  "full_read l \<longleftrightarrow> subcount l = 10 \<or> count l = 0 \<and> subcount l \<le> 5"

definition next_subcount :: "loop_vars \<Rightarrow> loop_vars" where
  "next_subcount l =
     (if full_read l then
        if subcount l = 10 then l\<lparr>subcount := 1, count := count l + 1\<rparr>
        else l\<lparr>subcount := subcount l + 1\<rparr>
      else l\<lparr>subcount := subcount l + 1\<rparr>)"

text \<open>The truth value tells that the loop is left by a break.\<close>

definition sample_step ::
  "watch_system \<Rightarrow> watcher \<times> loop_vars \<Rightarrow> (watcher \<times> loop_vars \<times> event list \<times> bool) run" where
  "sample_step os st =
     (let (w, l) = st in
      run_then (readProcessData os (full_read l) w) (\<lambda>(w, evs, ended).
        if ended then returns (w\<lparr>solverIsRunning := False\<rparr>, l, evs, True)
        else returns (w, next_subcount l, evs, False)))"

definition display_step ::
  "watch_system \<Rightarrow> watcher \<times> loop_vars \<Rightarrow> (watcher \<times> loop_vars \<times> event list) run" where
  "display_step os st =
     (let (w, l) = st in
      if nextDisplayTime l \<le> w_elapsed w then
        run_then (displayProcessData os w) (\<lambda>(w, evs).
          returns (w, l\<lparr>nextDisplayTime := flt (nextDisplayTime l + displayPeriod l),
                        displayPeriod := min (flt (2 * displayPeriod l)) (maxDisplayPeriod w)\<rparr>, evs))
      else returns (w, l, []))"

definition stop_step :: "watch_system \<Rightarrow> watcher \<Rightarrow> (watcher \<times> event list) run" where
  "stop_step os w =
     (if \<not> stopSolverRequested w then returns (w, [])
      else
        run_then
          (if stopSolverState w = 0 then
             case stopReason w of
               None \<Rightarrow> Some (Inl (Undefined ''stopReason''))
             | Some reason \<Rightarrow>
                 run_then (displayProcessData os w) (\<lambda>(w, shown).
                 run_then (sendSIGTERM w) (\<lambda>sent.
                   returns (w, [Print (replicate 3 newline @ reason @ endl)] @ shown @ sent @
                     [Print (''Sleeping '' @ dec_int (delayBeforeKill w) @ '' seconds'' @ endl)])))
           else if delayBeforeKill w * 10 \<le> stopSolverState w then
             run_then (sendSIGKILL w) (\<lambda>sent. returns (w\<lparr>solverIsRunning := False\<rparr>, sent))
           else returns (w, []))
          (\<lambda>(w, evs). returns (w\<lparr>stopSolverState := stopSolverState w + 1\<rparr>, evs)))"

text \<open>The turn after the sleep; the system is read up to three times.\<close>

definition tick ::
  "watch_system \<Rightarrow> watch_system \<Rightarrow> watch_system \<Rightarrow> timeval \<Rightarrow> watcher \<times> loop_vars \<Rightarrow>
     (watcher \<times> loop_vars \<times> event list \<times> bool) run" where
  "tick os1 os2 os3 t st =
     run_then (sample_step os1 (turn_clock t st)) (\<lambda>(w, l, evs1, stopped).
       if stopped then returns (w, l, evs1, True)
       else
         run_then (display_step os2 (w, l)) (\<lambda>(w, l, evs2).
         run_then (stop_step os3 w) (\<lambda>(w, evs3).
           returns (w, l, evs1 @ evs2 @ evs3, False))))"

text \<open>After the loop: processes that are still there are killed.\<close>

definition watcher_end :: "watch_system \<Rightarrow> event list run" where
  "watcher_end os =
     run_then (readProcesses os (setRunsolverPID (own_pid os) (pt_construct (raw_tree os)))) (\<lambda>(pt, evs).
     run_then
       (if solverEnded pt then returns []
        else
          run_then (lift_option (dumpProcessTree (hz os) pt)) (\<lambda>t.
          run_then (lift_option (sendSignalNow pt sigkill)) (\<lambda>sent.
            returns ([Print (''WARNING: unexpectedly, some solver processes are still present and will be killed:'' @ endl),
                      Print t] @ sent))))
       (\<lambda>killed. returns ([Pause 10000000] @ evs @ killed @ [Print (''??? end of watcher thread'' @ endl)])))"

section \<open>The main thread\<close>

definition watch_start :: "watch_system \<Rightarrow> int \<Rightarrow> timeval \<Rightarrow> watcher \<Rightarrow> (watcher \<times> event list) run" where
  "watch_start os pid t w =
     run_then (deref w (procTree w)) (\<lambda>pt.
       returns (w\<lparr>childpid := pid, solverIsRunning := True, starttv := t,
           trees := (trees w)(procTree w := Some (setElapsedTime 0 (setRunsolverPID (own_pid os) pt)))\<rparr>,
         [Print (''solver pid='' @ dec_int pid @ '', runsolver pid='' @ dec_int (own_pid os) @ endl)]))"

text \<open>What getrusage tells about the children that were waited for.\<close>

record rusage =
  ru_utime :: timeval
  ru_stime :: timeval
  ru_counters :: "int list" \<comment> \<open>maxrss, ixrss, idrss, isrss, minflt, majflt, nswap, inblock, oublock,
    msgsnd, msgrcv, nsignals, nvcsw, nivcsw\<close>

text \<open>A time in seconds, as a double.\<close>

definition time_value :: "timeval \<Rightarrow> rat" where
  "time_value t = dbl (of_int (tv_sec t) + dbl (of_int (tv_usec t) * dbl (1 / 1000000)))"

text \<open>The end of child \<open>pid\<close> is reported at time \<open>t\<close>.\<close>

definition reap :: "int \<Rightarrow> rusage \<Rightarrow> timeval \<Rightarrow> watcher \<Rightarrow> watcher \<times> event list" where
  "reap pid r t w =
     (let user = flt (time_value (ru_utime r)); syst = flt (time_value (ru_stime r))
      in (w\<lparr>w_completedCPUTime := flt (user + syst), completedUserTime := user,
            completedSystemTime := syst, completedChildrenList := completedChildrenList w @ [pid]\<rparr>,
          [Print ([newline] @ ''[startup+'' @ ostream_float (seconds_since (starttv w) t) @ '' s]'' @ [newline] @
             ''# the end of solver process '' @ dec_int pid @ '' was just reported to runsolver'' @ [newline] @
             ''# cumulated CPU time of all completed processes:  user='' @ ostream_float user @
             '' s, system='' @ ostream_float syst @ '' s'' @ endl)] @
          (if pid \<noteq> childpid w
           then [Print (''# this solver process was not waited by its parent and was adopted by runsolver'' @ [newline])]
           else [])))"

definition all_reaped :: "timeval \<Rightarrow> watcher \<Rightarrow> watcher \<times> event list" where
  "all_reaped t w =
     (w\<lparr>solverIsRunning := False, stoptv := t\<rparr>, [Print (endl @ ''Solver just ended.'' @ endl)])"

end
