(* ===== verification/Watcher_Summary.thy ===== *)
theory Watcher_Summary
  imports Watcher Signal_Names
begin

text \<open>
  The end of Watcher::watchPID, when all children have ended: the status of the last child, the
  times and sizes of the run, the message queues that are deleted, and the summary that is
  saved as text and in binary form (ExecutionSummary.hh).
\<close>

unbundle bit_operations_syntax

section \<open>ExecutionSummary\<close>

record execution_summary =
  es_byteOrder :: int
  es_version :: int
  runsolverVersion :: string
  wcTime :: rat
  cpuTime :: rat
  userTime :: rat
  systemTime :: rat
  cpuUsage :: rat
  maxVM :: int
  maxMem :: int
  timeOut :: bool
  memOut :: bool

definition es_set :: "execution_summary \<Rightarrow> execution_summary" where
  "es_set s = s\<lparr>es_version := 3, es_byteOrder := 0x01020304\<rparr>"

definition es_reset :: "execution_summary \<Rightarrow> execution_summary" where
  "es_reset s = s\<lparr>es_byteOrder := 0\<rparr>"

definition es_ok :: "execution_summary \<Rightarrow> bool" where
  "es_ok s \<longleftrightarrow> es_byteOrder s = 0x01020304 \<and> es_version s = 3"

section \<open>The status of a child\<close>

text \<open>The macros of sys/wait.h.\<close>

definition term_sig :: "i32 \<Rightarrow> i32" where
  "term_sig st = st AND 0x7F"

definition exit_status :: "i32 \<Rightarrow> i32" where
  "exit_status st = drop_bit 8 st AND 0xFF"

definition was_exited :: "i32 \<Rightarrow> bool" where
  "was_exited st \<longleftrightarrow> term_sig st = 0"

definition was_signaled :: "i32 \<Rightarrow> bool" where
  "was_signaled st \<longleftrightarrow> term_sig st \<noteq> 0 \<and> term_sig st \<noteq> 0x7F"

definition was_stopped :: "i32 \<Rightarrow> bool" where
  "was_stopped st \<longleftrightarrow> st AND 0xFF = 0x7F"

definition dumped_core :: "i32 \<Rightarrow> bool" where
  "dumped_core st \<longleftrightarrow> st AND 0x80 \<noteq> 0"

definition status_text :: "i32 \<Rightarrow> string result" where
  "status_text st =
     (if was_exited st then Inr (''Child status: '' @ dec_int (sint (exit_status st)) @ endl)
      else if was_signaled st then
        let sig = sint (term_sig st) in
        and_then (getSignalName sig) (\<lambda>name.
          Inr (''Child ended because it received signal '' @ dec_int sig @ '' ('' @ name @ '')'' @ endl @
            (if dumped_core st then ''Child dumped core'' @ endl else [])))
      else if was_stopped st then
        and_then (getSignalName (sint (exit_status st))) (\<lambda>name.
          Inr (''Child was stopped by signal '' @ name @ endl))
      else Inr (''Child ended for unknown reason !!'' @ endl))"

section \<open>Message queues\<close>

text \<open>
  What msgctl answers: the highest index (negative on failure), the queue in a slot, and the
  error, if any, of a removal.
\<close>

record msg_queue =
  q_id :: int
  q_cuid :: nat
  q_lspid :: int
  q_lrpid :: int

record msg_system =
  msg_maxid :: int
  msg_slot :: "int \<Rightarrow> msg_queue option"
  msg_remove :: "int \<Rightarrow> string option"

definition queue_chosen :: "nat \<Rightarrow> watcher \<Rightarrow> msg_queue \<Rightarrow> bool" where
  "queue_chosen myUid w q \<longleftrightarrow> q_cuid q = myUid \<and>
     (cleanupAllIPCQueues w \<or> q_lspid q \<in> listAllProcesses w \<or> q_lrpid q \<in> listAllProcesses w)"

text \<open>The text, and the queues that msgctl is asked to remove.\<close>

definition clean_slot :: "msg_system \<Rightarrow> nat \<Rightarrow> watcher \<Rightarrow> int \<Rightarrow> string \<times> int list \<Rightarrow> string \<times> int list" where
  "clean_slot ms myUid w slot st =
     (case msg_slot ms slot of
        None \<Rightarrow> st
      | Some q \<Rightarrow>
          if q_id q < 0 then st
          else if queue_chosen myUid w q then
            (fst st @ ''deleting IPC queue '' @ dec_int (q_id q) @
               (case msg_remove ms (q_id q) of None \<Rightarrow> [] | Some e \<Rightarrow> '' (failed: '' @ e @ '')'') @ [newline],
             snd st @ [q_id q])
          else st)"

definition cleanupIPCMsgQueues :: "msg_system \<Rightarrow> nat \<Rightarrow> watcher \<Rightarrow> string \<times> int list" where
  "cleanupIPCMsgQueues ms myUid w =
     (if msg_maxid ms < 0 then ([newline], [])
      else fold (clean_slot ms myUid w) [0..msg_maxid ms] ([newline], []))"

section \<open>The summary\<close>

definition wall_time :: "watcher \<Rightarrow> rat" where
  "wall_time w =
     flt (dbl (dbl (time_value (stoptv w) - of_int (tv_sec (starttv w))) -
       dbl (of_int (tv_usec (starttv w)) * dbl (1 / 1000000))))"

definition usage_percent :: "rat \<Rightarrow> rat \<Rightarrow> rat" where
  "usage_percent wc cpu = (if wc \<noteq> 0 then flt (flt (100 * cpu) / wc) else 100)"

text \<open>strncpy into an array of 16 characters; \<open>raw\<close> is the memory of the object.\<close>

definition summary_of :: "string \<Rightarrow> execution_summary \<Rightarrow> rusage \<Rightarrow> watcher \<Rightarrow> execution_summary" where
  "summary_of version raw r w =
     (let user = flt (time_value (ru_utime r)); syst = flt (time_value (ru_stime r));
          cpu = flt (user + syst); wc = wall_time w
      in (es_set raw)\<lparr>runsolverVersion := take 16 (version @ replicate 16 (CHR 0x00)),
           wcTime := wc, cpuTime := cpu, userTime := user, systemTime := syst,
           cpuUsage := usage_percent wc cpu, maxVM := maxVSize w,
           timeOut := limitCPUTime w \<noteq> 0 \<and> limitCPUTime w < cpu \<or>
                      limitWallClockTime w \<noteq> 0 \<and> limitWallClockTime w < wc,
           memOut := limitVSize w \<noteq> 0 \<and> limitVSize w < maxVSize w,
           maxMem := maxMemory w\<rparr>)"

definition times_text :: "execution_summary \<Rightarrow> string" where
  "times_text s =
     ''Real time (s): '' @ ostream_float (wcTime s) @ endl @
     ''CPU time (s): '' @ ostream_float (cpuTime s) @ endl @
     ''CPU user time (s): '' @ ostream_float (userTime s) @ endl @
     ''CPU system time (s): '' @ ostream_float (systemTime s) @ endl @
     ''CPU usage (%): '' @ ostream_float (cpuUsage s) @ endl @
     ''Max. virtual memory (cumulated for all children) (KiB): '' @ dec_int (maxVM s) @ endl @
     ''Max. memory (cumulated for all children) (KiB): '' @ dec_int (maxMem s) @ endl"

definition counter_names :: "string list" where
  "counter_names = [''maximum resident set size= '', ''integral shared memory size= '',
     ''integral unshared data size= '', ''integral unshared stack size= '', ''page reclaims= '',
     ''page faults= '', ''swaps= '', ''block input operations= '', ''block output operations= '',
     ''messages sent= '', ''messages received= '', ''signals received= '',
     ''voluntary context switches= '', ''involuntary context switches= '']"

definition rusage_text :: "rusage \<Rightarrow> string" where
  "rusage_text r =
     endl @ ''getrusage(RUSAGE_CHILDREN,...) data:'' @ endl @
     ''user time used= '' @ ostream_float (time_value (ru_utime r)) @ endl @
     ''system time used= '' @ ostream_float (time_value (ru_stime r)) @ endl @
     concat (map2 (\<lambda>name v. name @ dec_int v @ endl) counter_names (ru_counters r)) @ endl"

definition completed_text :: "watcher \<Rightarrow> string" where
  "completed_text w =
     (if w_completedCPUTime w = 0 then []
      else endl @ ''# summary of solver processes directly reported to runsolver:'' @ [newline] @
        (case completedChildrenList w of [] \<Rightarrow> []
         | p # ps \<Rightarrow> ''#   pid: '' @ dec_int p @ concat (map (\<lambda>q. '','' @ dec_int q) ps) @ endl) @
        ''#   total CPU time (s): '' @ ostream_float (w_completedCPUTime w) @ endl @
        ''#   total CPU user time (s): '' @ ostream_float (completedUserTime w) @ endl @
        ''#   total CPU system time (s): '' @ ostream_float (completedSystemTime w) @ endl @ endl)"

definition boolalpha :: "bool \<Rightarrow> string" where
  "boolalpha b = (if b then ''true'' else ''false'')"

text \<open>The file of the option --var: comment lines, and lines NAME=VALUE.\<close>

definition var_text :: "execution_summary \<Rightarrow> string" where
  "var_text s =
     ''# WCTIME: wall clock time in seconds'' @ [newline] @
     ''WCTIME='' @ ostream_float (wcTime s) @ endl @
     ''# CPUTIME: CPU time in seconds (USERTIME+SYSTEMTIME)'' @ [newline] @
     ''CPUTIME='' @ ostream_float (cpuTime s) @ endl @
     ''# USERTIME: CPU time spent in user mode in seconds'' @ [newline] @
     ''USERTIME='' @ ostream_float (userTime s) @ endl @
     ''# SYSTEMTIME: CPU time spent in system mode in seconds'' @ [newline] @
     ''SYSTEMTIME='' @ ostream_float (systemTime s) @ endl @
     ''# CPUUSAGE: CPUTIME/WCTIME in percent'' @ [newline] @
     ''CPUUSAGE='' @ ostream_float (cpuUsage s) @ endl @
     ''# MAXVM: maximum virtual memory used in KiB'' @ [newline] @
     ''MAXVM='' @ dec_int (maxVM s) @ endl @
     ''# TIMEOUT: did the solver exceed the time limit?'' @ [newline] @
     ''TIMEOUT='' @ boolalpha (timeOut s) @ endl @
     ''# MEMOUT: did the solver exceed the memory limit?'' @ [newline] @
     ''MEMOUT='' @ boolalpha (memOut s) @ endl"

section \<open>The files\<close>

text \<open>
  The error, if any, of opening a file for writing, whether all writes to the text file
  succeed, and whether the binary file can be mapped. The report has the file contents when
  they are complete.
\<close>

record file_system =
  open_error :: "string \<Rightarrow> string option"
  writes_succeed :: bool
  can_map :: bool

record report =
  rp_text :: string
  rp_removed :: "int list"
  rp_var :: "string option"
  rp_bin :: "execution_summary option"

definition save_var :: "file_system \<Rightarrow> execution_summary \<Rightarrow> string option \<Rightarrow> string \<times> string option" where
  "save_var fs s filename =
     (case filename of
        None \<Rightarrow> ([], None)
      | Some f \<Rightarrow>
          (case open_error fs f of
             Some e \<Rightarrow> (''Unable to open file '' @ f @ '' to save the main statistics in text format'' @
               '' (option --var): '' @ e @ [newline] @ endl, None)
           | None \<Rightarrow>
               if writes_succeed fs then ([], Some (var_text s))
               else (''failed to save the main statistics in text format'' @ [newline], None)))"

definition save_bin ::
  "file_system \<Rightarrow> execution_summary \<Rightarrow> string option \<Rightarrow> string \<times> execution_summary option" where
  "save_bin fs s filename =
     (case filename of
        None \<Rightarrow> ([], None)
      | Some f \<Rightarrow>
          (case open_error fs f of
             Some e \<Rightarrow> (''Unable to open file '' @ f @ '' to save the main statistics in binary format'' @
               '' (option --bin-var): '' @ e @ [newline] @ endl, None)
           | None \<Rightarrow> if can_map fs then ([], Some s) else ([], None)))"

text \<open>A history that holds an address without a tree would be undefined behaviour.\<close>

definition dump_history :: "watch_system \<Rightarrow> watcher \<Rightarrow> string run" where
  "dump_history os w =
     (if \<forall>p\<in>set (concat (cells (procHistory w))). trees w p \<noteq> None then
        lift_option (dumpHistory (hz os) (\<lambda>p. case trees w p of Some t \<Rightarrow> t | None \<Rightarrow> raw_tree os)
          (lastDisplayedElapsedTime w) (procHistory w))
      else Some (Inl (Undefined ''process tree'')))"

text \<open>All that follows the end of the watcher thread.\<close>

definition final_report ::
  "watch_system \<Rightarrow> msg_system \<Rightarrow> file_system \<Rightarrow> string \<Rightarrow> execution_summary \<Rightarrow> i32 \<Rightarrow> rusage \<Rightarrow>
     watcher \<Rightarrow> report run" where
  "final_report os ms fs version raw childstatus r w =
     run_then (dump_history os w) (\<lambda>dump.
     run_then (Some (status_text childstatus)) (\<lambda>status.
       let s = summary_of version raw r w;
           (cleaned, removed) = (if cleanupAllIPCQueues w \<or> cleanupSolverOwnIPCQueues w
             then cleanupIPCMsgQueues ms (effective_user os) w else ([], []));
           (t1, var) = save_var fs s (varOutputFilename w);
           (t2, bin) = save_bin fs s (binVarOutputFilename w)
       in returns \<lparr>rp_text = ''Dumping a history of the last processes samples'' @ endl @ dump @ endl @
             status @ times_text s @ cleaned @ rusage_text r @ completed_text w @ t1 @ t2,
           rp_removed = removed, rp_var = var, rp_bin = bin\<rparr>))"

section \<open>The statuses that the kernel makes\<close>

text \<open>The status of a process that called exit.\<close>

definition exit_code :: "8 word \<Rightarrow> i32" where
  "exit_code code = push_bit 8 (ucast code)"

lemma exit_code_parts:
  "term_sig (exit_code code) = 0" "exit_status (exit_code code) = ucast code"
proof -
  have m: "0x7F = (mask 7 :: i32)" "0xFF = (mask 8 :: i32)" by (simp_all add: mask_eq_exp_minus_1)
  show "term_sig (exit_code code) = 0" "exit_status (exit_code code) = ucast code"
    unfolding term_sig_def exit_status_def exit_code_def m using bit_imp_le_length [of code]
    by (auto simp: bit_simps intro!: bit_word_eqI) fastforce+
qed

lemma sint_ucast_byte: "sint (ucast (x :: 8 word) :: i32) = int (unat x)"
proof -
  have "uint x < 2 ^ LENGTH(8)" by (rule uint_lt2p)
  then have "uint x < 256" by simp
  then show ?thesis by (simp add: sint_uint uint_up_ucast is_up signed_take_bit_int_eq_self [of 31 "uint x"] order_trans [OF _ uint_ge_0])
qed

section \<open>Queues\<close>

definition chosen_queues :: "msg_system \<Rightarrow> nat \<Rightarrow> watcher \<Rightarrow> int list \<Rightarrow> int list" where
  "chosen_queues ms myUid w slots =
     concat (map (\<lambda>slot. case msg_slot ms slot of None \<Rightarrow> []
       | Some q \<Rightarrow> if 0 \<le> q_id q \<and> queue_chosen myUid w q then [q_id q] else []) slots)"

lemma clean_slots:
  "snd (fold (clean_slot ms myUid w) slots st) = snd st @ chosen_queues ms myUid w slots"
  by (induction slots arbitrary: st)
    (auto simp: chosen_queues_def clean_slot_def not_less split: option.splits)

section \<open>Properties\<close>

text \<open>
  The queues that runsolver asks to remove are, in the order of their slots, those
  that the user created and, unless all of them are to be removed, that a process of the
  solver was the last to write to or to read from.
\<close>

theorem cleanup_removes_chosen:
  "snd (cleanupIPCMsgQueues ms myUid w) = chosen_queues ms myUid w [0..msg_maxid ms]"
  by (simp add: cleanupIPCMsgQueues_def clean_slots chosen_queues_def)

text \<open>
  MemOut is reported for a limit on virtual size only: a solver that was stopped
  because it reached the limit on memory is not reported as out of memory, however much memory
  it used, and one whose virtual size just reached its limit is not either.
\<close>

theorem memory_limit_not_reported:
  assumes "limitVSize w = 0 \<or> maxVSize w = limitVSize w"
  shows "\<not> memOut (summary_of version raw r w)"
  using assms by (auto simp: summary_of_def Let_def)

definition memory_stop :: "watcher \<Rightarrow> watcher" where
  "memory_stop w = check_limits (w\<lparr>limitVSize := 0, limitMemory := 1024, currentMemory := 4096,
     maxMemory := 4096\<rparr>)"

theorem memory_limit_not_reported_witness:
  "\<forall>w version raw r. stopSolverRequested (memory_stop w) \<and> maxMemory (memory_stop w) = 4096 \<and>
     \<not> memOut (summary_of version raw r (memory_stop w))"
proof (intro allI, goal_cases)
  case (1 w version raw r)
  have "stopSolverRequested (memory_stop w)" "maxMemory (memory_stop w) = 4096" "limitVSize (memory_stop w) = 0"
    by (simp_all add: memory_stop_def check_limits_def stopSolver_def Let_def)
  with memory_limit_not_reported [of "memory_stop w"] show ?case by blast
qed

text \<open>
  The status of a child that called exit is shown with its exit code, whatever the
  code is; and the summary that is saved is always marked as valid.
\<close>

theorem exit_code_shown:
  "status_text (exit_code code) = Inr (''Child status: '' @ dec_nat (unat code) @ endl) \<and>
   es_ok (summary_of version raw r w)"
proof -
  have "sint (exit_status (exit_code code)) = int (unat code)"
    unfolding exit_code_parts by (rule sint_ucast_byte)
  then show ?thesis
    by (simp add: status_text_def was_exited_def exit_code_parts dec_int_def)
      (simp add: es_ok_def summary_of_def es_set_def Let_def)
qed

end
