(* ===== verification/Rooted_Report.thy ===== *)
theory Rooted_Report
  imports Rooted_Sampling Watcher_Summary
begin

text \<open>
  The end of RunSolver::run of runsolver.cc, version 3.3.4-patched: the history of the samples, the
  status of the solver, the times that are reported (those of wait4, unless the samples contradict
  them, and the lost time), the message queues that are deleted, and the file of the option --var.
\<close>

section \<open>The history\<close>

text \<open>
  ProcessHistory.hh is the one of 3.4.0, its trees are those of 3.3.4. A dump touches the entries
  of a tree, which changes no text.
\<close>

definition dump_rooted :: "u64 \<Rightarrow> rooted_tree \<Rightarrow> string option" where
  "dump_rooted ticks t =
     Option.bind (dumpProcessTree_334 ticks t) (\<lambda>(d, t).
     Option.bind (currentVSize_334 t) (\<lambda>(vs, t).
     Option.bind (currentCPUTime_334 ticks t) (\<lambda>((user, system), t).
       Some (d @ cpu_and_vsize (flt (user + system)) (flt (of_int vs))))))"

definition dumpHistory_334 :: "u64 \<Rightarrow> rat \<Rightarrow> rooted_tree history \<Rightarrow> string option" where
  "dumpHistory_334 ticks elapsedLimit h =
     (let dump = (\<lambda>t out. map_option (\<lambda>d. out @ d) (dump_rooted ticks t))
      in Option.bind
        (for_each (\<lambda>cell out.
            if nbitem h ! cell = 0 \<or> rt_elapsed (history h ! (2 * cell)) \<le> elapsedLimit then Some out
            else dump (history h ! (2 * cell)) out)
          (rev [0..<nbcell h]) [])
        (\<lambda>out. if nbitem h ! 0 = 2 then dump (history h ! 1) out else Some out))"

section \<open>The times\<close>

text \<open>Milliseconds: sums of products of long with 1000 and of quotients of long by 1000.0.\<close>

definition whole_ms :: "timeval \<Rightarrow> rat" where
  "whole_ms t = dbl (of_int (tv_sec t * 1000))"

definition part_ms :: "timeval \<Rightarrow> rat" where
  "part_ms t = dbl (dbl (of_int (tv_usec t)) / 1000)"

definition real_ms :: "timeval \<Rightarrow> timeval \<Rightarrow> rat" where
  "real_ms start stop = flt (dbl (dbl (dbl (whole_ms stop + part_ms stop) - whole_ms start) - part_ms start))"

definition time_ms :: "timeval \<Rightarrow> rat" where
  "time_ms t = flt (dbl (whole_ms t + part_ms t))"

definition both_ms :: "rusage \<Rightarrow> rat" where
  "both_ms r = flt (dbl (dbl (dbl (whole_ms (ru_utime r) + part_ms (ru_utime r)) + whole_ms (ru_stime r)) +
     part_ms (ru_stime r)))"

record final_times =
  realtime :: rat
  virtualtime :: rat
  virtualUserTime :: rat
  virtualSystemTime :: rat

text \<open>wait4 is not believed when it gives less than the last sample, or more than a minute more.\<close>

definition below_sample :: "sampler \<Rightarrow> rat \<Rightarrow> bool" where
  "below_sample s vt \<longleftrightarrow> flt (vt / 1000) < sa_currentCPUTime s"

definition doubtful :: "sampler \<Rightarrow> rat \<Rightarrow> bool" where
  "doubtful s vt \<longleftrightarrow> below_sample s vt \<or> flt (sa_currentCPUTime s + 60) < flt (vt / 1000)"

definition wait4_times :: "timeval \<Rightarrow> timeval \<Rightarrow> rusage \<Rightarrow> final_times" where
  "wait4_times start stop r =
     \<lparr>realtime = real_ms start stop, virtualtime = both_ms r, virtualUserTime = time_ms (ru_utime r),
      virtualSystemTime = time_ms (ru_stime r)\<rparr>"

definition sampled_times :: "sampler \<Rightarrow> final_times \<Rightarrow> final_times" where
  "sampled_times s ft =
     (if doubtful s (virtualtime ft) then
        ft\<lparr>virtualtime := flt (sa_currentCPUTime s * 1000), virtualUserTime := flt (sampler.currentUserTime s * 1000),
           virtualSystemTime := flt (sampler.currentSystemTime s * 1000)\<rparr>
      else ft)"

definition with_lost :: "sampler \<Rightarrow> final_times \<Rightarrow> final_times" where
  "with_lost s ft =
     (if lostCPUTime s \<noteq> 0 then
        ft\<lparr>virtualtime := flt (virtualtime ft + flt (lostCPUTime s * 1000)),
           virtualUserTime := flt (virtualUserTime ft + flt (lostUserTime s * 1000)),
           virtualSystemTime := flt (virtualSystemTime ft + flt (lostSystemTime s * 1000))\<rparr>
      else ft)"

definition reported_times :: "sampler \<Rightarrow> timeval \<Rightarrow> timeval \<Rightarrow> rusage \<Rightarrow> final_times" where
  "reported_times s start stop r = with_lost s (sampled_times s (wait4_times start stop r))"

section \<open>The text\<close>

text \<open>\<open>result\<close> is what wait4 returned, with the number and the text of its error.\<close>

definition doubt_text :: "int \<Rightarrow> int \<Rightarrow> string \<Rightarrow> sampler \<Rightarrow> rusage \<Rightarrow> final_times \<Rightarrow> string" where
  "doubt_text wait4result errno errtext s r ft =
     (if doubtful s (virtualtime ft) then
        [newline] @ ''# WARNING:'' @ [newline] @
        ''# CPU time reported by wait4() is probably wrong !'' @ [newline] @
        ''# wait4(...,&childrusage) returns '' @ dec_int wait4result @
        (if wait4result < 0 then '' (errno='' @ dec_int errno @ '', \"'' @ errtext @ ''\")'' else []) @
        '' and gives'' @ [newline] @
        ''#  childrusage.ru_utime.tv_sec='' @ dec_int (tv_sec (ru_utime r)) @ [newline] @
        ''#  childrusage.ru_utime.tv_usec='' @ dec_int (tv_usec (ru_utime r)) @ [newline] @
        ''#  childrusage.ru_stime.tv_sec='' @ dec_int (tv_sec (ru_stime r)) @ [newline] @
        ''#  childrusage.ru_stime.tv_usec='' @ dec_int (tv_usec (ru_stime r)) @ endl @
        ''# CPU time returned by wait4() is '' @ ostream_float (flt (virtualtime ft / 1000)) @ endl @
        ''# while last known CPU time is '' @ ostream_float (sa_currentCPUTime s) @ [newline] @ ''#'' @ [newline] @
        (if below_sample s (virtualtime ft)
         then ''# Solver probably didn't/couldn't wait for its children'' @ endl else []) @
        ''# Using CPU time of the last sample as value...'' @ [newline] @ endl
      else [])"

definition lost_report :: "sampler \<Rightarrow> string" where
  "lost_report s =
     (if lostCPUTime s \<noteq> 0 then
        endl @ ''# WARNING:'' @ endl @
        ''# The CPU time of some children was not reported to their father'' @ [newline] @
        ''# (probably because of a missing or aborted wait()).'' @ endl @
        ''# This 'lost CPU time' is added to the watched process CPU time.'' @ endl @
        ''#  lost CPU time (s): '' @ ostream_float (lostCPUTime s) @ endl @
        ''#  lost CPU user time (s): '' @ ostream_float (lostUserTime s) @ endl @
        ''#  lost CPU system time (s): '' @ ostream_float (lostSystemTime s) @ endl @ endl
      else [])"

definition seconds_text :: "rat \<Rightarrow> string" where
  "seconds_text ms = ostream_float (dbl (ms / 1000))"

definition usage_334 :: "final_times \<Rightarrow> rat" where
  "usage_334 ft = flt (flt (100 * virtualtime ft) / (if realtime ft \<noteq> 0 then realtime ft else 1))"

definition times_text_334 :: "sampler \<Rightarrow> final_times \<Rightarrow> string" where
  "times_text_334 s ft =
     ''Real time (s): '' @ seconds_text (realtime ft) @ endl @
     ''runsolver_walltime: '' @ seconds_text (realtime ft) @ endl @
     ''CPU time (s): '' @ seconds_text (virtualtime ft) @ endl @
     ''runsolver_cputime: '' @ seconds_text (virtualtime ft) @ endl @
     ''CPU user time (s): '' @ seconds_text (virtualUserTime ft) @ endl @
     ''CPU system time (s): '' @ seconds_text (virtualSystemTime ft) @ endl @
     ''CPU usage (%): '' @ ostream_float (usage_334 ft) @ endl @
     ''Max. virtual memory (cumulated for all children) (KiB): '' @ dec_int (sa_maxVSize s) @ endl"

definition var_text_334 :: "sampler \<Rightarrow> final_times \<Rightarrow> string" where
  "var_text_334 s ft =
     ''# WCTIME: wall clock time in seconds'' @ [newline] @ ''WCTIME='' @ seconds_text (realtime ft) @ endl @
     ''# CPUTIME: CPU time in seconds'' @ [newline] @ ''CPUTIME='' @ seconds_text (virtualtime ft) @ endl @
     ''# USERTIME: CPU time spent in user mode in seconds'' @ [newline] @
     ''USERTIME='' @ seconds_text (virtualUserTime ft) @ endl @
     ''# SYSTEMTIME: CPU time spent in system mode in seconds'' @ [newline] @
     ''SYSTEMTIME='' @ seconds_text (virtualSystemTime ft) @ endl @
     ''# CPUUSAGE: CPUTIME/WCTIME in percent'' @ [newline] @ ''CPUUSAGE='' @ ostream_float (usage_334 ft) @ endl @
     ''# MAXVM: maximum virtual memory used in KiB'' @ [newline] @ ''MAXVM='' @ dec_int (sa_maxVSize s) @ endl"

section \<open>Message queues\<close>

definition queue_chosen_334 :: "bool \<Rightarrow> int set \<Rightarrow> nat \<Rightarrow> msg_queue \<Rightarrow> bool" where
  "queue_chosen_334 all procs myUid q \<longleftrightarrow>
     q_cuid q = myUid \<and> (all \<or> q_lspid q \<in> procs \<or> q_lrpid q \<in> procs)"

definition clean_slot_334 ::
  "msg_system \<Rightarrow> (msg_queue \<Rightarrow> bool) \<Rightarrow> int \<Rightarrow> string \<times> int list \<Rightarrow> string \<times> int list" where
  "clean_slot_334 ms chosen slot st =
     (case msg_slot ms slot of
        None \<Rightarrow> st
      | Some q \<Rightarrow>
          if q_id q < 0 \<or> \<not> chosen q then st
          else
            (fst st @ ''deleting IPC queue '' @ dec_int (q_id q) @
               (case msg_remove ms (q_id q) of None \<Rightarrow> [] | Some e \<Rightarrow> '' (failed: '' @ e @ '')'') @ [newline],
             snd st @ [q_id q]))"

definition cleanup_334 :: "msg_system \<Rightarrow> nat \<Rightarrow> bool \<Rightarrow> int set \<Rightarrow> string \<times> int list" where
  "cleanup_334 ms myUid all procs =
     (if msg_maxid ms < 0 then ([newline], [])
      else fold (clean_slot_334 ms (queue_chosen_334 all procs myUid)) [0..msg_maxid ms] ([newline], []))"

section \<open>The report\<close>

text \<open>
  What follows the last SIGKILL. \<open>self\<close> are the resources of runsolver, \<open>kid_usage\<close> those of its
  children, \<open>r\<close> is what wait4 stored. The file of the option --var has its text; it is opened without
  a look at the result.
\<close>

record report_334 =
  rp4_text :: string
  rp4_removed :: "int list"
  rp4_var :: "(string \<times> string) option"

definition self_text :: "rusage \<Rightarrow> string" where
  "self_text r =
     ''runsolver used '' @ ostream_float (time_value (ru_utime r)) @ '' second user time and '' @
     ostream_float (time_value (ru_stime r)) @ '' second system time'' @ [newline] @ endl"

definition final_report_334 ::
  "u64 \<Rightarrow> msg_system \<Rightarrow> nat \<Rightarrow> bool \<Rightarrow> string option \<Rightarrow> rooted_tree history \<Rightarrow> i32 \<Rightarrow> int \<times> int \<times> string \<Rightarrow>
     timeval \<Rightarrow> timeval \<Rightarrow> rusage \<Rightarrow> rusage \<Rightarrow> rusage \<Rightarrow> sampler \<Rightarrow> report_334 run" where
  "final_report_334 ticks ms myUid cleanAll var h childstatus waited start stop r kid_usage self s =
     run_then (lift_option (dumpHistory_334 ticks (sa_lastDisplayedElapsedTime s) h)) (\<lambda>dump.
     run_then (Some (status_text childstatus)) (\<lambda>status.
       let (wait4result, errno, errtext) = waited;
           ft = wait4_times start stop r;
           doubt = doubt_text wait4result errno errtext s r ft;
           ft = with_lost s (sampled_times s ft);
           (cleaned, removed) = (if cleanAll \<or> sa_cleanup s
             then cleanup_334 ms myUid cleanAll (sa_listAllProcesses s) else ([], []))
       in returns \<lparr>rp4_text = endl @ ''Solver just ended. Dumping a history of the last processes samples'' @ endl @
             dump @ endl @ status @ doubt @ lost_report s @ times_text_334 s ft @ cleaned @
             rusage_text kid_usage @ self_text self @ ''The end'' @ endl,
           rp4_removed = removed, rp4_var = map_option (\<lambda>f. (f, var_text_334 s ft)) var\<rparr>))"

section \<open>Properties\<close>


text \<open>The last sample has 5 seconds, a limit, and wait4 reports one second.\<close>

definition one_second :: rusage where
  "one_second = \<lparr>ru_utime = \<lparr>tv_sec = 1, tv_usec = 0\<rparr>, ru_stime = \<lparr>tv_sec = 0, tv_usec = 0\<rparr>, ru_counters = []\<rparr>"


text \<open>
  Without lost time the time of wait4 is reported exactly when it is neither below the last sample
  nor more than a minute above it, and otherwise the sample, in milliseconds.
\<close>

theorem report_source:
  assumes "lostCPUTime s = 0"
  shows "virtualtime (reported_times s start stop r) =
     (if sa_currentCPUTime s \<le> flt (both_ms r / 1000) \<and> flt (both_ms r / 1000) \<le> flt (sa_currentCPUTime s + 60)
      then both_ms r else flt (sa_currentCPUTime s * 1000))"
  using assms by (auto simp: reported_times_def with_lost_def sampled_times_def wait4_times_def doubtful_def below_sample_def)

theorem report_source_witness:
  "virtualtime (reported_times (demo_sampler 1) \<lparr>tv_sec = 100, tv_usec = 0\<rparr> \<lparr>tv_sec = 106, tv_usec = 0\<rparr> one_second) = 1000"
proof -
  have n: "dbl 1000 = 1000" "flt 1000 = 1000" "flt 1 = 1" "flt 61 = 61"
    using fl_of_int [of 1000 53] fl_of_int [of 1000 24] fl_of_int [of 1 24] fl_of_int [of 61 24] by simp_all
  then have "both_ms one_second = 1000" by (simp add: both_ms_def whole_ms_def part_ms_def one_second_def)
  with report_source [of "demo_sampler 1"] n show ?thesis by (simp add: demo_sampler_def)
qed

text \<open>
  Both versions delete the same message queues, with the same text, when they have listed the same
  processes.
\<close>

theorem cleanup_versions_agree:
  "cleanup_334 ms myUid (cleanupAllIPCQueues w) (listAllProcesses w) = cleanupIPCMsgQueues ms myUid w"
proof -
  have "clean_slot_334 ms (queue_chosen_334 (cleanupAllIPCQueues w) (listAllProcesses w) myUid) = clean_slot ms myUid w"
    by (auto simp: fun_eq_iff clean_slot_334_def clean_slot_def queue_chosen_334_def queue_chosen_def split: option.split)
  then show ?thesis by (simp add: cleanup_334_def cleanupIPCMsgQueues_def)
qed

end
