(* ===== verification/Timer_Thread.thy ===== *)
theory Timer_Thread
  imports Watcher Rooted_Sampling Stop_Threads
begin

text \<open>
  timerThread of runsolver.cc, version 3.3.4-patched, with its data: when it wakes up, which turns
  search for new processes, and which turns display the processes. \<open>Stop_Threads\<close> has the same thread
  with the outcome of a sampling as an argument; here it is computed.
\<close>

section \<open>State\<close>

text \<open>
  The local variables, and the object; \<open>tm_now\<close> is the variable \<open>tv\<close>, which has no value before the
  first turn.
\<close>

record timer_state =
  tm_start :: timeval
  tm_now :: timeval
  tm_displayPeriod :: rat
  tm_nextDisplayTime :: rat
  tm_count :: nat
  tm_sampler :: sampler

definition timer_init :: "timeval \<Rightarrow> timeval \<Rightarrow> sampler \<Rightarrow> timer_state" where
  "timer_init start unset s =
     \<lparr>tm_start = start, tm_now = unset, tm_displayPeriod = flt (dbl (1 / 10)), tm_nextDisplayTime = 0,
      tm_count = 0, tm_sampler = s\<rparr>"

text \<open>What does not change: the memory of new objects, the clock ticks, the user, the thresholds.\<close>

record timer_env =
  raw_rooted :: rooted_tree
  raw_entry :: process_data
  te_ticks :: u64
  te_uid :: nat
  te_usage :: rat
  te_heavy :: rat

section \<open>One turn\<close>

text \<open>
  The sleep before a turn, and the turn after it, at time \<open>t\<close>, with the system \<open>os\<close>. The result tells
  whether the loop goes on.
\<close>

definition timer_sleep :: "timer_state \<Rightarrow> int" where
  "timer_sleep st = sleep_time (tm_start st) (tm_now st)"

definition full_turn :: "timer_state \<Rightarrow> bool" where
  "full_turn st \<longleftrightarrow> tm_count st = 10"

definition display_turn :: "timeval \<Rightarrow> timer_state \<Rightarrow> bool" where
  "display_turn t st \<longleftrightarrow> tm_nextDisplayTime st \<le> seconds_since (tm_start st) t"

definition after_display :: "timer_state \<Rightarrow> timer_state" where
  "after_display st = st\<lparr>tm_nextDisplayTime := flt (tm_nextDisplayTime st + tm_displayPeriod st),
     tm_displayPeriod := min (flt (2 * tm_displayPeriod st)) 60\<rparr>"

definition timer_turn ::
  "timer_env \<Rightarrow> timeval \<Rightarrow> 'a proc_system_scheme \<Rightarrow> timer_state \<Rightarrow> (bool \<times> sample_event list \<times> timer_state) run" where
  "timer_turn te t os st =
     (let s = (tm_sampler st)\<lparr>sa_elapsed := seconds_since (tm_start st) t\<rparr> in
      run_then (readProcessData_334 (raw_rooted te) (raw_entry te) os (te_ticks te) (full_turn st) s)
        (\<lambda>(ended, ev, s).
        let st1 = st\<lparr>tm_now := t, tm_count := if full_turn st then 0 else tm_count st + 1, tm_sampler := s\<rparr> in
        if ended then
          returns (False, ev @ [Shown (Print ''Root process has terminated, timer thread aborting'')],
            st\<lparr>tm_now := t, tm_sampler := s\<rparr>)
        else if display_turn t st then
          run_then (displayProcessData_334 os (te_ticks te) (te_uid te) (te_usage te) (te_heavy te) s)
            (\<lambda>(dv, s). returns (True, ev @ dv, after_display (st1\<lparr>tm_sampler := s\<rparr>)))
        else returns (True, ev, st1)))"

text \<open>
  Turns at the given times. For each one that goes on: whether it searched for new processes, whether
  it displayed the processes, and the elapsed time.
\<close>

fun timer_turns ::
  "timer_env \<Rightarrow> (timeval \<times> 'a proc_system_scheme) list \<Rightarrow> timer_state \<Rightarrow>
     ((bool \<times> bool \<times> rat) list \<times> timer_state) run" where
  "timer_turns te [] st = returns ([], st)"
| "timer_turns te ((t, os) # xs) st =
     run_then (timer_turn te t os st) (\<lambda>(goes_on, ev, st').
       if goes_on then
         run_then (timer_turns te xs st') (\<lambda>(l, st'').
           returns ((full_turn st, display_turn t st, seconds_since (tm_start st) t) # l, st''))
       else returns ([], st'))"

section \<open>The schedule\<close>

text \<open>The period after d displays, and the time before which the next one does not happen.\<close>

definition period_after :: "nat \<Rightarrow> rat" where
  "period_after d = min (2 ^ d * flt (dbl (1 / 10))) 60"

fun due_after :: "nat \<Rightarrow> rat" where
  "due_after 0 = 0"
| "due_after (Suc d) = flt (due_after d + period_after d)"

definition on_schedule :: "nat \<Rightarrow> nat \<Rightarrow> timer_state \<Rightarrow> bool" where
  "on_schedule n d st \<longleftrightarrow> tm_count st = n mod 11 \<and> tm_displayPeriod st = period_after d \<and>
     tm_nextDisplayTime st = due_after d"

lemma period_Suc: "min (flt (2 * period_after d)) 60 = period_after (Suc d)"
proof (cases "2 ^ d * flt (dbl (1 / 10)) \<le> 60")
  case True
  have "flt (2 * (2 ^ d * flt (dbl (1 / 10)))) = 2 * (2 ^ d * flt (flt (dbl (1 / 10))))"
    by (simp only: fl_double fl_double_power)
  also have "\<dots> = 2 ^ Suc d * flt (dbl (1 / 10))" by (simp add: fl_fl)
  finally show ?thesis using True by (simp add: period_after_def min_absorb1)
next
  case False
  have "flt 120 = 120" using fl_of_int [of 120 24] by simp
  with False show ?thesis by (simp add: period_after_def)
qed

lemma on_schedule_init: "on_schedule 0 0 (timer_init start unset s)"
proof -
  have "dbl (1 / 10) \<le> dbl (of_int 1)" by (intro fl_mono) simp_all
  also have "\<dots> = of_int 1" by (rule fl_of_int) simp_all
  finally have "flt (dbl (1 / 10)) \<le> flt (of_int 1)" by (intro fl_mono) simp_all
  also have "\<dots> = of_int 1" by (rule fl_of_int) simp_all
  finally show ?thesis by (simp add: on_schedule_def timer_init_def period_after_def)
qed

lemma mod_11_Suc: "Suc n mod 11 = (if n mod 11 = 10 then 0 else Suc (n mod 11))"
  by (simp add: mod_Suc)

lemma on_schedule_turn:
  assumes "on_schedule n d st" and "timer_turn te t os st = returns (True, ev, st')"
  shows "on_schedule (Suc n) (if display_turn t st then Suc d else d) st'" and "tm_start st' = tm_start st"
    and "full_turn st \<longleftrightarrow> n mod 11 = 10" and "display_turn t st \<longleftrightarrow> due_after d \<le> seconds_since (tm_start st) t"
proof -
  show "full_turn st \<longleftrightarrow> n mod 11 = 10" "display_turn t st \<longleftrightarrow> due_after d \<le> seconds_since (tm_start st) t"
    using assms(1) by (simp_all add: full_turn_def display_turn_def on_schedule_def)
  from assms show "on_schedule (Suc n) (if display_turn t st then Suc d else d) st'" "tm_start st' = tm_start st"
    by (auto simp: timer_turn_def run_then_iff Let_def on_schedule_def after_display_def full_turn_def mod_11_Suc
        period_Suc split: if_splits)
qed

lemma timer_turns_schedule:
  assumes "timer_turns te xs st = returns (l, st')" and "on_schedule n d st" and "i < length l"
  shows "i < length xs \<and> snd (snd (l ! i)) = seconds_since (tm_start st) (fst (xs ! i)) \<and>
     (fst (l ! i) \<longleftrightarrow> (n + i) mod 11 = 10) \<and>
     (fst (snd (l ! i)) \<longleftrightarrow> due_after (d + length (filter (fst \<circ> snd) (take i l))) \<le> snd (snd (l ! i)))"
  using assms
proof (induction xs arbitrary: l st n d i)
  case (Cons x xs)
  obtain t os where x: "x = (t, os)" by (cases x)
  from Cons.prems(1,3) obtain ev st1 l1 where turn: "timer_turn te t os st = returns (True, ev, st1)"
    and run: "timer_turns te xs st1 = returns (l1, st')"
    and l: "l = (full_turn st, display_turn t st, seconds_since (tm_start st) t) # l1"
    by (auto simp: x run_then_iff split: if_splits)
  note step = on_schedule_turn [OF Cons.prems(2) turn]
  show ?case
  proof (cases i)
    case 0
    with step show ?thesis by (simp add: l x)
  next
    case (Suc j)
    with Cons.prems(3) have "j < length l1" by (simp add: l)
    from Cons.IH [OF run step(1) this] Suc step(2) show ?thesis
      by (cases "display_turn t st") (auto simp: l x)
  qed
qed simp

section \<open>Properties\<close>

text \<open>
  Property C27: every eleventh turn searches for new processes, the others only update those that are
  known. A turn displays the processes exactly when its elapsed time has reached the schedule, which
  depends only on the number d of displays before: the periods double from 0.1 s on and stay at 60 s,
  as exact floats.
\<close>

theorem timer_schedule:
  assumes "timer_turns te xs (timer_init start unset s) = returns (l, st)" and "i < length l"
  shows "(fst (l ! i) \<longleftrightarrow> i mod 11 = 10) \<and>
     (fst (snd (l ! i)) \<longleftrightarrow>
        due_after (length (filter (fst \<circ> snd) (take i l))) \<le> seconds_since start (fst (xs ! i)))"
  using timer_turns_schedule [OF assms(1) on_schedule_init assms(2)] by (simp add: timer_init_def)

definition demo_env :: timer_env where
  "demo_env = \<lparr>raw_rooted = demo_rooted, raw_entry = garbage demo_system, te_ticks = 100, te_uid = 1000,
     te_usage = 4 / 5, te_heavy = 1 / 10\<rparr>"

lemma whole_seconds:
  assumes "n < 2 ^ 24"
  shows "seconds_since \<lparr>tv_sec = 0, tv_usec = 0\<rparr> \<lparr>tv_sec = int n, tv_usec = 0\<rparr> = of_nat n"
proof -
  have "n < 2 ^ 53" using assms by simp
  with assms show ?thesis by (simp add: seconds_since_def fl_of_nat)
qed

text \<open>The first turn, before the pid of the solver is known.\<close>

definition early_sampler :: sampler where
  "early_sampler = (demo_sampler 0)\<lparr>sa_childpid := 0\<rparr>"

theorem timer_schedule_witness:
  "\<exists>l st. timer_turns demo_env [(\<lparr>tv_sec = 1, tv_usec = 0\<rparr>, blind_system)]
     (timer_init \<lparr>tv_sec = 0, tv_usec = 0\<rparr> \<lparr>tv_sec = 0, tv_usec = 0\<rparr> early_sampler) = returns (l, st) \<and>
     length l = 1 \<and> \<not> fst (l ! 0) \<and> fst (snd (l ! 0))"
proof -
  let ?st = "timer_init \<lparr>tv_sec = 0, tv_usec = 0\<rparr> \<lparr>tv_sec = 0, tv_usec = 0\<rparr> early_sampler"
  have one: "seconds_since \<lparr>tv_sec = 0, tv_usec = 0\<rparr> \<lparr>tv_sec = 1, tv_usec = 0\<rparr> = 1"
    using whole_seconds [of 1] by simp
  obtain d where "dumpProcessTree_334 100 demo_rooted = Some (d, demo_rooted)" using demo_dump by blast
  then obtain l st where run: "timer_turns demo_env [(\<lparr>tv_sec = 1, tv_usec = 0\<rparr>, blind_system)] ?st = returns (l, st)"
    and len: "length l = 1"
    by (auto simp: timer_turn_def timer_init_def readProcessData_334_def early_sampler_def demo_sampler_def
        displayProcessData_334_def show_tree_def demo_env_def one display_turn_def Let_def)
  with timer_schedule [OF run, of 0] one show ?thesis by auto
qed

text \<open>The outcome of a turn, as the protocol of the threads sees it.\<close>

definition sample_of :: "bool \<Rightarrow> timeval \<Rightarrow> timer_state \<Rightarrow> timer_state \<Rightarrow> sample" where
  "sample_of goes_on t st st' =
     (let s = tm_sampler st' in
      \<lparr>root_ended = \<not> goes_on,
       over_cpu = sa_limitCPUTime s \<noteq> 0 \<and> sa_limitCPUTime s \<le> flt (sa_currentCPUTime s + lostCPUTime s),
       over_wall = sa_limitWallClockTime s \<noteq> 0 \<and> sa_limitWallClockTime s \<le> seconds_since (tm_start st) t,
       over_vsize = sa_limitVSize s \<noteq> 0 \<and> sa_limitVSize s \<le> sa_currentVSize s,
       display_due = display_turn t st\<rparr>)"

lemma display_frame:
  assumes "displayProcessData_334 os ticks uid a b s = returns (ev, s')"
  shows "stop_calls ev = []" and "\<exists>e t. s' = s\<lparr>sa_lastDisplayedElapsedTime := e, sa_procTree := t\<rparr>"
  using assms by (auto simp: displayProcessData_334_def run_then_iff Let_def dest!: show_tree_quiet split: if_splits)

lemma stop_calls_check:
  "stop_calls (check_limits_334 s) =
     (if sa_limitCPUTime s \<noteq> 0 \<and> sa_limitCPUTime s \<le> flt (sa_currentCPUTime s + lostCPUTime s)
      then [''Maximum CPU time exceeded: sending SIGTERM then SIGKILL''] else []) @
     (if sa_limitWallClockTime s \<noteq> 0 \<and> sa_limitWallClockTime s \<le> sa_elapsed s
      then [''Maximum wall clock time exceeded: sending SIGTERM then SIGKILL''] else []) @
     (if sa_limitVSize s \<noteq> 0 \<and> sa_limitVSize s \<le> sa_currentVSize s
      then [''Maximum VSize exceeded: sending SIGTERM then SIGKILL''] else [])"
  by (simp add: check_limits_334_def)


text \<open>A turn with a search, in which the limit on the wall clock time of 10 s is exceeded.\<close>

definition late_timer :: timer_state where
  "late_timer = \<lparr>tm_start = \<lparr>tv_sec = 0, tv_usec = 0\<rparr>, tm_now = \<lparr>tv_sec = 11, tv_usec = 0\<rparr>, tm_displayPeriod = 60,
     tm_nextDisplayTime = 100, tm_count = 10, tm_sampler = demo_sampler 0\<rparr>"


end
