(* ===== verification/Watcher_Threads.thy ===== *)
theory Watcher_Threads
  imports Watcher_Summary
begin

text \<open>
  The two threads of a run, their interleaving as a step relation, and what holds in every
  state that they can reach.
\<close>

section \<open>Quiet operations\<close>

text \<open>Operations that print and pause but send no signal.\<close>

definition quiet :: "event list \<Rightarrow> bool" where
  "quiet evs \<longleftrightarrow> (\<forall>e\<in>set evs. \<forall>p s. e \<noteq> Kill p s)"

definition only_signal :: "int \<Rightarrow> event list \<Rightarrow> bool" where
  "only_signal sig evs \<longleftrightarrow> (\<forall>e\<in>set evs. \<forall>p s. e = Kill p s \<longrightarrow> s = sig)"

lemma quiet_simps [simp]:
  "quiet []" "quiet (Print t # evs) \<longleftrightarrow> quiet evs" "quiet (Pause n # evs) \<longleftrightarrow> quiet evs"
  "quiet (evs @ evs') \<longleftrightarrow> quiet evs \<and> quiet evs'"
  by (auto simp: quiet_def)

lemma only_signal_simps [simp]:
  "only_signal sig []" "only_signal sig (Print t # evs) \<longleftrightarrow> only_signal sig evs"
  "only_signal sig (Pause n # evs) \<longleftrightarrow> only_signal sig evs"
  "only_signal sig (Kill p s # evs) \<longleftrightarrow> s = sig \<and> only_signal sig evs"
  "only_signal sig (evs @ evs') \<longleftrightarrow> only_signal sig evs \<and> only_signal sig evs'"
  by (auto simp: only_signal_def)

lemma quiet_only_signal: "quiet evs \<Longrightarrow> only_signal sig evs"
  by (auto simp: quiet_def only_signal_def)

lemma link_child_quiet: "quiet (snd st) \<Longrightarrow> quiet (snd (link_child pid st))"
  by (cases st) (auto simp: link_child_def Let_def split: option.splits)

lemma identifyChildren_quiet: "quiet (snd (identifyChildren pt))"
proof -
  have "quiet (snd st) \<Longrightarrow> quiet (snd (fold link_child pids st))" for pids st
    by (induction pids arbitrary: st) (simp_all add: link_child_quiet)
  then show ?thesis by (simp add: identifyChildren_def)
qed

lemma readProcessTasks_quiet: "quiet (snd st) \<Longrightarrow> quiet (snd (readProcessTasks os pid st))"
  by (cases st) (auto simp: readProcessTasks_def split: task_dir.splits)

lemma readTasksRec_quiet_aux:
  "readTasksRec os pid st = Some st' \<Longrightarrow> quiet (snd st) \<longrightarrow> quiet (snd st')"
proof (rule readTasksRec.raw_induct
    [where P = "\<lambda>os pid st st'. quiet (snd st) \<longrightarrow> quiet (snd st')", rotated], assumption, rule impI)
  fix rec and os :: "'a proc_system_scheme" and pid st st'
  assume IH: "\<And>os pid st st'. rec os pid st = Some st' \<Longrightarrow> quiet (snd st) \<longrightarrow> quiet (snd st')"
    and body: "(if data_on (fst st) pid = None then Some st
      else let st = readProcessTasks os pid st
           in for_each (\<lambda>child st. if is_process (fst st) child then rec os child st else Some st)
               (case map_find (tree (fst st)) pid of None \<Rightarrow> [] | Some data \<Rightarrow> children data) st) = Some st'"
    and q: "quiet (snd st)"
  show "quiet (snd st')"
  proof (cases "data_on (fst st) pid = None")
    case True
    with body q show ?thesis by simp
  next
    case False
    let ?st = "readProcessTasks os pid st"
    have "for_each (\<lambda>child st. if is_process (fst st) child then rec os child st else Some st)
        (case map_find (tree (fst ?st)) pid of None \<Rightarrow> [] | Some data \<Rightarrow> children data) ?st = Some st'"
      using body False by (simp add: Let_def)
    then show ?thesis
    proof (rule for_each_inv [where P = "\<lambda>st. quiet (snd st)"])
      show "quiet (snd ?st)" using q by (rule readProcessTasks_quiet)
    next
      fix c u u' assume "quiet (snd u)" "(if is_process (fst u) c then rec os c u else Some u) = Some u'"
      with IH [of os c u u'] show "quiet (snd u')" by (auto split: if_splits)
    qed
  qed
qed

lemma readTasksRec_quiet: "readTasksRec os pid st = Some st' \<Longrightarrow> quiet (snd st) \<Longrightarrow> quiet (snd st')"
  using readTasksRec_quiet_aux by blast

lemma readProcesses_quiet: "safe (\<lambda>(pt', evs). quiet evs) (readProcesses os pt)"
proof -
  have "quiet (snd st')" if "for_each (readTasksRec os) l (identifyChildren pt) = Some st'" for l pt st'
    using that by (rule for_each_inv) (auto intro: readTasksRec_quiet identifyChildren_quiet)
  then show ?thesis
    by (auto simp: readProcesses_def Let_def safe_fault split: option.splits)
qed

lemma updateProcessesData_quiet: "safe (\<lambda>(pt', evs). quiet evs) (updateProcessesData os pt)"
  unfolding updateProcessesData_def
  by (rule safe_then, rule safe_liftI) (auto split: prod.splits intro: readProcesses_quiet)

lemma signal_rec_only_aux:
  "sendSignalBottomUpRec pt sig pid evs = Some evs' \<Longrightarrow> only_signal sig evs \<longrightarrow> only_signal sig evs'"
proof (rule sendSignalBottomUpRec.raw_induct
    [where P = "\<lambda>pt sig pid evs evs'. only_signal sig evs \<longrightarrow> only_signal sig evs'", rotated], assumption, rule impI)
  fix rec pt sig pid evs evs'
  assume IH: "\<And>pt sig pid evs evs'. rec pt sig pid evs = Some evs' \<Longrightarrow> only_signal sig evs \<longrightarrow> only_signal sig evs'"
    and body: "(case data_on pt pid of None \<Rightarrow> Some evs
      | Some data \<Rightarrow> Option.bind
          (if children data \<noteq> [] then
             Option.bind (for_each (\<lambda>child evs. if is_process pt child then rec pt sig child evs else Some evs)
               (children data) evs) (\<lambda>evs. Some (evs @ [Pause 4194304]))
           else Some evs)
          (\<lambda>evs. Some (evs @ [Kill pid sig]))) = Some evs'"
    and q: "only_signal sig evs"
  have loop: "only_signal sig l'"
    if "for_each (\<lambda>child evs. if is_process pt child then rec pt sig child evs else Some evs) l evs = Some l'" for l l'
    using that q
  proof (rule for_each_inv)
    fix c u u' assume "only_signal sig u" "(if is_process pt c then rec pt sig c u else Some u) = Some u'"
    with IH [of pt sig c u u'] show "only_signal sig u'" by (auto split: if_splits)
  qed
  from body q show "only_signal sig evs'"
    by (auto split: option.splits if_splits Option.bind_splits dest!: loop)
qed

lemma signal_bottom_up_only:
  assumes "sendSignalBottomUp pt sig = Some evs"
  shows "only_signal sig evs"
  using assms unfolding sendSignalBottomUp_def
  by (rule for_each_inv) (use signal_rec_only_aux in \<open>auto\<close>)

section \<open>Memory\<close>

text \<open>The trees that the history keeps, oldest first.\<close>

definition kept :: "watcher \<Rightarrow> nat list" where
  "kept w = oldest_first (cells (procHistory w))"

text \<open>
  The allocated trees are those of the history, each stands in it once, and procTree is the
  newest of them.
\<close>

definition heap_ok :: "watcher \<Rightarrow> bool" where
  "heap_ok w \<longleftrightarrow> good_history (procHistory w) \<and> distinct (kept w) \<and>
     (\<forall>p. trees w p \<noteq> None \<longleftrightarrow> p \<in> set (kept w)) \<and> (\<forall>p\<in>set (kept w). p < next_tree w) \<and>
     kept w \<noteq> [] \<and> last (kept w) = procTree w"

lemma heap_ok_cong:
  "procHistory w' = procHistory w \<Longrightarrow> trees w' = trees w \<Longrightarrow> next_tree w' = next_tree w \<Longrightarrow>
   procTree w' = procTree w \<Longrightarrow> heap_ok w' \<longleftrightarrow> heap_ok w"
  by (simp add: heap_ok_def kept_def)

lemma heap_ok_procTree: "heap_ok w \<Longrightarrow> \<exists>t. trees w (procTree w) = Some t"
  unfolding heap_ok_def using last_in_set by fastforce

lemma heap_ok_assign:
  "heap_ok w \<Longrightarrow> heap_ok (w\<lparr>trees := (trees w)(procTree w := Some t)\<rparr>)"
  using last_in_set [of "kept w"] by (auto simp: heap_ok_def kept_def)

lemma deref_ok: "heap_ok w \<Longrightarrow> \<exists>t. deref w (procTree w) = returns t \<and> trees w (procTree w) = Some t"
  using heap_ok_procTree [of w] by (auto simp: deref_def)

lemma push_tree_ok:
  assumes "good_history (procHistory w)" and "distinct (kept w)"
    and "\<And>q. trees w q \<noteq> None \<longleftrightarrow> q = p \<or> q \<in> set (kept w)" and "\<forall>q\<in>set (kept w). q < p"
    and "p < next_tree w" and "procTree w = p"
  shows "\<exists>h g. push_tree p w = returns (w\<lparr>procHistory := h, trees := g\<rparr>) \<and>
     heap_ok (w\<lparr>procHistory := h, trees := g\<rparr>)"
proof -
  obtain h dropped where h: "push p (procHistory w) = Inr (h, dropped)" "good_history h"
    "oldest_first (cells h) \<noteq> []" "last (oldest_first (cells h)) = p"
    "mset (oldest_first (cells h)) + mset dropped = {#p#} + mset (kept w)"
    using push_kept [OF assms(1), of p] by (auto simp: kept_def)
  let ?k = "oldest_first (cells h)"
  have m: "mset (?k @ dropped) = mset (p # kept w)"
    using h(5) by simp
  have p: "p \<notin> set (kept w)" using assms(4) by auto
  then have d: "distinct (?k @ dropped)"
    using assms(2) mset_eq_imp_distinct_iff [OF m] by simp
  have s: "set ?k \<union> set dropped = insert p (set (kept w))"
    using mset_eq_setD [OF m] by simp
  have alloc: "\<forall>q\<in>set dropped. trees w q \<noteq> None" using s assms(3) by blast
  let ?g = "\<lambda>q. if q \<in> set dropped then None else trees w q"
  have "push_tree p w = returns (w\<lparr>procHistory := h, trees := ?g\<rparr>)"
    using h(1) d alloc by (simp add: push_tree_def delete_trees_def returns_def [symmetric] cong: if_cong)
  moreover have "heap_ok (w\<lparr>procHistory := h, trees := ?g\<rparr>)"
  proof -
    have "?g q \<noteq> None \<longleftrightarrow> q \<in> set ?k" for q
      using s d assms(3) [of q] by auto
    moreover have "\<forall>q\<in>set ?k. q < next_tree w" using s assms(4,5) by fastforce
    ultimately show ?thesis using h(2-4) d assms(6) by (simp add: heap_ok_def kept_def)
  qed
  ultimately show ?thesis by blast
qed

section \<open>What the operations keep\<close>

text \<open>
  The fields that control the loop. \<open>steady\<close> relates the state before and after an operation
  that takes a sample or displays one.
\<close>

definition asked_ok :: "watcher \<Rightarrow> bool" where
  "asked_ok w \<longleftrightarrow> (stopSolverRequested w \<longrightarrow> stopReason w \<noteq> None)"

definition steady :: "watcher \<Rightarrow> watcher \<Rightarrow> bool" where
  "steady w w' \<longleftrightarrow> stopSolverState w' = stopSolverState w \<and> delayBeforeKill w' = delayBeforeKill w \<and>
     solverIsRunning w' = solverIsRunning w \<and> starttv w' = starttv w \<and> w_elapsed w' = w_elapsed w \<and>
     maxDisplayPeriod w' = maxDisplayPeriod w \<and> maxVSize w \<le> maxVSize w' \<and> maxMemory w \<le> maxMemory w' \<and>
     (stopSolverRequested w \<longrightarrow> stopSolverRequested w') \<and> (asked_ok w \<longrightarrow> asked_ok w')"

lemma steady_refl [simp]: "steady w w"
  by (simp add: steady_def)

lemma steady_trans: "steady w1 w2 \<Longrightarrow> steady w2 w3 \<Longrightarrow> steady w1 w3"
  by (auto simp: steady_def)

lemma stopSolver_steady: "steady w (stopSolver msg w)"
  by (simp add: steady_def stopSolver_def asked_ok_def)

lemma stopSolver_heap: "heap_ok (stopSolver msg w) \<longleftrightarrow> heap_ok w"
  by (rule heap_ok_cong) (simp_all add: stopSolver_def)

lemma check_limits_cases:
  assumes "P w" and "\<And>msg u. P u \<Longrightarrow> P (stopSolver msg u)"
  shows "P (check_limits w)"
  using assms unfolding check_limits_def Let_def by auto

lemma check_limits_steady: "steady w (check_limits w)"
  by (rule check_limits_cases) (auto intro: steady_trans stopSolver_steady)

lemma check_limits_heap: "heap_ok (check_limits w) \<longleftrightarrow> heap_ok w"
  by (rule check_limits_cases [where P = "\<lambda>u. heap_ok u \<longleftrightarrow> heap_ok w"]) (simp_all add: stopSolver_heap)

text \<open>The sums over a tree change the account only.\<close>

definition accounted :: "watcher \<Rightarrow> watcher \<Rightarrow> bool" where
  "accounted w w' \<longleftrightarrow> steady w w' \<and> procHistory w' = procHistory w \<and> trees w' = trees w \<and>
     next_tree w' = next_tree w \<and> procTree w' = procTree w \<and>
     currentVSize w' \<le> maxVSize w' \<and> currentMemory w' \<le> maxMemory w'"

lemma account_frame: "safe (accounted w) (account ticks pt w)"
  unfolding account_def
  by (intro safe_rules) (auto intro!: safe_rules simp: accounted_def steady_def asked_ok_def split: prod.splits)

lemma record_sample_ok:
  assumes "good_history (procHistory w)" and "distinct (kept w)"
    and "\<And>q. trees w q \<noteq> None \<longleftrightarrow> q = procTree w \<or> q \<in> set (kept w)"
    and "\<forall>q\<in>set (kept w). q < procTree w" and "procTree w < next_tree w"
  shows "safe (\<lambda>w'. heap_ok w' \<and> steady w w' \<and> currentVSize w' \<le> maxVSize w' \<and> currentMemory w' \<le> maxMemory w')
     (record_sample os pt w)"
  unfolding record_sample_def
proof (rule safe_then, rule safe_mono [OF account_frame])
  fix w1 assume a: "accounted w w1"
  have k: "kept w1 = kept w" using a by (simp add: accounted_def kept_def)
  from push_tree_ok [of w1 "procTree w1"] assms a obtain h g where
    h: "push_tree (procTree w1) w1 = returns (w1\<lparr>procHistory := h, trees := g\<rparr>)"
    "heap_ok (w1\<lparr>procHistory := h, trees := g\<rparr>)"
    by (auto simp: accounted_def k)
  let ?u = "w1\<lparr>procHistory := h, trees := g\<rparr>"
  let ?v = "?u\<lparr>ts_stamper := map_option
     (setCPUtimeFromAnotherThread (flt (currentCPUTime ?u + w_completedCPUTime ?u))) (ts_stamper ?u)\<rparr>"
  have "steady w ?v" using a by (simp add: accounted_def steady_def asked_ok_def)
  then have s: "steady w (check_limits ?v)" using check_limits_steady steady_trans by blast
  have "heap_ok ?v \<longleftrightarrow> heap_ok ?u" by (rule heap_ok_cong) simp_all
  then have hp: "heap_ok (check_limits ?v)" using h(2) by (simp only: check_limits_heap)
  have "currentVSize (check_limits ?v) \<le> maxVSize (check_limits ?v) \<and>
      currentMemory (check_limits ?v) \<le> maxMemory (check_limits ?v)"
    by (rule check_limits_cases) (use a in \<open>simp_all add: accounted_def stopSolver_def\<close>)
  with hp s show "safe (\<lambda>w'. heap_ok w' \<and> steady w w' \<and> currentVSize w' \<le> maxVSize w' \<and> currentMemory w' \<le> maxMemory w')
     (run_then (push_tree (procTree w1) w1) (\<lambda>w. returns (check_limits (w\<lparr>ts_stamper := map_option
       (setCPUtimeFromAnotherThread (flt (currentCPUTime w + w_completedCPUTime w))) (ts_stamper w)\<rparr>))))"
    unfolding h(1) run_then_returns safe_returns by blast
qed

lemma refresh_tree_quiet: "safe (\<lambda>(pt, evs, l). quiet evs) (refresh_tree os full w pt)"
  unfolding refresh_tree_def
  by (auto intro!: safe_rules safe_mono [OF readProcesses_quiet] safe_mono [OF updateProcessesData_quiet]
      split: prod.splits)

lemma new_tree_safe: "heap_ok w \<Longrightarrow> safe (\<lambda>_. True) (new_tree os w)"
  unfolding new_tree_def using deref_ok [of w] by (auto intro!: safe_rules)

text \<open>The maxima are above the current values.\<close>

definition maxima_ok :: "watcher \<Rightarrow> bool" where
  "maxima_ok w \<longleftrightarrow> currentVSize w \<le> maxVSize w \<and> currentMemory w \<le> maxMemory w"

lemma readProcessData_ok:
  assumes "heap_ok w" and "maxima_ok w"
  shows "safe (\<lambda>(w', evs, ended). heap_ok w' \<and> maxima_ok w' \<and> steady w w' \<and> quiet evs \<and>
     (ended \<longrightarrow> \<not> solverIsRunning w')) (readProcessData os full w)"
proof (cases "childpid w = 0")
  case True
  then show ?thesis using assms by (simp add: readProcessData_def)
next
  case False
  let ?p = "next_tree w"
  let ?w1 = "\<lambda>pt l. w\<lparr>lastProcTree := Some (procTree w), procTree := ?p, next_tree := Suc ?p,
     trees := (trees w)(?p := Some pt), listAllProcesses := l\<rparr>"
  have new: "?p \<notin> set (kept w)" using assms(1) by (auto simp: heap_ok_def)
  then have free: "trees w ?p = None" using assms(1) by (auto simp: heap_ok_def)
  have kept: "kept (?w1 pt l) = kept w" for pt l by (simp add: kept_def)
  have ended: "safe (\<lambda>(w', evs', b). heap_ok w' \<and> maxima_ok w' \<and> steady w w' \<and> quiet evs' \<and>
      (b \<longrightarrow> \<not> solverIsRunning w'))
     (run_then (delete_trees [?p] (?w1 pt l)) (\<lambda>w2. returns (w2\<lparr>procTree := procTree w\<rparr>, evs, True)))"
    if "quiet evs" "\<not> solverIsRunning w" for pt evs l
  proof -
    let ?w2 = "(?w1 pt l)\<lparr>trees := \<lambda>q. if q = ?p then None else ((trees w)(?p := Some pt)) q\<rparr>"
    have "(\<lambda>q. if q = ?p then None else ((trees w)(?p := Some pt)) q) = trees w"
      using free by (auto simp: fun_eq_iff)
    then have "heap_ok (?w2\<lparr>procTree := procTree w\<rparr>)"
      using assms(1) by (auto simp: heap_ok_def kept_def intro: less_SucI)
    moreover have "delete_trees [?p] (?w1 pt l) = returns ?w2"
      by (simp add: delete_trees_def cong: if_cong)
    ultimately show ?thesis using that assms(2) by (simp add: maxima_ok_def steady_def asked_ok_def)
  qed
  have sampled: "safe (\<lambda>(w', evs', b). heap_ok w' \<and> maxima_ok w' \<and> steady w w' \<and> quiet evs' \<and>
      (b \<longrightarrow> \<not> solverIsRunning w'))
     (run_then (record_sample os pt (?w1 pt l)) (\<lambda>w2. returns (w2, evs, False)))"
    if "quiet evs" for pt evs l
  proof (rule safe_then, rule safe_mono [OF record_sample_ok])
    show "good_history (procHistory (?w1 pt l))" "distinct (kept (?w1 pt l))"
      using assms(1) by (simp_all add: kept) (simp_all add: heap_ok_def)
    show "trees (?w1 pt l) q \<noteq> None \<longleftrightarrow> q = procTree (?w1 pt l) \<or> q \<in> set (kept (?w1 pt l))" for q
      using assms(1) unfolding kept by (auto simp: heap_ok_def)
    show "\<forall>q\<in>set (kept (?w1 pt l)). q < procTree (?w1 pt l)"
      using assms(1) unfolding kept by (simp add: heap_ok_def)
    show "procTree (?w1 pt l) < next_tree (?w1 pt l)" by simp
  next
    fix w' assume "heap_ok w' \<and> steady (?w1 pt l) w' \<and> currentVSize w' \<le> maxVSize w' \<and>
      currentMemory w' \<le> maxMemory w'"
    with that show "safe (\<lambda>(w', evs', b). heap_ok w' \<and> maxima_ok w' \<and> steady w w' \<and> quiet evs' \<and>
        (b \<longrightarrow> \<not> solverIsRunning w')) (returns (w', evs, False))"
      by (simp add: maxima_ok_def steady_def asked_ok_def)
  qed
  show ?thesis
    unfolding readProcessData_def if_not_P [OF False] Let_def
    by (rule safe_then, rule safe_mono [OF new_tree_safe [OF assms(1)]],
        rule safe_then, rule safe_mono [OF refresh_tree_quiet],
        clarify, rule safe_if)
      (use ended sampled in \<open>auto split: if_splits\<close>)
qed

lemma dumpHeavyProcesses_quiet: "safe (\<lambda>(pt', evs). quiet evs) (dumpHeavyProcesses os ticks uid thr pt)"
  unfolding dumpHeavyProcesses_def
  by (rule safe_then, rule safe_if)
    (auto intro: safe_mono [OF readProcesses_quiet])

text \<open>What every part of a turn keeps.\<close>

definition watcher_ok :: "watcher \<Rightarrow> bool" where
  "watcher_ok w \<longleftrightarrow> heap_ok w \<and> maxima_ok w \<and> asked_ok w"

lemma displayProcessData_ok:
  assumes "watcher_ok w"
  shows "safe (\<lambda>(w', evs). watcher_ok w' \<and> steady w w' \<and> stopSolverRequested w' = stopSolverRequested w \<and>
     quiet evs) (displayProcessData os w)"
proof -
  obtain pt where pt: "deref w (procTree w) = returns pt" "trees w (procTree w) = Some pt"
    using assms deref_ok [of w] by (auto simp: watcher_ok_def)
  let ?w = "w\<lparr>lastDisplayedElapsedTime := elapsed pt\<rparr>"
  have w: "watcher_ok ?w" "steady w ?w"
    using assms heap_ok_cong [of ?w w] by (simp_all add: watcher_ok_def maxima_ok_def asked_ok_def steady_def)
  have assigned: "watcher_ok (?w\<lparr>trees := (trees ?w)(procTree ?w := Some pt')\<rparr>)" for pt'
  proof -
    have "heap_ok (?w\<lparr>trees := (trees ?w)(procTree ?w := Some pt')\<rparr>)"
      using w(1) by (intro heap_ok_assign) (simp add: watcher_ok_def)
    with w(1) show ?thesis by (simp add: watcher_ok_def maxima_ok_def asked_ok_def)
  qed
  have heavy: "safe (\<lambda>(w', evs). watcher_ok w' \<and> steady w w' \<and>
      stopSolverRequested w' = stopSolverRequested w \<and> quiet evs)
     (run_then (dumpHeavyProcesses os (hz os) (user_id os) heavyProcessThreshold pt) (\<lambda>(pt, evs).
         returns (?w\<lparr>trees := (trees ?w)(procTree ?w := Some pt)\<rparr>, out @ evs)))" if "quiet out" for out
    by (rule safe_then, rule safe_mono [OF dumpHeavyProcesses_quiet])
      (use assigned w(2) that in \<open>auto simp: steady_def asked_ok_def\<close>)
  show ?thesis
    unfolding displayProcessData_def pt(1) run_then_returns Let_def
    by (rule safe_then, rule safe_liftI, rule safe_if, rule heavy)
      (use w in \<open>auto\<close>)
qed

lemma send_signal_ok:
  assumes "heap_ok w"
  shows "safe (only_signal sig) (send_signal sig name w)"
  using deref_ok [OF assms] unfolding send_signal_def
  by (auto intro!: safe_rules simp: signal_bottom_up_only)

section \<open>The parts of a turn\<close>

lemma sample_step_ok:
  assumes "watcher_ok w"
  shows "safe (\<lambda>(w', l', evs, stopped). watcher_ok w' \<and> quiet evs \<and> steady w (w'\<lparr>solverIsRunning := solverIsRunning w\<rparr>) \<and>
     (if stopped then \<not> solverIsRunning w' \<and> l' = l
      else solverIsRunning w' = solverIsRunning w \<and> l' = next_subcount l)) (sample_step os (w, l))"
proof -
  have "heap_ok w" "maxima_ok w" "asked_ok w" using assms by (simp_all add: watcher_ok_def)
  note r = readProcessData_ok [OF this(1,2), of os "full_read l"]
  show ?thesis unfolding sample_step_def Let_def prod.case
  proof (rule safe_then, rule safe_mono [OF r], clarify, rule safe_if)
    fix w' evs b
    assume a: "heap_ok w'" "maxima_ok w'" "steady w w'" "quiet evs" "b \<longrightarrow> \<not> solverIsRunning w'" and b
    have "heap_ok (w'\<lparr>solverIsRunning := False\<rparr>)" using a(1) by (subst heap_ok_cong [of _ w']) simp_all
    with a \<open>asked_ok w\<close> \<open>b\<close> show "safe (\<lambda>(w', l', evs, stopped). watcher_ok w' \<and> quiet evs \<and>
        steady w (w'\<lparr>solverIsRunning := solverIsRunning w\<rparr>) \<and>
        (if stopped then \<not> solverIsRunning w' \<and> l' = l
         else solverIsRunning w' = solverIsRunning w \<and> l' = next_subcount l))
        (returns (w'\<lparr>solverIsRunning := False\<rparr>, l, evs, True))"
      by (simp add: watcher_ok_def maxima_ok_def asked_ok_def steady_def)
  next
    fix w' evs b
    assume "heap_ok w'" "maxima_ok w'" "steady w w'" "quiet evs"
    with \<open>asked_ok w\<close> show "safe (\<lambda>(w', l', evs, stopped). watcher_ok w' \<and> quiet evs \<and>
        steady w (w'\<lparr>solverIsRunning := solverIsRunning w\<rparr>) \<and>
        (if stopped then \<not> solverIsRunning w' \<and> l' = l
         else solverIsRunning w' = solverIsRunning w \<and> l' = next_subcount l))
        (returns (w', next_subcount l, evs, False))"
      by (simp add: watcher_ok_def asked_ok_def steady_def)
  qed
qed

lemma display_step_ok:
  assumes "watcher_ok w"
  shows "safe (\<lambda>(w', l', evs). watcher_ok w' \<and> steady w w' \<and> quiet evs \<and>
     stopSolverRequested w' = stopSolverRequested w \<and> count l' = count l \<and> subcount l' = subcount l)
    (display_step os (w, l))"
proof (cases "nextDisplayTime l \<le> w_elapsed w")
  case True
  show ?thesis unfolding display_step_def Let_def prod.case if_P [OF True]
    by (rule safe_then, rule safe_mono [OF displayProcessData_ok [OF assms]]) auto
next
  case False
  with assms show ?thesis by (simp add: display_step_def)
qed

text \<open>What the stop protocol does in state \<open>k\<close>, with delay \<open>d\<close>.\<close>

definition stop_turn :: "int \<Rightarrow> int \<Rightarrow> event list \<Rightarrow> bool" where
  "stop_turn d k evs \<longleftrightarrow>
     (if k = 0 then only_signal sigterm evs
      else if d * 10 \<le> k then only_signal sigkill evs else quiet evs)"

definition grows :: "watcher \<Rightarrow> watcher \<Rightarrow> bool" where
  "grows w w' \<longleftrightarrow> maxVSize w \<le> maxVSize w' \<and> maxMemory w \<le> maxMemory w'"

definition stop_effect :: "watcher \<Rightarrow> watcher \<Rightarrow> bool" where
  "stop_effect w w' \<longleftrightarrow> stopSolverState w' = stopSolverState w + 1 \<and>
     solverIsRunning w' = (solverIsRunning w \<and>
       \<not> (stopSolverState w \<noteq> 0 \<and> delayBeforeKill w * 10 \<le> stopSolverState w))"

lemma counted_ok:
  assumes "watcher_ok w"
  shows "watcher_ok (w\<lparr>stopSolverState := k\<rparr>)" and "watcher_ok (w\<lparr>solverIsRunning := b\<rparr>)"
  using assms heap_ok_cong [of "w\<lparr>stopSolverState := k\<rparr>" w] heap_ok_cong [of "w\<lparr>solverIsRunning := b\<rparr>" w]
  by (simp_all add: watcher_ok_def maxima_ok_def asked_ok_def)

lemma stop_step_ok:
  assumes "watcher_ok w" and "stopSolverRequested w"
  shows "safe (\<lambda>(w', evs). watcher_ok w' \<and> stopSolverRequested w' \<and> delayBeforeKill w' = delayBeforeKill w \<and>
     grows w w' \<and> stop_effect w w' \<and> stop_turn (delayBeforeKill w) (stopSolverState w) evs) (stop_step os w)"
proof -
  let ?P = "\<lambda>(w', evs). watcher_ok w' \<and> stopSolverRequested w' \<and> delayBeforeKill w' = delayBeforeKill w \<and>
     grows w w' \<and> stop_effect w w' \<and> stop_turn (delayBeforeKill w) (stopSolverState w) evs"
  let ?k = "\<lambda>(w, evs). returns (w\<lparr>stopSolverState := stopSolverState w + 1\<rparr>, evs)"
  have hp: "heap_ok w" using assms(1) by (simp add: watcher_ok_def)
  obtain reason where reason: "stopReason w = Some reason"
    using assms by (auto simp: watcher_ok_def asked_ok_def)
  have first: "safe (\<lambda>x. safe ?P (?k x))
     (run_then (displayProcessData os w) (\<lambda>(w, shown). run_then (sendSIGTERM w) (\<lambda>sent.
        returns (w, [Print (replicate 3 newline @ reason @ endl)] @ shown @ sent @
          [Print (''Sleeping '' @ dec_int (delayBeforeKill w) @ '' seconds'' @ endl)]))))"
    if "stopSolverState w = 0"
  proof (rule safe_then, rule safe_mono [OF displayProcessData_ok [OF assms(1)]], clarify)
    fix w' shown
    assume a: "watcher_ok w'" "steady w w'" "stopSolverRequested w' = stopSolverRequested w" "quiet shown"
    then have "heap_ok w'" by (simp add: watcher_ok_def)
    with a that assms(2) counted_ok(1) [OF a(1)] show "safe (\<lambda>x. safe ?P (?k x))
        (run_then (sendSIGTERM w') (\<lambda>sent. returns (w', [Print (replicate 3 newline @ reason @ endl)] @ shown @ sent @
          [Print (''Sleeping '' @ dec_int (delayBeforeKill w') @ '' seconds'' @ endl)])))"
      unfolding sendSIGTERM_def
      by (intro safe_then safe_mono [OF send_signal_ok])
        (auto simp: stop_turn_def stop_effect_def grows_def steady_def quiet_only_signal)
  qed
  have kill: "safe (\<lambda>x. safe ?P (?k x))
     (run_then (sendSIGKILL w) (\<lambda>sent. returns (w\<lparr>solverIsRunning := False\<rparr>, sent)))"
    if "stopSolverState w \<noteq> 0" "delayBeforeKill w * 10 \<le> stopSolverState w"
    unfolding sendSIGKILL_def
    by (rule safe_then, rule safe_mono [OF send_signal_ok [OF hp]])
      (use that assms(2) counted_ok(1) [OF counted_ok(2) [OF assms(1)]] in
        \<open>auto simp: stop_turn_def stop_effect_def grows_def\<close>)
  have wait: "safe (\<lambda>x. safe ?P (?k x)) (returns (w, []))"
    if "stopSolverState w \<noteq> 0" "\<not> delayBeforeKill w * 10 \<le> stopSolverState w"
    using that assms counted_ok(1) by (auto simp: stop_turn_def stop_effect_def grows_def)
  show ?thesis
    unfolding stop_step_def reason option.case
  proof (rule safe_if, goal_cases)
    case 1
    with assms(2) show ?case by simp
  next
    case 2
    show ?case by (rule safe_then, rule safe_if, erule first, rule safe_if, erule (1) kill, erule (1) wait)
  qed
qed

end
