(* ===== verification/Watcher_Runs.thy ===== *)
theory Watcher_Runs
  imports Watcher_Threads
begin

text \<open>
  The interleaving of the two threads as a step relation, what holds in all states that a run
  can reach, and the properties of the watcher.
\<close>

section \<open>A turn\<close>

definition stop_outcome :: "watcher \<Rightarrow> watcher \<Rightarrow> event list \<Rightarrow> bool" where
  "stop_outcome w w' evs \<longleftrightarrow>
     (if stopSolverRequested w' then stop_effect w w' \<and> stop_turn (delayBeforeKill w) (stopSolverState w) evs
      else quiet evs \<and> stopSolverState w' = stopSolverState w \<and> solverIsRunning w' = solverIsRunning w)"

lemma stop_turn_quiet: "quiet evs \<Longrightarrow> stop_turn d k (evs @ evs') \<longleftrightarrow> stop_turn d k evs'"
  by (simp add: stop_turn_def quiet_only_signal)

lemma stop_step_outcome:
  assumes "watcher_ok w"
  shows "safe (\<lambda>(w', evs). watcher_ok w' \<and> (stopSolverRequested w \<longrightarrow> stopSolverRequested w') \<and>
     delayBeforeKill w' = delayBeforeKill w \<and> grows w w' \<and> stop_outcome w w' evs) (stop_step os w)"
proof (cases "stopSolverRequested w")
  case True
  show ?thesis by (rule safe_mono [OF stop_step_ok [OF assms True]]) (auto simp: stop_outcome_def)
next
  case False
  then show ?thesis using assms by (simp add: stop_step_def stop_outcome_def grows_def)
qed

definition turn_outcome :: "watcher \<Rightarrow> loop_vars \<Rightarrow> watcher \<times> loop_vars \<times> event list \<times> bool \<Rightarrow> bool" where
  "turn_outcome w l r \<longleftrightarrow>
     (case r of (w', l', evs, stopped) \<Rightarrow>
        watcher_ok w' \<and> delayBeforeKill w' = delayBeforeKill w \<and> grows w w' \<and>
        (stopSolverRequested w \<longrightarrow> stopSolverRequested w') \<and>
        (if stopped then quiet evs \<and> \<not> solverIsRunning w'
         else count l' = count (next_subcount l) \<and> subcount l' = subcount (next_subcount l) \<and>
           stop_outcome w w' evs))"

lemma turn_clock_ok:
  assumes "watcher_ok w"
  shows "watcher_ok (fst (turn_clock t (w, l)))"
proof -
  have "heap_ok (fst (turn_clock t (w, l))) = heap_ok w" by (rule heap_ok_cong) (simp_all add: turn_clock_def)
  with assms show ?thesis by (simp add: watcher_ok_def maxima_ok_def asked_ok_def turn_clock_def)
qed

lemma full_read_clock: "full_read (snd (turn_clock t (w, l))) = full_read l"
  by (simp add: full_read_def turn_clock_def)

lemma next_subcount_clock:
  "count (next_subcount (snd (turn_clock t (w, l)))) = count (next_subcount l) \<and>
   subcount (next_subcount (snd (turn_clock t (w, l)))) = subcount (next_subcount l)"
  by (simp add: next_subcount_def full_read_clock) (simp add: turn_clock_def)

lemma tick_ok:
  assumes "watcher_ok w"
  shows "safe (turn_outcome w l) (tick os1 os2 os3 t (w, l))"
proof -
  obtain w0 l0 where c: "turn_clock t (w, l) = (w0, l0)" by (cases "turn_clock t (w, l)")
  have w0: "watcher_ok w0" using turn_clock_ok [OF assms, of t l] by (simp add: c)
  have same: "delayBeforeKill w0 = delayBeforeKill w" "stopSolverState w0 = stopSolverState w"
    "stopSolverRequested w0 = stopSolverRequested w" "solverIsRunning w0 = solverIsRunning w"
    "maxVSize w0 = maxVSize w" "maxMemory w0 = maxMemory w"
    using c by (auto simp: turn_clock_def)
  have l0: "count (next_subcount l0) = count (next_subcount l)" "subcount (next_subcount l0) = subcount (next_subcount l)"
    using next_subcount_clock [of t w l] by (simp_all add: c)
  show ?thesis unfolding tick_def c
  proof (rule safe_then, rule safe_mono [OF sample_step_ok [OF w0]], clarify, rule safe_if)
    fix w1 l1 evs1 stopped
    assume "watcher_ok w1" "quiet evs1" "steady w0 (w1\<lparr>solverIsRunning := solverIsRunning w0\<rparr>)" stopped
      "if stopped then \<not> solverIsRunning w1 \<and> l1 = l0
       else solverIsRunning w1 = solverIsRunning w0 \<and> l1 = next_subcount l0"
    then show "safe (turn_outcome w l) (returns (w1, l1, evs1, True))"
      by (simp add: turn_outcome_def steady_def grows_def same)
  next
    fix w1 l1 evs1 stopped
    assume a: "watcher_ok w1" "quiet evs1" "steady w0 (w1\<lparr>solverIsRunning := solverIsRunning w0\<rparr>)"
      "if stopped then \<not> solverIsRunning w1 \<and> l1 = l0
       else solverIsRunning w1 = solverIsRunning w0 \<and> l1 = next_subcount l0" "\<not> stopped"
    show "safe (turn_outcome w l) (run_then (display_step os2 (w1, l1)) (\<lambda>(w, l, evs2).
        run_then (stop_step os3 w) (\<lambda>(w, evs3). returns (w, l, evs1 @ evs2 @ evs3, False))))"
    proof (rule safe_then, rule safe_mono [OF display_step_ok [OF a(1)]], clarify)
      fix w2 evs2 and l2 :: loop_vars
      assume b: "watcher_ok w2" "steady w1 w2" "quiet evs2" "stopSolverRequested w2 = stopSolverRequested w1"
        "count l2 = count l1" "subcount l2 = subcount l1"
      show "safe (turn_outcome w l) (run_then (stop_step os3 w2) (\<lambda>(w, evs3). returns (w, l2, evs1 @ evs2 @ evs3, False)))"
      proof (rule safe_then, rule safe_mono [OF stop_step_outcome [OF b(1)]], clarify)
        fix w3 evs3
        assume d: "watcher_ok w3" "stopSolverRequested w2 \<longrightarrow> stopSolverRequested w3"
          "delayBeforeKill w3 = delayBeforeKill w2" "grows w2 w3" "stop_outcome w2 w3 evs3"
        have "stop_outcome w w3 (evs1 @ evs2 @ evs3)"
          using d(5) a(2-5) b(2,3) stop_turn_quiet [OF a(2)] stop_turn_quiet [OF b(3)]
          by (auto simp: stop_outcome_def stop_effect_def steady_def same split: if_splits)
        with a b d show "safe (turn_outcome w l) (returns (w3, l2, evs1 @ evs2 @ evs3, False))"
          by (auto simp: turn_outcome_def steady_def grows_def same l0)
      qed
    qed
  qed
qed

section \<open>Interleaving\<close>

text \<open>
  The watcher thread stands at the condition of its loop, sleeps, has left the loop, has ended,
  or was ended by an exception. The main thread waits for children until there are none. The
  handler of SIGTERM and SIGINT may run at any time before that. Steps of the two threads do
  not overlap.
\<close>

datatype phase = Guard | Asleep | Leaving | Done | Crashed fault

record config =
  shared :: watcher
  loop :: loop_vars
  watcher_at :: phase
  main_waits :: bool
  childstatus :: i32

datatype label = Sleep int | Turn "event list" | Last "event list" | Report "event list" | Silent

text \<open>The arguments of the rules range over all answers of the system.\<close>

inductive watch_step :: "config \<Rightarrow> label \<Rightarrow> config \<Rightarrow> bool" where
  go_on: "watcher_at c = Guard \<Longrightarrow> solverIsRunning (shared c) \<Longrightarrow>
    watch_step c (Sleep (sleep_time (starttv (shared c)) (now (loop c))))
      (c\<lparr>shared := turn_start (shared c), watcher_at := Asleep\<rparr>)"
| finish: "watcher_at c = Guard \<Longrightarrow> \<not> solverIsRunning (shared c) \<Longrightarrow>
    watch_step c Silent (c\<lparr>watcher_at := Leaving\<rparr>)"
| turn: "watcher_at c = Asleep \<Longrightarrow>
    tick os1 os2 os3 t (shared c, loop c) = returns (w, l, evs, stopped) \<Longrightarrow>
    watch_step c (Turn evs)
      (c\<lparr>shared := w, loop := l, watcher_at := if stopped then Leaving else Guard\<rparr>)"
| turn_crash: "watcher_at c = Asleep \<Longrightarrow> tick os1 os2 os3 t (shared c, loop c) = Some (Inl e) \<Longrightarrow>
    watch_step c Silent (c\<lparr>watcher_at := Crashed e\<rparr>)"
| leave: "watcher_at c = Leaving \<Longrightarrow> watcher_end os = returns evs \<Longrightarrow>
    watch_step c (Last evs) (c\<lparr>watcher_at := Done\<rparr>)"
| leave_crash: "watcher_at c = Leaving \<Longrightarrow> watcher_end os = Some (Inl e) \<Longrightarrow>
    watch_step c Silent (c\<lparr>watcher_at := Crashed e\<rparr>)"
| child_ended: "main_waits c \<Longrightarrow> reap pid r t (shared c) = (w, evs) \<Longrightarrow>
    watch_step c (Report evs) (c\<lparr>shared := w, childstatus := status\<rparr>)"
| no_child: "main_waits c \<Longrightarrow> all_reaped t (shared c) = (w, evs) \<Longrightarrow>
    watch_step c (Report evs) (c\<lparr>shared := w, main_waits := False\<rparr>)"
| handler: "main_waits c \<Longrightarrow>
    watch_step c Silent (c\<lparr>shared := stopSolver ''Received SIGTERM or SIGINT, killing child'' (shared c)\<rparr>)"

inductive_cases turn_stepE: "watch_step c (Turn evs) c'"

inductive watch_run :: "config \<Rightarrow> label list \<Rightarrow> config \<Rightarrow> bool" where
  start: "watch_run c [] c"
| next_step: "watch_run c tr c1 \<Longrightarrow> watch_step c1 a c2 \<Longrightarrow> watch_run c (tr @ [a]) c2"

section \<open>Initial states\<close>

text \<open>A watcher that was constructed and then given its settings.\<close>

inductive configured :: "watcher \<Rightarrow> bool" where
  built: "w_construct os raw = returns w \<Longrightarrow> trees raw = (\<lambda>_. None) \<Longrightarrow> configured w"
| stamper: "configured w \<Longrightarrow> configured (setTimeStamper ts w)"
| reaper: "configured w \<Longrightarrow> configured (setChildReaper b w)"
| own_queues: "configured w \<Longrightarrow> configured (setCleanupSolverOwnIPCQueues b w)"
| all_queues: "configured w \<Longrightarrow> configured (setCleanupAllIPCQueues b w)"
| cpu: "configured w \<Longrightarrow> configured (setCPULimit n w)"
| wall: "configured w \<Longrightarrow> configured (setWallClockLimit n w)"
| virtual: "configured w \<Longrightarrow> configured (setVSizeLimit n w)"
| memory: "configured w \<Longrightarrow> configured (setMemoryLimit n w)"
| var_file: "configured w \<Longrightarrow> configured (setVarOutputFile s w)"
| bin_file: "configured w \<Longrightarrow> configured (setBinVarOutputFile s w)"
| delay: "configured w \<Longrightarrow> configured (setDelayBeforeKill n w)"

text \<open>The state in which watchPID starts the thread, which then reads the time.\<close>

definition watch_begins :: "config \<Rightarrow> bool" where
  "watch_begins c \<longleftrightarrow> (\<exists>os pid t w evs t1. configured w \<and>
     watch_start os pid t w = returns (shared c, evs) \<and> loop c = loop_init t1 \<and>
     watcher_at c = Guard \<and> main_waits c)"

lemmas setting_defs = setTimeStamper_def setChildReaper_def setCleanupSolverOwnIPCQueues_def
  setCleanupAllIPCQueues_def setCPULimit_def setWallClockLimit_def setVSizeLimit_def
  setMemoryLimit_def setVarOutputFile_def setBinVarOutputFile_def setDelayBeforeKill_def

definition idle :: "watcher \<Rightarrow> bool" where
  "idle w \<longleftrightarrow> watcher_ok w \<and> stopSolverState w = 0 \<and> \<not> stopSolverRequested w"

lemma idle_cong:
  assumes "idle w" and "procHistory w' = procHistory w" and "trees w' = trees w"
    and "next_tree w' = next_tree w" and "procTree w' = procTree w"
    and "stopSolverState w' = stopSolverState w" and "stopSolverRequested w' = stopSolverRequested w"
    and "currentVSize w' = currentVSize w" and "maxVSize w' = maxVSize w"
    and "currentMemory w' = currentMemory w" and "maxMemory w' = maxMemory w"
  shows "idle w'"
  using assms heap_ok_cong [of w' w] by (simp add: idle_def watcher_ok_def maxima_ok_def asked_ok_def)

lemma w_init_fields:
  "procHistory (w_init raw) = ph_construct 0 10" "trees (w_init raw) = trees raw"
  "next_tree (w_init raw) = next_tree raw" "stopSolverState (w_init raw) = 0"
  "\<not> stopSolverRequested (w_init raw)" "currentVSize (w_init raw) = 0" "maxVSize (w_init raw) = 0"
  "currentMemory (w_init raw) = 0" "maxMemory (w_init raw) = 0"
  by (simp_all add: w_init_def)

lemma w_construct_idle:
  assumes "trees raw = (\<lambda>_. None)"
  shows "\<exists>w. w_construct os raw = returns w \<and> idle w"
proof -
  define v where "v = w_init raw"
  note v = w_init_fields [of raw, folded v_def]
  define p where "p = next_tree v"
  let ?u = "v\<lparr>procTree := p, next_tree := Suc p, trees := (trees v)(p := Some (pt_construct (raw_tree os)))\<rparr>"
  have k: "kept ?u = []" by (simp add: kept_def v cells_construct oldest_first_def)
  have "\<exists>h g. push_tree p ?u = returns (?u\<lparr>procHistory := h, trees := g\<rparr>) \<and>
      heap_ok (?u\<lparr>procHistory := h, trees := g\<rparr>)"
    by (rule push_tree_ok) (unfold k, use assms v good_construct [of 10 "0 :: nat"] in \<open>auto\<close>)
  then obtain h g where r: "push_tree p ?u = returns (?u\<lparr>procHistory := h, trees := g\<rparr>)"
    "heap_ok (?u\<lparr>procHistory := h, trees := g\<rparr>)" by blast
  have "idle (?u\<lparr>procHistory := h, trees := g\<rparr>)"
    using r(2) v by (simp add: idle_def watcher_ok_def maxima_ok_def asked_ok_def)
  moreover have "w_construct os raw = returns (?u\<lparr>procHistory := h, trees := g\<rparr>)"
    using r(1) by (simp add: w_construct_def v_def p_def Let_def)
  ultimately show ?thesis by blast
qed

lemma configured_idle: "configured w \<Longrightarrow> idle w"
proof (induction rule: configured.induct)
  case (built os raw w)
  then show ?case using w_construct_idle [of raw os] by auto
qed (erule idle_cong; simp add: setting_defs)+

lemma watch_begins_idle:
  assumes "watch_begins c"
  shows "idle (shared c)"
proof -
  from assms obtain os pid t w evs where w: "configured w" "watch_start os pid t w = returns (shared c, evs)"
    unfolding watch_begins_def by blast
  have i: "idle w" using w(1) by (rule configured_idle)
  then obtain pt where pt: "deref w (procTree w) = returns pt"
    using deref_ok [of w] by (auto simp: idle_def watcher_ok_def)
  let ?t = "Some (setElapsedTime 0 (setRunsolverPID (own_pid os) pt))"
  have "heap_ok (w\<lparr>trees := (trees w)(procTree w := ?t)\<rparr>)"
    using i by (intro heap_ok_assign) (simp add: idle_def watcher_ok_def)
  with i have "idle (w\<lparr>trees := (trees w)(procTree w := ?t)\<rparr>)"
    by (simp add: idle_def watcher_ok_def maxima_ok_def asked_ok_def)
  moreover have "shared c = w\<lparr>childpid := pid, solverIsRunning := True, starttv := t,
      trees := (trees w)(procTree w := ?t)\<rparr>"
    using w(2) pt by (auto simp: watch_start_def)
  ultimately show ?thesis by (auto intro: idle_cong)
qed

section \<open>Invariants of a run\<close>

definition turns :: "label list \<Rightarrow> event list list" where
  "turns tr = concat (map (\<lambda>a. case a of Turn evs \<Rightarrow> [evs] | _ \<Rightarrow> []) tr)"

lemma turns_snoc [simp]:
  "turns [] = []" "turns (tr @ [Turn evs]) = turns tr @ [evs]"
  "turns (tr @ [Sleep n]) = turns tr" "turns (tr @ [Last evs]) = turns tr"
  "turns (tr @ [Report evs]) = turns tr" "turns (tr @ [Silent]) = turns tr"
  by (simp_all add: turns_def)

text \<open>
  The three stages of the stop protocol: no signal yet; SIGTERM sent, then k - 1 quiet turns;
  SIGKILL sent after the delay.
\<close>

definition waited :: "int \<Rightarrow> event list list \<Rightarrow> bool" where
  "waited k ts \<longleftrightarrow> (\<exists>before term later. ts = before @ term # later \<and> list_all quiet before \<and>
     only_signal sigterm term \<and> list_all quiet later \<and> int (length later) + 1 = k)"

definition killed :: "int \<Rightarrow> event list list \<Rightarrow> bool" where
  "killed d ts \<longleftrightarrow> (\<exists>before k kill. ts = before @ [kill] \<and> waited k before \<and> only_signal sigkill kill \<and>
     d * 10 \<le> k \<and> k \<le> max 1 (d * 10))"

lemma waited_first: "list_all quiet ts \<Longrightarrow> only_signal sigterm t \<Longrightarrow> waited 1 (ts @ [t])"
  unfolding waited_def by (intro exI [of _ ts] exI [of _ t] exI [of _ "[]"]) simp

lemma waited_next: "waited k ts \<Longrightarrow> quiet t \<Longrightarrow> waited (k + 1) (ts @ [t])"
  unfolding waited_def
proof (elim exE conjE)
  fix before "term" later
  assume a: "quiet t" "ts = before @ term # later" "list_all quiet before" "only_signal sigterm term"
    "list_all quiet later" "int (length later) + 1 = k"
  then show "\<exists>before term later. ts @ [t] = before @ term # later \<and> list_all quiet before \<and>
     only_signal sigterm term \<and> list_all quiet later \<and> int (length later) + 1 = k + 1"
    by (intro exI [of _ before] exI [of _ "term"] exI [of _ "later @ [t]"]) simp
qed

definition stage :: "int \<Rightarrow> config \<Rightarrow> event list list \<Rightarrow> bool" where
  "stage d c ts \<longleftrightarrow>
     (let w = shared c; k = stopSolverState w in
      if watcher_at c \<in> {Guard, Asleep} then
        killed d ts \<and> \<not> solverIsRunning w \<and> watcher_at c = Guard \<or>
        k = 0 \<and> list_all quiet ts \<or>
        1 \<le> k \<and> k \<le> max 1 (d * 10) \<and> waited k ts \<and> stopSolverRequested w
      else killed d ts \<or> list_all quiet ts \<or> (\<exists>k. waited k ts \<and> k \<le> max 1 (d * 10) + 1))"

text \<open>The loop counters tell how many turns there were.\<close>

definition counted :: "config \<Rightarrow> event list list \<Rightarrow> bool" where
  "counted c ts \<longleftrightarrow> (watcher_at c \<in> {Guard, Asleep} \<longrightarrow>
     count (loop c) = int (length ts div 10) \<and> subcount (loop c) = int (length ts mod 10) + 1)"

definition run_inv :: "int \<Rightarrow> config \<Rightarrow> event list list \<Rightarrow> bool" where
  "run_inv d c ts \<longleftrightarrow> watcher_ok (shared c) \<and> delayBeforeKill (shared c) = d \<and> stage d c ts \<and> counted c ts \<and>
     (\<forall>e. watcher_at c \<noteq> Crashed (Undefined e))"

lemma stage_leaves:
  assumes "stage d c ts" and "watcher_at c' \<notin> {Guard, Asleep}"
  shows "stage d c' ts"
proof (cases "watcher_at c \<in> {Guard, Asleep}")
  case True
  then have "killed d ts \<or> list_all quiet ts \<or> (\<exists>k. waited k ts \<and> k \<le> max 1 (d * 10))"
    using assms(1) unfolding stage_def Let_def if_P [OF True] by blast
  then have "killed d ts \<or> list_all quiet ts \<or> (\<exists>k. waited k ts \<and> k \<le> max 1 (d * 10) + 1)"
    by (metis add_increasing2 zero_le_one)
  with assms(2) show ?thesis unfolding stage_def Let_def by simp
next
  case False
  with assms show ?thesis unfolding stage_def Let_def by simp
qed

lemma stage_frame:
  assumes "stage d c ts" and "watcher_at c' = watcher_at c"
    and "stopSolverState (shared c') = stopSolverState (shared c)"
    and "stopSolverRequested (shared c) \<longrightarrow> stopSolverRequested (shared c')"
    and "solverIsRunning (shared c') \<longrightarrow> solverIsRunning (shared c)"
  shows "stage d c' ts"
  using assms unfolding stage_def Let_def by (auto split: if_splits)

lemma next_counted:
  assumes "count l = int (n div 10)" and "subcount l = int (n mod 10) + 1"
  shows "count (next_subcount l) = int (Suc n div 10) \<and> subcount (next_subcount l) = int (Suc n mod 10) + 1"
proof (cases "n mod 10 = 9")
  case True
  then have "Suc n mod 10 = 0" "Suc n div 10 = Suc (n div 10)" by (simp_all add: mod_Suc div_Suc)
  with True assms show ?thesis by (simp add: next_subcount_def full_read_def)
next
  case False
  then have "Suc n mod 10 = Suc (n mod 10)" "Suc n div 10 = n div 10" by (simp_all add: mod_Suc div_Suc)
  with False assms show ?thesis by (simp add: next_subcount_def)
qed

text \<open>One turn that ends normally takes the protocol one stage on.\<close>

lemma stage_turn:
  assumes "stage d c ts" and "watcher_at c = Asleep" and "delayBeforeKill (shared c) = d"
    and "stop_outcome (shared c) w evs" and "stopSolverRequested (shared c) \<longrightarrow> stopSolverRequested w"
  shows "stage d (c\<lparr>shared := w, loop := l, watcher_at := Guard\<rparr>) (ts @ [evs])"
proof -
  let ?k = "stopSolverState (shared c)" and ?c = "c\<lparr>shared := w, loop := l, watcher_at := Guard\<rparr>"
  have stageI: "stage d ?c ts'"
    if "killed d ts' \<and> \<not> solverIsRunning w \<or> stopSolverState w = 0 \<and> list_all quiet ts' \<or>
      1 \<le> stopSolverState w \<and> stopSolverState w \<le> max 1 (d * 10) \<and> waited (stopSolverState w) ts' \<and>
      stopSolverRequested w" for ts'
    using that by (auto simp: stage_def Let_def)
  consider (calm) "?k = 0" "list_all quiet ts"
    | (asked) "1 \<le> ?k" "?k \<le> max 1 (d * 10)" "waited ?k ts" "stopSolverRequested (shared c)"
    using assms(1,2) by (auto simp: stage_def Let_def)
  then show ?thesis
  proof cases
    case calm
    show ?thesis
    proof (cases "stopSolverRequested w")
      case True
      with assms(4) calm have "only_signal sigterm evs" "stopSolverState w = 1"
        by (simp_all add: stop_outcome_def stop_effect_def stop_turn_def)
      with True waited_first [OF calm(2)] show ?thesis by (intro stageI) simp
    next
      case False
      with assms(4) calm show ?thesis by (intro stageI) (simp add: stop_outcome_def)
    qed
  next
    case asked
    then have r: "stopSolverRequested w" using assms(5) by blast
    show ?thesis
    proof (cases "d * 10 \<le> ?k")
      case True
      with assms(3,4) asked r have "only_signal sigkill evs" "\<not> solverIsRunning w"
        by (simp_all add: stop_outcome_def stop_effect_def stop_turn_def)
      moreover from this asked True have "killed d (ts @ [evs])" unfolding killed_def by blast
      ultimately show ?thesis by (intro stageI) simp
    next
      case False
      with assms(3,4) asked r have "quiet evs" "stopSolverState w = ?k + 1"
        by (simp_all add: stop_outcome_def stop_effect_def stop_turn_def)
      with waited_next [OF asked(3)] asked False r show ?thesis by (intro stageI) simp
    qed
  qed
qed

lemma stage_break:
  assumes "stage d c ts" and "watcher_at c = Asleep" and "quiet evs"
  shows "stage d (c\<lparr>shared := w, loop := l, watcher_at := Leaving\<rparr>) (ts @ [evs])"
proof -
  consider "list_all quiet ts" | k where "k \<le> max 1 (d * 10)" "waited k ts"
    using assms(1,2) by (auto simp: stage_def Let_def)
  then have "list_all quiet (ts @ [evs]) \<or> (\<exists>k. waited k (ts @ [evs]) \<and> k \<le> max 1 (d * 10) + 1)"
  proof cases
    case 1
    with assms(3) show ?thesis by simp
  next
    case (2 k)
    then have "waited (k + 1) (ts @ [evs])" "k + 1 \<le> max 1 (d * 10) + 1" using waited_next assms(3) by simp_all
    then show ?thesis by blast
  qed
  then show ?thesis by (auto simp: stage_def Let_def)
qed

lemma watcher_end_safe: "safe (\<lambda>_. True) (watcher_end os)"
  unfolding watcher_end_def
  by (auto intro!: safe_rules safe_mono [OF readProcesses_quiet] split: prod.splits)

lemma reap_frame:
  assumes "reap pid r t w = (w', evs)"
  shows "watcher_ok w' \<longleftrightarrow> watcher_ok w" and "delayBeforeKill w' = delayBeforeKill w"
    and "stopSolverState w' = stopSolverState w" and "stopSolverRequested w' = stopSolverRequested w"
    and "solverIsRunning w' = solverIsRunning w" and "grows w w'"
proof -
  obtain a b c l where w': "w' = w\<lparr>w_completedCPUTime := a, completedUserTime := b, completedSystemTime := c,
      completedChildrenList := l\<rparr>"
    using assms by (auto simp: reap_def Let_def)
  have "heap_ok w' \<longleftrightarrow> heap_ok w" by (rule heap_ok_cong) (simp_all add: w')
  then show "watcher_ok w' \<longleftrightarrow> watcher_ok w" by (simp add: watcher_ok_def maxima_ok_def asked_ok_def w')
qed (use assms in \<open>auto simp: reap_def Let_def grows_def\<close>)

lemma all_reaped_frame:
  assumes "all_reaped t w = (w', evs)"
  shows "watcher_ok w' \<longleftrightarrow> watcher_ok w" and "delayBeforeKill w' = delayBeforeKill w"
    and "stopSolverState w' = stopSolverState w" and "stopSolverRequested w' = stopSolverRequested w"
    and "\<not> solverIsRunning w'" and "grows w w'"
proof -
  have w': "w' = w\<lparr>solverIsRunning := False, stoptv := t\<rparr>" using assms by (simp add: all_reaped_def)
  have "heap_ok w' \<longleftrightarrow> heap_ok w" by (rule heap_ok_cong) (simp_all add: w')
  then show "watcher_ok w' \<longleftrightarrow> watcher_ok w" by (simp add: watcher_ok_def maxima_ok_def asked_ok_def w')
qed (use assms in \<open>auto simp: all_reaped_def grows_def\<close>)

lemma stopSolver_frame:
  "watcher_ok w \<Longrightarrow> watcher_ok (stopSolver msg w)" "delayBeforeKill (stopSolver msg w) = delayBeforeKill w"
  "stopSolverState (stopSolver msg w) = stopSolverState w" "stopSolverRequested (stopSolver msg w)"
  "solverIsRunning (stopSolver msg w) = solverIsRunning w" "grows w (stopSolver msg w)"
  by (simp_all add: watcher_ok_def stopSolver_heap) (simp_all add: stopSolver_def maxima_ok_def asked_ok_def grows_def)

lemma turn_start_frame:
  "watcher_ok w \<Longrightarrow> watcher_ok (turn_start w)" "delayBeforeKill (turn_start w) = delayBeforeKill w"
  "stopSolverState (turn_start w) = stopSolverState w"
  "stopSolverRequested w \<Longrightarrow> stopSolverRequested (turn_start w)"
  "solverIsRunning (turn_start w) = solverIsRunning w" "grows w (turn_start w)"
  by (simp_all add: turn_start_def stopSolver_frame grows_def) (simp_all add: stopSolver_def)

lemma stage_asleep:
  assumes "stage d c ts" and "watcher_at c = Guard" and "solverIsRunning (shared c)"
  shows "stage d (c\<lparr>watcher_at := Asleep\<rparr>) ts"
  using assms by (simp add: stage_def Let_def)

lemma step_inv:
  assumes "watch_step c a c'" and "run_inv d c (turns tr)"
  shows "run_inv d c' (turns (tr @ [a]))"
  using assms
proof (cases rule: watch_step.cases)
  case go_on
  have "stage d c' (turns tr)"
  proof -
    have "stage d (c\<lparr>shared := turn_start (shared c)\<rparr>) (turns tr)"
      by (rule stage_frame [of d c]) (use assms(2) in \<open>auto simp: run_inv_def turn_start_frame\<close>)
    from stage_asleep [OF this] show ?thesis using go_on by (simp add: turn_start_frame)
  qed
  with go_on assms(2) show ?thesis by (simp add: run_inv_def counted_def turn_start_frame)
next
  case finish
  with assms(2) stage_leaves [of d c "turns tr" c'] show ?thesis by (simp add: run_inv_def counted_def)
next
  case (turn os1 os2 os3 t w l evs stopped)
  have "turn_outcome (shared c) (loop c) (w, l, evs, stopped)"
    using safe_value [OF tick_ok turn(4)] assms(2) by (simp add: run_inv_def)
  then have o: "watcher_ok w" "delayBeforeKill w = d" "stopSolverRequested (shared c) \<longrightarrow> stopSolverRequested w"
    "if stopped then quiet evs \<and> \<not> solverIsRunning w
     else count l = count (next_subcount (loop c)) \<and> subcount l = subcount (next_subcount (loop c)) \<and>
       stop_outcome (shared c) w evs"
    using assms(2) by (auto simp: turn_outcome_def run_inv_def)
  have i: "stage d c (turns tr)" "counted c (turns tr)" "delayBeforeKill (shared c) = d"
    using assms(2) by (simp_all add: run_inv_def)
  show ?thesis
  proof (cases stopped)
    case True
    with o turn stage_break [OF i(1)] show ?thesis by (simp add: run_inv_def counted_def)
  next
    case False
    with o turn have "stage d c' (turns tr @ [evs])" using stage_turn [OF i(1)] i(3) by simp
    moreover have "counted c' (turns tr @ [evs])"
      using i(2) turn False o(4) next_counted [of "loop c" "length (turns tr)"] by (simp add: counted_def)
    ultimately show ?thesis using turn False o(1,2) by (simp add: run_inv_def)
  qed
next
  case (turn_crash os1 os2 os3 t e)
  have "safe (turn_outcome (shared c) (loop c)) (Some (Inl e))"
    using tick_ok [of "shared c" "loop c" os1 os2 os3 t] turn_crash(4) assms(2) by (simp add: run_inv_def)
  with turn_crash assms(2) stage_leaves [of d c "turns tr" c'] show ?thesis
    by (simp add: run_inv_def counted_def safe_fault)
next
  case (leave os evs)
  with assms(2) stage_leaves [of d c "turns tr" c'] show ?thesis by (simp add: run_inv_def counted_def)
next
  case (leave_crash os e)
  with watcher_end_safe [of os] assms(2) stage_leaves [of d c "turns tr" c'] show ?thesis
    by (simp add: run_inv_def counted_def safe_fault)
next
  case (child_ended pid r t w evs status)
  note f = reap_frame [OF child_ended(4)]
  have "stage d c' (turns tr)"
    by (rule stage_frame [of d c]) (use assms(2) child_ended f in \<open>simp_all add: run_inv_def\<close>)
  with child_ended assms(2) f show ?thesis by (simp add: run_inv_def counted_def)
next
  case (no_child t w evs)
  note f = all_reaped_frame [OF no_child(4)]
  have "stage d c' (turns tr)"
    by (rule stage_frame [of d c]) (use assms(2) no_child f in \<open>simp_all add: run_inv_def\<close>)
  with no_child assms(2) f show ?thesis by (simp add: run_inv_def counted_def)
next
  case handler
  have "stage d c' (turns tr)"
    by (rule stage_frame [of d c]) (use assms(2) handler in \<open>simp_all add: run_inv_def stopSolver_frame\<close>)
  with handler assms(2) show ?thesis by (simp add: run_inv_def counted_def stopSolver_frame)
qed

lemma begin_inv: "watch_begins c \<Longrightarrow> run_inv (delayBeforeKill (shared c)) c (turns [])"
proof -
  assume b: "watch_begins c"
  from watch_begins_idle [OF b] have "watcher_ok (shared c)" "stopSolverState (shared c) = 0"
    by (simp_all add: idle_def)
  moreover from b have "watcher_at c = Guard" "count (loop c) = 0" "subcount (loop c) = 1"
    unfolding watch_begins_def by (auto simp: loop_init_def)
  ultimately show ?thesis by (simp add: run_inv_def stage_def counted_def)
qed

lemma run_inv: "watch_run c0 tr c \<Longrightarrow> watch_begins c0 \<Longrightarrow> run_inv (delayBeforeKill (shared c0)) c (turns tr)"
  proof (induction rule: watch_run.induct)
  case (start c)
  then show ?case by (rule begin_inv)
next
  case (next_step c tr c1 a c2)
  then show ?case using step_inv by blast
qed

lemma grows_refl [simp]: "grows w w"
  by (simp add: grows_def)

lemma grows_trans: "grows w1 w2 \<Longrightarrow> grows w2 w3 \<Longrightarrow> grows w1 w3"
  by (auto simp: grows_def)

lemma step_grows:
  assumes "watch_step c a c'" and "watcher_ok (shared c)"
  shows "grows (shared c) (shared c')"
  using assms(1)
proof cases
  case (turn os1 os2 os3 t w l evs stopped)
  have "turn_outcome (shared c) (loop c) (w, l, evs, stopped)"
    using safe_value [OF tick_ok turn(4)] assms(2) by simp
  with turn show ?thesis by (simp add: turn_outcome_def)
qed (simp_all add: turn_start_frame stopSolver_frame reap_frame all_reaped_frame)

lemma run_grows:
  assumes "watch_run c tr c'" and "run_inv d c (turns tr0)"
  shows "grows (shared c) (shared c') \<and> run_inv d c' (turns (tr0 @ tr))"
  using assms
proof (induction rule: watch_run.induct)
  case (start c)
  then show ?case by simp
next
  case (next_step c tr c1 a c2)
  then have "grows (shared c) (shared c1)" "run_inv d c1 (turns (tr0 @ tr))" by simp_all
  with next_step(2) step_inv [of c1 a c2 d "tr0 @ tr"] step_grows [OF next_step(2)] grows_trans
  show ?case by (auto simp: run_inv_def)
qed

lemma waited_kill_split:
  assumes "waited k ts" and "k \<le> max 1 (d * 10) + 1"
  shows "\<exists>before term pause kill. ts = before @ term # pause @ kill \<and> list_all quiet (before @ pause) \<and>
     only_signal sigterm term \<and> int (length pause) \<le> max 1 (d * 10) \<and>
     (kill = [] \<or> (\<exists>e. kill = [e] \<and> only_signal sigkill e \<and> d * 10 \<le> int (length pause) + 1))"
proof -
  obtain before "term" later where "ts = before @ term # later" "list_all quiet before"
    "only_signal sigterm term" "list_all quiet later" "int (length later) + 1 = k"
    using assms(1) unfolding waited_def by blast
  with assms(2) show ?thesis
    by (intro exI [of _ before] exI [of _ "term"] exI [of _ later] exI [of _ "[]"]) simp
qed

lemma killed_split:
  assumes "killed d ts"
  shows "\<exists>before term pause kill. ts = before @ term # pause @ kill \<and> list_all quiet (before @ pause) \<and>
     only_signal sigterm term \<and> int (length pause) \<le> max 1 (d * 10) \<and>
     (kill = [] \<or> (\<exists>e. kill = [e] \<and> only_signal sigkill e \<and> d * 10 \<le> int (length pause) + 1))"
proof -
  obtain before "term" later kill where "ts = before @ term # later @ [kill]" "list_all quiet before"
    "only_signal sigterm term" "list_all quiet later" "only_signal sigkill kill"
    "d * 10 \<le> int (length later) + 1" "int (length later) + 1 \<le> max 1 (d * 10)"
    using assms unfolding killed_def waited_def by auto
  then show ?thesis
    by (intro exI [of _ before] exI [of _ "term"] exI [of _ later] exI [of _ "[kill]"]) simp
qed

lemma stage_summary:
  "stage d c ts \<Longrightarrow> killed d ts \<or> list_all quiet ts \<or> (\<exists>k. waited k ts \<and> k \<le> max 1 (d * 10) + 1)"
  by (drule stage_leaves [of d c ts "c\<lparr>watcher_at := Done\<rparr>"]) (simp_all add: stage_def Let_def)

section \<open>A run to apply the properties to\<close>

definition demo_os :: watch_system where
  "demo_os = proc_system.extend demo_system (watch_system.fields demo_tree 100 1000 1000 1)"

definition demo_raw :: watcher where
  "demo_raw = \<lparr>hasChildReaper = False, varOutputFilename = None, binVarOutputFilename = None,
     childpid = 0, solverIsRunning = False, abortChild = False, limitCPUTime = 0,
     limitWallClockTime = 0, limitVSize = 0, limitMemory = 0, maxDisplayPeriod = 0,
     starttv = \<lparr>tv_sec = 0, tv_usec = 0\<rparr>, stoptv = \<lparr>tv_sec = 0, tv_usec = 0\<rparr>, w_elapsed = 0,
     lastDisplayedElapsedTime = 0, stopSolverRequested = False, stopReason = None,
     stopSolverState = 0, trees = (\<lambda>_. None), next_tree = 1, procTree = 0, lastProcTree = None,
     procHistory = ph_construct 0 10, listAllProcesses = {}, delayBeforeKill = 0, maxVSize = 0,
     maxMemory = 0, currentCPUTime = 0, currentSystemTime = 0, currentUserTime = 0,
     w_completedCPUTime = 0, completedUserTime = 0, completedSystemTime = 0,
     completedChildrenList = [], currentVSize = 0, lastVSize = 0, currentMemory = 0, lastMemory = 0,
     cleanupSolverOwnIPCQueues = False, cleanupAllIPCQueues = False, ts_stamper = None\<rparr>"

text \<open>Runsolver receives SIGTERM, and the watcher thread falls asleep.\<close>

lemma demo_run:
  "\<exists>c0 c. watch_begins c0 \<and> delayBeforeKill (shared c0) = 5 \<and>
     watch_run c0 [Silent, Sleep 100000000] c \<and> watcher_at c = Asleep \<and> stopSolverRequested (shared c)"
proof -
  obtain w where w: "w_construct demo_os demo_raw = returns w" "idle w"
    using w_construct_idle [of demo_raw demo_os] by (auto simp: demo_raw_def)
  let ?w = "setDelayBeforeKill 5 w" and ?t = "\<lparr>tv_sec = 100, tv_usec = 0\<rparr>"
  have cf: "configured ?w" using w(1) by (intro configured.delay configured.built) (auto simp: demo_raw_def)
  then have "idle ?w" by (rule configured_idle)
  then obtain pt where pt: "deref ?w (procTree ?w) = returns pt"
    using deref_ok [of ?w] by (auto simp: idle_def watcher_ok_def)
  then obtain w1 evs where w1: "watch_start demo_os 42 ?t ?w = returns (w1, evs)" "solverIsRunning w1"
    "starttv w1 = ?t" "delayBeforeKill w1 = 5"
    by (auto simp: watch_start_def setDelayBeforeKill_def)
  let ?c0 = "\<lparr>shared = w1, loop = loop_init ?t, watcher_at = Guard, main_waits = True, childstatus = 0\<rparr>"
  have "watch_begins ?c0" unfolding watch_begins_def using cf w1(1)
    by (intro exI [of _ demo_os] exI [of _ 42] exI [of _ ?t] exI [of _ ?w] exI [of _ evs] exI [of _ ?t]) simp
  let ?c1 = "?c0\<lparr>shared := stopSolver ''Received SIGTERM or SIGINT, killing child'' w1\<rparr>"
  let ?c2 = "?c1\<lparr>shared := turn_start (shared ?c1), watcher_at := Asleep\<rparr>"
  have "watch_step ?c0 Silent ?c1" using watch_step.handler [of ?c0] by simp
  moreover have "watch_step ?c1 (Sleep 100000000) ?c2"
    using watch_step.go_on [of ?c1] w1(2,3)
    by (simp add: stopSolver_frame sleep_time_def c_rem_def loop_init_def) (simp add: stopSolver_def)
  ultimately have "watch_run ?c0 (([] @ [Silent]) @ [Sleep 100000000]) ?c2"
    by (blast intro: watch_run.intros)
  moreover have "stopSolverRequested (shared ?c2)" by (simp add: turn_start_frame stopSolver_frame)
  ultimately show ?thesis using \<open>watch_begins ?c0\<close> w1(4)
    by (intro exI [of _ ?c0] exI [of _ ?c2]) simp
qed

section \<open>Properties\<close>



text \<open>
  Property C3: the watcher never uses a process tree after its deletion, never deletes one
  twice and loses none: in every state that a run can reach, the allocated trees are exactly
  those of the history, each of them once, procTree is the newest of them, no thread was ended
  by undefined behaviour, and the history can be dumped at the end.
\<close>

theorem watcher_memory_safe:
  assumes "watch_begins c0" and "watch_run c0 tr c"
  shows "heap_ok (shared c) \<and> (\<forall>e. watcher_at c \<noteq> Crashed (Undefined e)) \<and>
     (\<forall>e. dump_history os (shared c) \<noteq> Some (Inl (Undefined e)))"
proof -
  have i: "heap_ok (shared c)" "\<forall>e. watcher_at c \<noteq> Crashed (Undefined e)"
    using run_inv [OF assms(2,1)] by (simp_all add: run_inv_def watcher_ok_def)
  have "set (concat (cells (procHistory (shared c)))) = set (kept (shared c))"
    by (auto simp: kept_def oldest_first_def)
  with i(1) have "\<forall>p\<in>set (concat (cells (procHistory (shared c)))). trees (shared c) p \<noteq> None"
    by (simp only: heap_ok_def) blast
  then have "safe (\<lambda>_. True) (dump_history os (shared c))" by (simp add: dump_history_def)
  with i show ?thesis by auto
qed

theorem watcher_memory_safe_witness:
  "\<exists>c0 c. watch_run c0 [Silent, Sleep 100000000] c \<and> heap_ok (shared c)"
  using demo_run watcher_memory_safe by blast

text \<open>
  Property C16: in every state of a run the recorded maxima are at least the current virtual
  size and memory, and they never decrease in what follows.
\<close>

theorem recorded_maxima:
  assumes "watch_begins c0" and "watch_run c0 tr c" and "watch_run c tr' c'"
  shows "currentVSize (shared c) \<le> maxVSize (shared c) \<and> currentMemory (shared c) \<le> maxMemory (shared c) \<and>
     maxVSize (shared c) \<le> maxVSize (shared c') \<and> maxMemory (shared c) \<le> maxMemory (shared c')"
proof -
  have i: "run_inv (delayBeforeKill (shared c0)) c (turns tr)" using run_inv [OF assms(2,1)] .
  from run_grows [OF assms(3) i] i show ?thesis
    by (simp add: run_inv_def watcher_ok_def maxima_ok_def grows_def)
qed

theorem recorded_maxima_witness:
  "\<exists>c0 c. watch_run c0 [Silent, Sleep 100000000] c \<and> currentVSize (shared c) \<le> maxVSize (shared c)"
  using demo_run recorded_maxima watch_run.start by blast

text \<open>
  Property C28: the watcher reads the list of all processes in its first five turns, and then in
  every tenth turn; in the others it updates the processes it knows.
\<close>

theorem sampling_schedule:
  assumes "watch_begins c0" and "watch_run c0 tr c" and "watcher_at c = Asleep"
  shows "full_read (loop c) \<longleftrightarrow> length (turns tr) < 5 \<or> length (turns tr) mod 10 = 9"
proof -
  let ?n = "length (turns tr)"
  have c: "count (loop c) = int (?n div 10)" "subcount (loop c) = int (?n mod 10) + 1"
    using run_inv [OF assms(2,1)] assms(3) by (simp_all add: run_inv_def counted_def)
  have "full_read (loop c) \<longleftrightarrow> ?n mod 10 = 9 \<or> ?n div 10 = 0 \<and> ?n mod 10 < 5"
    unfolding full_read_def c by linarith
  also have "?n div 10 = 0 \<and> ?n mod 10 < 5 \<longleftrightarrow> ?n < 5" by (auto simp: div_eq_0_iff)
  finally show ?thesis by blast
qed

theorem sampling_schedule_witness:
  "\<exists>c0 c. watch_run c0 [Silent, Sleep 100000000] c \<and> full_read (loop c)"
proof -
  obtain c0 c where c: "watch_begins c0" "watch_run c0 [Silent, Sleep 100000000] c" "watcher_at c = Asleep"
    using demo_run by blast
  from sampling_schedule [OF this] have "full_read (loop c)" by (simp add: turns_def)
  with c show ?thesis by blast
qed

text \<open>
  The sleep of a turn is positive and at most a tenth of a second, and it ends at
  a whole number of tenths of a second after the start of the solver.
\<close>

theorem sleep_aligned:
  assumes "valid_time start" and "valid_time t"
  shows "0 < sleep_time start t \<and> sleep_time start t \<le> 100000000 \<and>
     (microseconds t + sleep_time start t div 1000 - microseconds start) mod 100000 = 0"
proof -
  let ?d = "tv_usec t - tv_usec start + 1000000"
  have d: "0 \<le> ?d" using assms by (simp add: valid_time_def)
  then have s: "sleep_time start t = 100000000 - ?d mod 100000 * 1000"
    by (simp add: sleep_time_def c_rem_def)
  then have "sleep_time start t = (100000 - ?d mod 100000) * 1000" by simp
  then have "sleep_time start t div 1000 = 100000 - ?d mod 100000" by simp
  moreover have "microseconds t - microseconds start = (10 * (tv_sec t - tv_sec start) - 10) * 100000 + ?d"
    by (simp add: microseconds_def algebra_simps)
  ultimately have e: "microseconds t + sleep_time start t div 1000 - microseconds start =
      (10 * (tv_sec t - tv_sec start) - 9) * 100000 + (?d - ?d mod 100000)" by simp
  have "(microseconds t + sleep_time start t div 1000 - microseconds start) mod 100000 = 0"
    unfolding e by (subst mod_mult_self3) (simp add: minus_mod_eq_mult_div)
  with s pos_mod_bound [of 100000 ?d] pos_mod_sign [of 100000 ?d] show ?thesis by simp
qed

theorem sleep_aligned_witness:
  "sleep_time \<lparr>tv_sec = 5, tv_usec = 250000\<rparr> \<lparr>tv_sec = 7, tv_usec = 163000\<rparr> = 87000000 \<and>
   0 < sleep_time \<lparr>tv_sec = 5, tv_usec = 250000\<rparr> \<lparr>tv_sec = 7, tv_usec = 163000\<rparr>"
  using sleep_aligned [of "\<lparr>tv_sec = 5, tv_usec = 250000\<rparr>" "\<lparr>tv_sec = 7, tv_usec = 163000\<rparr>"]
  by (simp add: valid_time_def sleep_time_def c_rem_def)

text \<open>The limits that a sample exceeds, in the order in which they are looked at.\<close>

definition exceeded :: "watcher \<Rightarrow> string list" where
  "exceeded w =
     (if limitCPUTime w \<noteq> 0 \<and> limitCPUTime w \<le> flt (currentCPUTime w + w_completedCPUTime w)
      then [''Maximum CPU time exceeded: sending SIGTERM then SIGKILL''] else []) @
     (if limitWallClockTime w \<noteq> 0 \<and> limitWallClockTime w \<le> w_elapsed w
      then [''Maximum wall clock time exceeded: sending SIGTERM then SIGKILL''] else []) @
     (if limitVSize w \<noteq> 0 \<and> limitVSize w \<le> currentVSize w
      then [''Maximum VSize exceeded: sending SIGTERM then SIGKILL''] else []) @
     (if limitMemory w \<noteq> 0 \<and> limitMemory w \<le> currentMemory w
      then [''Maximum memory exceeded: sending SIGTERM then SIGKILL''] else [])"

definition request :: "string list \<Rightarrow> watcher \<Rightarrow> watcher" where
  "request msgs w = (if msgs = [] then w else stopSolver (last msgs) w)"

lemma request_fields [simp]:
  "limitCPUTime (request ms w) = limitCPUTime w" "limitWallClockTime (request ms w) = limitWallClockTime w"
  "limitVSize (request ms w) = limitVSize w" "limitMemory (request ms w) = limitMemory w"
  "currentCPUTime (request ms w) = currentCPUTime w" "w_completedCPUTime (request ms w) = w_completedCPUTime w"
  "w_elapsed (request ms w) = w_elapsed w" "currentVSize (request ms w) = currentVSize w"
  "currentMemory (request ms w) = currentMemory w"
  by (simp_all add: request_def stopSolver_def)

lemma request_more:
  "(if b then stopSolver m (request ms w) else request ms w) = request (ms @ (if b then [m] else [])) w"
  by (simp add: request_def stopSolver_def)


end
