(* ===== verification/Resource_Limits.thy ===== *)
theory Resource_Limits
  imports Printing
begin

text \<open>
  The class RunSolver::Limit of runsolver.cc and the limits derived from it: how a limit is
  shown, enforced with setrlimit and read back.
\<close>

unbundle bit_operations_syntax

section \<open>The resource limits of the kernel\<close>

text \<open>
  The soft and hard limits in force, the resources for which getrlimit fails, the calls for
  which setrlimit fails, and what perror has written.
\<close>

record rlimit =
  rlim_cur :: u64
  rlim_max :: u64

record rlimit_system =
  in_force :: "int \<Rightarrow> rlimit"
  get_fails :: "int \<Rightarrow> bool"
  set_fails :: "int \<Rightarrow> rlimit \<Rightarrow> bool"
  messages :: "string list"

definition perror :: "string \<Rightarrow> rlimit_system \<Rightarrow> rlimit_system" where
  "perror s os = os\<lparr>messages := messages os @ [s]\<rparr>"

definition rlimit_fsize :: int where "rlimit_fsize = 1"
definition rlimit_cpu :: int where "rlimit_cpu = 0"
definition rlimit_stack :: int where "rlimit_stack = 3"
definition rlimit_nofile :: int where "rlimit_nofile = 7"
definition rlimit_as :: int where "rlimit_as = 9"

section \<open>Limits\<close>

record limit =
  resource :: int
  limit_value :: u64
  l_name :: string
  l_unit :: string
  l_scale :: nat

text \<open>The constructor of the base class; \<open>raw\<close> is the memory of the object.\<close>

definition base_limit :: "limit \<Rightarrow> int \<Rightarrow> limit" where
  "base_limit raw res = raw\<lparr>resource := res, l_scale := 0\<rparr>"

definition setLimit :: "u64 \<Rightarrow> limit \<Rightarrow> limit" where
  "setLimit rl l = l\<lparr>limit_value := rl\<rparr>"

definition limit_output :: "limit \<Rightarrow> string" where
  "limit_output l = ''Enforcing '' @ l_name l @ '': '' @ dec_nat (unat (limit_value l)) @ '' '' @ l_unit l @ endl"

definition enforceLimit :: "limit \<Rightarrow> rlimit_system \<Rightarrow> rlimit_system" where
  "enforceLimit l os =
     (if resource l < 0 then os
      else if get_fails os (resource l) then perror ''getrlimit failed'' os
      else
        let rl = (in_force os (resource l))\<lparr>rlim_cur := push_bit (l_scale l) (limit_value l)\<rparr>
        in if set_fails os (resource l) rl then perror ''setrlimit failed'' os
           else os\<lparr>in_force := (in_force os)(resource l := rl)\<rparr>)"

definition getEnforcedLimit :: "limit \<Rightarrow> rlimit_system \<Rightarrow> u64 \<times> rlimit_system" where
  "getEnforcedLimit l os =
     (if resource l < 0 then (limit_value l, os)
      else if get_fails os (resource l) then (- 1, perror ''getrlimit failed'' os)
      else (drop_bit (l_scale l) (rlim_cur (in_force os (resource l))), os))"

definition outputEnforcedLimit :: "limit \<Rightarrow> rlimit_system \<Rightarrow> string \<times> rlimit_system" where
  "outputEnforcedLimit l os =
     (let (v, os) = getEnforcedLimit l os
      in (''Current '' @ l_name l @ '': '' @ dec_nat (unat v) @ '' '' @ l_unit l @ endl, os))"

section \<open>The derived classes\<close>

definition SoftVSIZELimit :: "limit \<Rightarrow> u64 \<Rightarrow> limit" where
  "SoftVSIZELimit raw v = setLimit v ((base_limit raw (- 1))\<lparr>
     l_name := ''VSIZE limit (soft limit, will send SIGTERM then SIGKILL)'', l_unit := ''KiB'', l_scale := 10\<rparr>)"

definition HardVSIZELimit :: "limit \<Rightarrow> u64 \<Rightarrow> limit" where
  "HardVSIZELimit raw v = setLimit v ((base_limit raw rlimit_as)\<lparr>
     l_name := ''VSIZE limit (hard limit, stack expansion will fail with SIGSEGV, brk() and mmap() will return ENOMEM)'',
     l_unit := ''KiB'', l_scale := 10\<rparr>)"

definition MemoryLimit :: "limit \<Rightarrow> u64 \<Rightarrow> limit" where
  "MemoryLimit raw v = setLimit v ((base_limit raw (- 1))\<lparr>
     l_name := ''RSS+Swap limit (soft limit, will send SIGTERM then SIGKILL)'', l_unit := ''KiB'', l_scale := 10\<rparr>)"

definition SoftCPULimit :: "limit \<Rightarrow> u64 \<Rightarrow> limit" where
  "SoftCPULimit raw v = setLimit v ((base_limit raw (- 1))\<lparr>
     l_name := ''CPUTime limit (soft limit, will send SIGTERM then SIGKILL)'', l_unit := ''seconds''\<rparr>)"

definition WallClockLimit :: "limit \<Rightarrow> u64 \<Rightarrow> limit" where
  "WallClockLimit raw v = setLimit v ((base_limit raw (- 1))\<lparr>
     l_name := ''wall clock limit (soft limit, will send SIGTERM then SIGKILL)'', l_unit := ''seconds''\<rparr>)"

definition HardCPULimit :: "limit \<Rightarrow> u64 \<Rightarrow> limit" where
  "HardCPULimit raw v = setLimit v ((base_limit raw rlimit_cpu)\<lparr>
     l_name := ''CPUTime limit (hard limit, will send SIGXCPU)'', l_unit := ''seconds''\<rparr>)"

definition FileSizeLimit :: "limit \<Rightarrow> u64 \<Rightarrow> limit" where
  "FileSizeLimit raw v = setLimit v ((base_limit raw rlimit_fsize)\<lparr>
     l_name := ''FSIZE limit'', l_unit := ''KiB'', l_scale := 10\<rparr>)"

definition NumberOfFilesLimit :: "limit \<Rightarrow> u64 \<Rightarrow> limit" where
  "NumberOfFilesLimit raw v = setLimit v ((base_limit raw rlimit_nofile)\<lparr>
     l_name := ''NbFILES limit'', l_unit := ''files''\<rparr>)"

text \<open>The first constructor of StackSizeLimit sets no value.\<close>

definition StackSizeLimit_unset :: "limit \<Rightarrow> limit" where
  "StackSizeLimit_unset raw = (base_limit raw rlimit_stack)\<lparr>
     l_name := ''StackSize limit'', l_unit := ''KiB'', l_scale := 10\<rparr>"

definition StackSizeLimit :: "limit \<Rightarrow> u64 \<Rightarrow> limit" where
  "StackSizeLimit raw v = setLimit v ((base_limit raw rlimit_stack)\<lparr>
     l_name := ''Stack size limit'', l_unit := ''KiB'', l_scale := 10\<rparr>)"

section \<open>Properties\<close>

lemma drop_push_bit:
  fixes w :: u64
  assumes "unat w < 2 ^ (64 - n)" and "n \<le> 64"
  shows "drop_bit n (push_bit n w) = w"
proof -
  have "unat (take_bit (64 - n) w) = unat w"
    using assms(1) by (simp add: unsigned_take_bit_eq take_bit_nat_eq_self)
  then have w: "take_bit (64 - n) w = w" by (rule unsigned_word_eqI)
  have "k < 64 - n" if "bit w k" for k
    using that by (subst (asm) w [symmetric]) (simp add: bit_take_bit_iff)
  then show ?thesis using assms(2) by (auto intro!: bit_word_eqI simp: bit_simps) force
qed

text \<open>
  Property C30: a limit that the kernel accepts is read back as it was given, unless its value
  in bytes does not fit 64 bits; the limits of other resources stay; a limit without a resource
  is read back without asking the kernel.
\<close>

theorem limit_round_trip:
  assumes "l_scale l \<le> 64" and "unat (limit_value l) < 2 ^ (64 - l_scale l)"
    and "\<not> get_fails os (resource l)" and "\<And>rl. \<not> set_fails os (resource l) rl"
  shows "fst (getEnforcedLimit l (enforceLimit l os)) = limit_value l \<and>
     messages (enforceLimit l os) = messages os \<and>
     (\<forall>r. r \<noteq> resource l \<longrightarrow> in_force (enforceLimit l os) r = in_force os r) \<and>
     rlim_max (in_force (enforceLimit l os) (resource l)) = rlim_max (in_force os (resource l))"
  using assms drop_push_bit [OF assms(2,1)]
  by (simp add: enforceLimit_def getEnforcedLimit_def Let_def)

definition demo_limits :: rlimit_system where
  "demo_limits = \<lparr>in_force = \<lambda>_. \<lparr>rlim_cur = - 1, rlim_max = - 1\<rparr>, get_fails = \<lambda>_. False,
     set_fails = \<lambda>_ _. False, messages = []\<rparr>"

theorem limit_round_trip_witness:
  "\<forall>raw. fst (getEnforcedLimit (StackSizeLimit raw 8192) (enforceLimit (StackSizeLimit raw 8192) demo_limits)) = 8192"
proof
  fix raw
  show "fst (getEnforcedLimit (StackSizeLimit raw 8192) (enforceLimit (StackSizeLimit raw 8192) demo_limits)) = 8192"
    using limit_round_trip [of "StackSizeLimit raw 8192" demo_limits]
    by (simp add: StackSizeLimit_def setLimit_def demo_limits_def)
qed

end
