(* ===== verification/Core_Selection.thy ===== *)
theory Core_Selection
  imports Cores
begin

text \<open>
  RunSolver::selectCores of runsolver.cc: the reader of a core list such as 0-1,5,7, and that
  it reads what printAllocatedCores writes.
\<close>

section \<open>The reader\<close>

lemma run_then_cong [fundef_cong]:
  "m = m' \<Longrightarrow> (\<And>x. m' = returns x \<Longrightarrow> k x = k' x) \<Longrightarrow> run_then m k = run_then m' k'"
  by (cases "(m', k')" rule: run_then.cases) (auto simp: returns_def)

lemma in_peek_rest: "rest (snd (in_peek i)) = rest i"
  by (simp add: in_peek_def split: list.splits)

lemma in_get_shorter: "fst (in_peek i) = Some c \<Longrightarrow> length (rest (snd (in_get i))) < length (rest i)"
  by (auto simp: in_peek_def in_get_def split: if_splits list.splits)

text \<open>\<open>while (isspace(d.peek())) d.get();\<close>\<close>

function skip_blanks :: "istream \<Rightarrow> istream" where
  "skip_blanks d =
     (case in_peek d of
        (None, d') \<Rightarrow> d'
      | (Some c, d') \<Rightarrow> if isspace c then skip_blanks (snd (in_get d')) else d')"
  by pat_completeness auto
termination
  by (relation "measure (length \<circ> rest)") (auto simp: in_peek_def in_get_def split: if_splits list.splits)

declare skip_blanks.simps [simp del]

text \<open>
  The cores of a range that exist, in order. The loop runs while i <= b on a size_t: it does
  not end when b is the largest value.
\<close>

definition core_range :: "nat list \<Rightarrow> nat \<Rightarrow> nat \<Rightarrow> nat list run" where
  "core_range available a b =
     (let (a, b) = (if b < a then (b, a) else (a, b))
      in if b = 2 ^ 64 - 1 then None
         else returns (map (\<lambda>i. available ! i) (filter (\<lambda>i. i < length available) [a..<b + 1])))"

text \<open>One number or range; exit(1) follows the help on the syntax.\<close>

definition core_item :: "nat list \<Rightarrow> istream \<Rightarrow> (nat list \<times> istream) run" where
  "core_item available d =
     (let (a, d) = in_unsigned 64 0 d in
      if failbit d then Some (Inl (Exit 1))
      else
        let d = skip_blanks d; (p, d) = in_peek d in
        if p = Some (CHR ''-'') then
          let d = snd (in_get d); (b, d) = in_unsigned 64 0 d in
          if failbit d then Some (Inl (Exit 1))
          else run_then (core_range available a b) (\<lambda>l. returns (l, d))
        else if a < length available then returns ([available ! a], d)
        else Some (Inl (Undefined ''availableCores[a]'')))"

lemma skip_blanks_le: "length (rest (skip_blanks d)) \<le> length (rest d)"
proof (induction d rule: skip_blanks.induct)
  case (1 d)
  show ?case
  proof (cases "in_peek d")
    case (Pair p d')
    have r: "rest d' = rest d" using in_peek_rest [of d] Pair by simp
    show ?thesis
    proof (cases p)
      case None
      with Pair r show ?thesis by (simp add: skip_blanks.simps [of d])
    next
      case (Some c)
      show ?thesis
      proof (cases "isspace c")
        case True
        then have "skip_blanks d = skip_blanks (snd (in_get d'))"
          using Pair Some by (simp add: skip_blanks.simps [of d])
        moreover have "length (rest (skip_blanks (snd (in_get d')))) \<le> length (rest (snd (in_get d')))"
          using "1.IH" Pair Some True by simp
        ultimately show ?thesis using in_get_le [of d'] r by simp
      next
        case False
        with Pair Some r show ?thesis by (simp add: skip_blanks.simps [of d])
      qed
    qed
  qed
qed

lemma core_item_le: "core_item available d = returns (l, d') \<Longrightarrow> length (rest d') \<le> length (rest d)"
proof -
  assume c: "core_item available d = returns (l, d')"
  obtain a d1 where d1: "in_unsigned 64 0 d = (a, d1)" by (cases "in_unsigned 64 0 d")
  obtain p d2 where d2: "in_peek (skip_blanks d1) = (p, d2)" by (cases "in_peek (skip_blanks d1)")
  have le: "length (rest d2) \<le> length (rest d)"
    using in_unsigned_le [of 64 0 d] d1 skip_blanks_le [of d1] in_peek_rest [of "skip_blanks d1"] d2 by simp
  have "length (rest (snd (in_unsigned 64 0 (snd (in_get d2))))) \<le> length (rest d2)"
    using in_unsigned_le in_get_le by (rule le_trans)
  with c d1 d2 le show ?thesis
    by (auto simp: core_item_def return_iff split: if_splits prod.splits)
qed

text \<open>The loop over the items; a character other than a comma must not follow.\<close>

function core_loop :: "nat list \<Rightarrow> istream \<Rightarrow> nat list \<Rightarrow> nat list run" where
  "core_loop available d selected =
     run_then (core_item available d) (\<lambda>x.
       let p = in_peek (snd x) in
       if fst p = Some (CHR '','') then core_loop available (snd (in_get (snd p))) (selected @ fst x)
       else if fst p = None then returns (selected @ fst x)
       else Some (Inl (Exit 1)))"
  by pat_completeness auto
termination
proof (relation "measure (\<lambda>(available, d, selected). length (rest d))", goal_cases)
  case (2 available d selected x p)
  then have "length (rest (snd x)) \<le> length (rest d)" using core_item_le [of available d "fst x" "snd x"] by simp
  moreover have "fst (in_peek (snd p)) = Some (CHR '','')"
    using 2 by (auto simp: in_peek_def split: if_splits list.splits)
  ultimately show ?case using in_get_shorter [of "snd p"] in_peek_rest [of "snd x"] 2 by simp
qed simp

declare core_loop.simps [simp del]

text \<open>The new affinity of the process, and so of the solver.\<close>

definition selectCores :: "topology \<Rightarrow> string \<Rightarrow> bool \<Rightarrow> cpu_set run" where
  "selectCores sysfs desc physicalView =
     run_then (Some (getExistingCores sysfs physicalView)) (\<lambda>available.
     run_then (core_loop available (open_stream desc) []) (\<lambda>selected.
       returns (affinityMask selected)))"

section \<open>Reading what the printer writes\<close>

lemma in_unsigned_dec_nat:
  assumes "n < 2 ^ 64" and "no_digit_first r"
  shows "in_unsigned 64 old (open_stream (dec_nat n @ r)) = (n, (open_stream r)\<lparr>eofbit := (r = [])\<rparr>)"
proof -
  have "dropWhile isspace (dec_nat n @ r) = dec_nat n @ r"
    by (intro dropWhile_space_digit hd_dec_nat) simp
  then have "sentry (open_stream (dec_nat n @ r)) = (open_stream (dec_nat n @ r), True)"
    by (simp add: sentry_def) (simp add: open_stream_def)
  then show ?thesis using assms hd_dec_nat(2,3) [of n]
    by (simp add: in_unsigned_def takeWhile_dec_nat Let_def) (simp add: open_stream_def)
qed

lemma peek_open: "in_peek (open_stream (c # r)) = (Some c, open_stream (c # r))"
  by (simp add: in_peek_def)

lemma get_open: "in_get (open_stream (c # r)) = (Some c, open_stream r)"
  by (simp add: in_get_def) (simp add: open_stream_def)

text \<open>The stream after an item: at a comma, or used up.\<close>

definition after_item :: "string \<Rightarrow> istream" where
  "after_item r = (if r = [] then (open_stream [])\<lparr>eofbit := True\<rparr> else open_stream r)"

lemma after_item_end [simp]: "in_peek (after_item []) = (None, (after_item [])\<lparr>failbit := True\<rparr>)"
  by (simp add: after_item_def in_peek_def good_def)

lemma after_item_comma [simp]: "after_item (CHR '','' # r) = open_stream (CHR '','' # r)"
  by (simp add: after_item_def)

lemma skip_blanks_open: "\<not> isspace c \<Longrightarrow> skip_blanks (open_stream (c # r)) = open_stream (c # r)"
  by (simp add: skip_blanks.simps [of "open_stream (c # r)"] peek_open)

lemma comma_tail: "no_digit_first (CHR '','' # r)" "\<not> isspace (CHR '','')" "\<not> isspace (CHR ''-'')" "no_digit_first (CHR ''-'' # r)"
  by (simp_all add: no_digit_first_def isdigit_def isspace_def)

lemma after_number: "(open_stream r)\<lparr>eofbit := (r = [])\<rparr> = after_item r"
  by (cases "r = []") (simp_all add: after_item_def open_stream_def)

lemma failbit_after_item [simp]: "\<not> failbit (after_item r)"
  by (simp add: after_item_def open_stream_def)

lemma failbit_open [simp]: "\<not> failbit (open_stream r)"
  by (simp add: open_stream_def)

text \<open>What core_loop sees: an item, and then a comma or nothing.\<close>

definition item_tail :: "string \<Rightarrow> bool" where
  "item_tail r \<longleftrightarrow> r = [] \<or> (\<exists>r'. r = CHR '','' # r')"

lemma item_tail_no_digit: "item_tail r \<Longrightarrow> no_digit_first r"
  by (auto simp: item_tail_def comma_tail) (simp add: no_digit_first_def)

lemma single_item:
  assumes "n < length available" and "n < 2 ^ 64" and "item_tail r"
  shows "\<exists>d. core_item available (open_stream (dec_nat n @ r)) = returns ([available ! n], d) \<and>
     in_peek d = in_peek (after_item r) \<or> core_item available (open_stream (dec_nat n @ r)) = returns ([available ! n], d) \<and>
     r = [] \<and> fst (in_peek d) = None"
proof -
  note u = in_unsigned_dec_nat [OF assms(2) item_tail_no_digit [OF assms(3)], unfolded after_number]
  consider "r = []" | r' where "r = CHR '','' # r'" using assms(3) by (auto simp: item_tail_def)
  then show ?thesis
  proof cases
    case 1
    have "skip_blanks (after_item []) = (after_item [])\<lparr>failbit := True\<rparr>"
      by (simp add: skip_blanks.simps [of "after_item []"])
    then have "core_item available (open_stream (dec_nat n @ r)) =
        returns ([available ! n], (after_item [])\<lparr>failbit := True\<rparr>)"
      using assms(1) u 1 by (simp add: core_item_def in_peek_def good_def)
    moreover have "fst (in_peek ((after_item [])\<lparr>failbit := True\<rparr>)) = None"
      by (simp add: in_peek_def good_def)
    ultimately show ?thesis using 1 by blast
  next
    case 2
    then have "core_item available (open_stream (dec_nat n @ r)) = returns ([available ! n], open_stream r)"
      using assms(1) u by (simp add: core_item_def skip_blanks_open comma_tail peek_open)
    with 2 show ?thesis by auto
  qed
qed

lemma item_of_range:
  assumes "a < 2 ^ 64" and "b < 2 ^ 64" and "item_tail r"
  shows "core_item available (open_stream (dec_nat a @ CHR ''-'' # dec_nat b @ r)) =
     run_then (core_range available a b) (\<lambda>l. returns (l, after_item r))"
proof -
  have 1: "in_unsigned 64 0 (open_stream (dec_nat a @ CHR ''-'' # dec_nat b @ r)) =
      (a, open_stream (CHR ''-'' # dec_nat b @ r))"
    using in_unsigned_dec_nat [OF assms(1) comma_tail(4), of 0 "dec_nat b @ r"]
    by simp (simp add: open_stream_def)
  have 2: "in_unsigned 64 0 (open_stream (dec_nat b @ r)) = (b, after_item r)"
    using in_unsigned_dec_nat [OF assms(2) item_tail_no_digit [OF assms(3)], of 0] by (simp add: after_number)
  from 1 2 show ?thesis
    by (simp add: core_item_def skip_blanks_open comma_tail peek_open get_open)
qed

lemma range_item:
  assumes "a \<le> b" and "b < 2 ^ 64 - 1" and "item_tail r"
  shows "core_item available (open_stream (dec_nat a @ CHR ''-'' # dec_nat b @ r)) =
     returns (map (\<lambda>i. available ! i) (filter (\<lambda>i. i < length available) [a..<Suc b]), after_item r)"
  using item_of_range [of a b r available] assms by (simp add: core_range_def)

lemma run_of_segment:
  "run_of x xs = (e, ys) \<Longrightarrow> x \<le> e \<and> x # xs = [x..<Suc e] @ ys"
proof (induction x xs arbitrary: e ys rule: run_of.induct)
  case (1 x)
  then show ?case by simp
next
  case (2 prev x xs)
  show ?case
  proof (cases "x = prev + 1")
    case True
    with 2 have "x \<le> e" "x # xs = [x..<Suc e] @ ys" by auto
    with True show ?thesis by (simp add: upt_rec [of prev])
  next
    case False
    with 2 show ?thesis by auto
  qed
qed

lemma print_runs_tail: "item_tail (print_runs False l)"
  by (cases l) (auto simp: item_tail_def split: prod.splits)

lemma print_runs_nonempty: "l \<noteq> [] \<Longrightarrow> \<exists>t. print_runs False l = CHR '','' # t \<and> print_runs True l = t"
  by (cases l) (auto split: prod.splits)

lemma core_loop_printed:
  assumes "l \<noteq> []" and "\<forall>c\<in>set l. c < length available" and "length available < 2 ^ 64"
  shows "core_loop available (open_stream (print_runs True l)) sel =
     returns (sel @ map (\<lambda>c. available ! c) l)"
  using assms(1,2)
proof (induction "length l" arbitrary: l sel rule: less_induct)
  case less
  from less.prems(1) obtain x xs where l: "l = x # xs" by (cases l) auto
  obtain e ys where run: "run_of x xs = (e, ys)" by (cases "run_of x xs")
  note seg = run_of_segment [OF run]
  have in_l: "set (x # xs) = {x..e} \<union> set ys" using seg by (metis atLeastLessThanSuc_atLeastAtMost set_append set_upt)
  then have bounds: "e < length available" "x < length available" "\<forall>c\<in>set ys. c < length available"
    using less.prems(2) l seg by auto
  let ?r = "print_runs False ys"
  have printed: "print_runs True l = (if e = x then dec_nat x else dec_nat x @ ''-'' @ dec_nat e) @ ?r"
    using l run by simp
  have parsed: "\<exists>d. core_item available (open_stream (print_runs True l)) = returns (map (\<lambda>c. available ! c) [x..<Suc e], d) \<and>
      (if ?r = [] then fst (in_peek d) = None else in_peek d = in_peek (after_item ?r))"
  proof (cases "e = x")
    case True
    have "x < 2 ^ 64" using bounds(2) assms(3) by simp
    from single_item [OF bounds(2) this print_runs_tail [of ys]] printed True show ?thesis by force
  next
    case False
    then have "x \<le> e" "e < 2 ^ 64 - 1" using seg bounds assms(3) by auto
    from range_item [OF this print_runs_tail [of ys], of available] printed False bounds
    have "core_item available (open_stream (print_runs True l)) =
        returns (map (\<lambda>c. available ! c) [x..<Suc e], after_item ?r)"
      by (simp add: filter_id_conv [THEN iffD2])
    then show ?thesis by auto
  qed
  then obtain d where d: "core_item available (open_stream (print_runs True l)) = returns (map (\<lambda>c. available ! c) [x..<Suc e], d)"
    "if ?r = [] then fst (in_peek d) = None else in_peek d = in_peek (after_item ?r)" by blast
  show ?case
  proof (cases "ys = []")
    case True
    then have "fst (in_peek d) = None" using d(2) by simp
    with True d(1) l seg show ?thesis by (simp add: core_loop.simps [of _ "open_stream _"])
  next
    case False
    then obtain t where t: "?r = CHR '','' # t" "print_runs True ys = t" using print_runs_nonempty by blast
    then have p: "in_peek d = (Some (CHR '',''), open_stream ?r)" using d(2) by (simp add: peek_open)
    have "length ys < length l" using l run_of_length [of x xs] run by simp
    with less.hyps [of ys] False bounds(3)
    have "core_loop available (open_stream t) (sel @ map (\<lambda>c. available ! c) [x..<Suc e]) =
        returns ((sel @ map (\<lambda>c. available ! c) [x..<Suc e]) @ map (\<lambda>c. available ! c) ys)"
      using t(2) by simp
    moreover have "map (\<lambda>c. available ! c) l = map (\<lambda>c. available ! c) [x..<Suc e] @ map (\<lambda>c. available ! c) ys"
      using l seg by (metis map_append)
    ultimately show ?thesis
      using d(1) p t(1) by (simp add: core_loop.simps [of _ "open_stream (print_runs True l)"] get_open)
  qed
qed

section \<open>Properties\<close>

text \<open>
  Property C29: the text that printAllocatedCores makes of a list of indices is read back by
  selectCores as that list: the cores with these indices, and no others, are allowed.
\<close>

theorem select_printed_cores:
  assumes "getExistingCores sysfs physicalView = Inr available" and "length available < 2 ^ 64"
    and "cores \<noteq> []" and "\<forall>c\<in>set cores. c < length available"
  shows "selectCores sysfs (printAllocatedCores cores) physicalView =
     returns (affinityMask (map (\<lambda>c. available ! c) cores))"
  using assms core_loop_printed [OF assms(3,4,2), of "[]"]
  by (simp add: selectCores_def printAllocatedCores_def)

theorem select_printed_cores_witness:
  "selectCores (\<lambda>c. if c < 4 then Some ''f'' else None) (printAllocatedCores [0, 1, 3]) True =
   returns (affinityMask [0, 1, 3])"
proof -
  have "[0..<5 + 1019] = [0..<5] @ [5..<5 + 1019]" by (rule upt_add_eq_append) simp
  moreover have "cpu_setsize = 5 + 1019" by (simp add: cpu_setsize_def)
  moreover have "[0..<5] = [0, 1, 2, 3, 4 :: nat]" by code_simp
  ultimately obtain zs where "[0..<cpu_setsize] = [0, 1, 2, 3, 4] @ zs" by (simp only:)
  then have a: "getExistingCores (\<lambda>c. if c < 4 then Some ''f'' else None) True = Inr [0, 1, 2, 3]"
    by (simp add: getExistingCores_def cpu_isset_def ushort_def)
  from select_printed_cores [OF a, of "[0, 1, 3]"] show ?thesis by simp
qed

text \<open>
  A range whose end is the largest value of size_t makes selectCores run forever,
  since its loop variable never exceeds that value.
\<close>

theorem endless_range:
  assumes "getExistingCores sysfs physicalView = Inr available" and "a < 2 ^ 64" and "b = 2 ^ 64 - 1"
  shows "selectCores sysfs (dec_nat a @ ''-'' @ dec_nat b) physicalView = None"
proof -
  have "item_tail []" by (simp add: item_tail_def)
  moreover have "b < 2 ^ 64" "core_range available a b = None" using assms(2,3) by (simp_all add: core_range_def)
  ultimately have "core_item available (open_stream (dec_nat a @ ''-'' @ dec_nat b)) = None"
    using item_of_range [OF assms(2), of b "[]" available] by simp
  with assms(1) show ?thesis by (simp add: selectCores_def core_loop.simps [of _ "open_stream _"])
qed

theorem endless_range_witness:
  "selectCores (\<lambda>_. None) (dec_nat 0 @ ''-'' @ dec_nat 18446744073709551615) True = None"
proof -
  have "[0..<cpu_setsize] = 0 # [1..<cpu_setsize]" by (subst upt_rec) (simp add: cpu_setsize_def)
  then have "getExistingCores (\<lambda>_. None) True = Inr []"
    by (simp add: getExistingCores_def cpu_isset_def)
  then show ?thesis by (rule endless_range) simp_all
qed

end
