(* ===== verification/Runsolver.thy ===== *)
theory Runsolver
  imports Watcher_Runs Resource_Limits Core_Selection
begin

text \<open>
  runsolver.cc: the class RunSolver with its settings, the options of the program, and the
  text about the limits. How the solver is launched is in \<open>Launch\<close>.
\<close>

section \<open>Machine integers\<close>

text \<open>A signed result that does not fit its type is undefined behaviour.\<close>

definition c_int :: "int \<Rightarrow> int result" where
  "c_int i = (if - (2 ^ 31) \<le> i \<and> i < 2 ^ 31 then Inr i else Inl (Undefined ''int overflow''))"

definition c_long :: "int \<Rightarrow> int result" where
  "c_long i = (if - (2 ^ 63) \<le> i \<and> i < 2 ^ 63 then Inr i else Inl (Undefined ''long overflow''))"

text \<open>atol cuts a value that is too large to the range of long; atoi then takes the low 32 bits.\<close>

definition c_atol :: "string \<Rightarrow> int" where
  "c_atol s = (case scan_int s of None \<Rightarrow> 0
     | Some (v, r) \<Rightarrow> max (- (2 ^ 63)) (min (2 ^ 63 - 1) v))"

definition c_atoi :: "string \<Rightarrow> int" where
  "c_atoi s = sint (word_of_int (c_atol s) :: i32)"

section \<open>The class RunSolver\<close>

text \<open>
  The limits are kept by value; \<open>raw_limit\<close> is the memory in which they are created. The file
  that cout is redirected to is \<open>watcher_file\<close>.
\<close>

record runsolver =
  rs_watcher :: watcher
  rs_limits :: "limit list"
  raw_limit :: limit
  watcher_file :: "string option"
  inputRedirectionFilename :: "string option"
  outputRedirectionFilename :: "string option"
  tStamp :: timestamper
  timeStamping :: bool
  usePTY :: bool
  limitedOutputActivateSize :: u64
  limitedOutputMaxSize :: u64
  limitedOutputSizeFilter :: cbf

definition rs_construct :: "watcher \<Rightarrow> runsolver \<Rightarrow> runsolver" where
  "rs_construct w raw = raw\<lparr>rs_watcher := w, rs_limits := [], watcher_file := None,
     inputRedirectionFilename := None, outputRedirectionFilename := None, timeStamping := False,
     usePTY := False, limitedOutputActivateSize := 0, limitedOutputMaxSize := 0,
     limitedOutputSizeFilter := cb_construct (limitedOutputSizeFilter raw)\<rparr>"

definition setUsePTY :: "bool \<Rightarrow> runsolver \<Rightarrow> runsolver" where
  "setUsePTY b rs = rs\<lparr>usePTY := b\<rparr>"

definition setWatcherOutputFile :: "string \<Rightarrow> runsolver \<Rightarrow> runsolver" where
  "setWatcherOutputFile filename rs = rs\<lparr>watcher_file := Some filename\<rparr>"

definition setInputRedirection :: "string \<Rightarrow> runsolver \<Rightarrow> runsolver" where
  "setInputRedirection filename rs = rs\<lparr>inputRedirectionFilename := Some filename\<rparr>"

definition setOutputRedirection :: "string \<Rightarrow> runsolver \<Rightarrow> runsolver" where
  "setOutputRedirection filename rs = rs\<lparr>outputRedirectionFilename := Some filename\<rparr>"

definition on_watcher :: "(watcher \<Rightarrow> watcher) \<Rightarrow> runsolver \<Rightarrow> runsolver" where
  "on_watcher f rs = rs\<lparr>rs_watcher := f (rs_watcher rs)\<rparr>"

definition setTimeStamping :: "bool \<Rightarrow> runsolver \<Rightarrow> runsolver" where
  "setTimeStamping val rs = rs\<lparr>timeStamping := val\<rparr>"

definition setTimeStampingAddEOF :: "bool \<Rightarrow> runsolver \<Rightarrow> runsolver result" where
  "setTimeStampingAddEOF val rs =
     (if \<not> timeStamping rs
      then Inl (Runtime_error ''EOF line can only be added when timestamping is on'')
      else Inr (rs\<lparr>tStamp := addEOF val (tStamp rs)\<rparr>))"

definition setSolverOutputLimits :: "u64 \<Rightarrow> u64 \<Rightarrow> runsolver \<Rightarrow> runsolver result" where
  "setSolverOutputLimits activateSize maxSize rs =
     (if \<not> timeStamping rs
      then Inl (Runtime_error ''limit on the output size can only be enforced when timestamping is on'')
      else Inr (rs\<lparr>limitedOutputActivateSize := activateSize, limitedOutputMaxSize := maxSize\<rparr>))"

definition addLimit :: "limit \<Rightarrow> runsolver \<Rightarrow> runsolver" where
  "addLimit l rs = rs\<lparr>rs_limits := rs_limits rs @ [l]\<rparr>"

text \<open>An int or long that becomes a rlim_t wraps around.\<close>

definition rs_setCPULimit :: "int \<Rightarrow> runsolver \<Rightarrow> runsolver result" where
  "rs_setCPULimit sec rs =
     (let rs = on_watcher (setCPULimit sec) rs;
          rs = addLimit (SoftCPULimit (raw_limit rs) (word_of_int sec)) rs
      in and_then (c_int (sec + 30)) (\<lambda>hard. Inr (addLimit (HardCPULimit (raw_limit rs) (word_of_int hard)) rs)))"

definition rs_setWallClockLimit :: "int \<Rightarrow> runsolver \<Rightarrow> runsolver" where
  "rs_setWallClockLimit sec rs =
     addLimit (WallClockLimit (raw_limit rs) (word_of_int sec)) (on_watcher (setWallClockLimit sec) rs)"

definition rs_setVSizeLimit :: "int \<Rightarrow> int \<Rightarrow> runsolver \<Rightarrow> runsolver result" where
  "rs_setVSizeLimit l reserve rs =
     (let rs = on_watcher (setVSizeLimit l) rs;
          rs = addLimit (SoftVSIZELimit (raw_limit rs) (word_of_int l)) rs
      in and_then (c_long (l + reserve)) (\<lambda>hard. Inr (addLimit (HardVSIZELimit (raw_limit rs) (word_of_int hard)) rs)))"

definition rs_setMemoryLimit :: "int \<Rightarrow> runsolver \<Rightarrow> runsolver" where
  "rs_setMemoryLimit l rs =
     addLimit (MemoryLimit (raw_limit rs) (word_of_int l)) (on_watcher (setMemoryLimit l) rs)"

definition setSignal :: "string \<Rightarrow> runsolver \<Rightarrow> runsolver result" where
  "setSignal signalName rs = Inl (Runtime_error ''unimplemented'')"

definition printLimits :: "runsolver \<Rightarrow> string" where
  "printLimits rs =
     concat (map limit_output (rs_limits rs)) @
     (if limitedOutputMaxSize rs \<noteq> 0 then
        if timeStamping rs then
          ''Solver output will be limited to a maximum of '' @ dec_nat (unat (limitedOutputMaxSize rs)) @
          '' bytes. The first '' @ dec_nat (unat (limitedOutputActivateSize rs)) @
          '' bytes and the last '' @
          dec_nat (unat (limitedOutputMaxSize rs - limitedOutputActivateSize rs)) @
          '' bytes will be preserved'' @ endl
        else ''Solver output limit is ignored (currently only available with timestamping)'' @ endl
      else []) @
     (if timeStamping rs \<and> usePTY rs
      then ''Using a pseudo terminal to collect output from the solver'' @ endl else [])"

text \<open>The handler of SIGALRM, SIGINT and SIGTERM.\<close>

definition watcherSigHandler :: "int \<Rightarrow> watcher \<Rightarrow> watcher" where
  "watcherSigHandler signum w =
     (if signum = sigterm \<or> signum = 2
      then stopSolver ''Received SIGTERM or SIGINT, killing child'' w else w)"

section \<open>The options\<close>

text \<open>
  getopt_long gives the options one by one: a short one (or a long one that stands for it), a
  long one with its number, or a mistake. An option without an argument has an empty one.
\<close>

datatype option_code = Short char | Long nat | Mistake

record main_state =
  solver :: runsolver
  vsizeLimit :: int
  memLimit :: int
  watchdogDelay :: int
  m_affinity :: cpu_set

text \<open>\<open>sscanf(optarg, "%d,%d", ...)\<close>: None unless both numbers are there.\<close>

definition scan_pair :: "string \<Rightarrow> (int \<times> int) option" where
  "scan_pair s =
     (case scan_int s of
        Some (a, c # r) \<Rightarrow>
          if c = CHR '','' then (case scan_int r of Some (b, _) \<Rightarrow> Some (a, b) | None \<Rightarrow> None) else None
      | _ \<Rightarrow> None)"

definition output_limit :: "string \<Rightarrow> runsolver \<Rightarrow> runsolver run" where
  "output_limit optarg rs =
     (case scan_pair optarg of
        None \<Rightarrow> Some (Inl (Exit 1))
      | Some (activate, maximum) \<Rightarrow>
          run_then (Some (c_int activate)) (\<lambda>activate.
          run_then (Some (c_int maximum)) (\<lambda>maximum.
          if maximum \<le> activate then Some (Inl (Exit 1))
          else
            let rs = setTimeStamping True rs in
            run_then (Some (c_int (activate * 1024))) (\<lambda>a. run_then (Some (c_int (a * 1024))) (\<lambda>a.
            run_then (Some (c_int (maximum * 1024))) (\<lambda>m. run_then (Some (c_int (m * 1024))) (\<lambda>m.
              Some (setSolverOutputLimits (word_of_int a) (word_of_int m) rs))))))))"

definition on_solver :: "(runsolver \<Rightarrow> runsolver) \<Rightarrow> main_state \<Rightarrow> main_state run" where
  "on_solver f m = returns (m\<lparr>solver := f (solver m)\<rparr>)"

definition try_solver :: "(runsolver \<Rightarrow> runsolver run) \<Rightarrow> main_state \<Rightarrow> main_state run" where
  "try_solver f m = run_then (f (solver m)) (\<lambda>rs. returns (m\<lparr>solver := rs\<rparr>))"

text \<open>
  The switch on one option. The case 1007 has no break: it goes on with the case 1008. Both a
  mistake and the option -h lead to usage, which exits.
\<close>

definition handle_option :: "topology \<Rightarrow> option_code \<times> string \<Rightarrow> main_state \<Rightarrow> main_state run" where
  "handle_option sysfs opt m =
     (let (optc, optarg) = opt in
      if optc = Short (CHR ''o'') then on_solver (setOutputRedirection optarg) m
      else if optc = Short (CHR ''i'') then on_solver (setInputRedirection optarg) m
      else if optc = Short (CHR ''w'') then on_solver (setWatcherOutputFile optarg) m
      else if optc = Short (CHR ''v'') then on_solver (on_watcher (setVarOutputFile optarg)) m
      else if optc = Short (CHR ''M'') \<or> optc = Short (CHR ''V'') then
        run_then (Some (c_long (c_atol optarg * 1024))) (\<lambda>v. returns (m\<lparr>vsizeLimit := v\<rparr>))
      else if optc = Short (CHR ''R'') then
        run_then (Some (c_long (c_atol optarg * 1024))) (\<lambda>v. returns (m\<lparr>memLimit := v\<rparr>))
      else if optc = Short (CHR ''C'') then try_solver (\<lambda>rs. Some (rs_setCPULimit (c_atoi optarg) rs)) m
      else if optc = Short (CHR ''W'') then on_solver (rs_setWallClockLimit (c_atoi optarg)) m
      else if optc = Short (CHR ''S'') then
        run_then (Some (c_int (c_atoi optarg * 1024))) (\<lambda>v.
          on_solver (\<lambda>rs. addLimit (StackSizeLimit (raw_limit rs) (word_of_int v)) rs) m)
      else if optc = Short (CHR ''d'') then on_solver (on_watcher (setDelayBeforeKill (c_atoi optarg))) m
      else if optc = Short (CHR ''O'') then try_solver (output_limit optarg) m
      else if optc = Long 1000 then on_solver (setTimeStamping True) m
      else if optc = Long 1002 then on_solver (setUsePTY True) m
      else if optc = Long 1003 then on_solver (on_watcher (setCleanupSolverOwnIPCQueues True)) m
      else if optc = Long 1004 then on_solver (on_watcher (setCleanupAllIPCQueues True)) m
      else if optc = Long 1005 \<or> optc = Long 1006 then
        run_then (selectCores sysfs optarg (optc = Long 1006)) (\<lambda>mask. returns (m\<lparr>m_affinity := mask\<rparr>))
      else if optc = Long 1007 then
        try_solver (\<lambda>rs. Some (and_then (setTimeStampingAddEOF True rs) (setSignal optarg))) m
      else if optc = Long 1008 then try_solver (\<lambda>rs. Some (setSignal optarg rs)) m
      else if optc = Long 1009 then on_solver (on_watcher (setBinVarOutputFile optarg)) m
      else if optc = Long 1010 then Some (Inl (Exit 0))
      else if optc = Long 1011 then returns (m\<lparr>watchdogDelay := c_atoi optarg\<rparr>)
      else Some (Inl (Exit 1)))"

fun handle_options :: "topology \<Rightarrow> (option_code \<times> string) list \<Rightarrow> main_state \<Rightarrow> main_state run" where
  "handle_options sysfs [] m = returns m"
| "handle_options sysfs (opt # opts) m = run_then (handle_option sysfs opt m) (handle_options sysfs opts)"

text \<open>The handler around main: an exception ends the program with status 1.\<close>

definition catch_exceptions :: "'a run \<Rightarrow> 'a run" where
  "catch_exceptions r =
     (case r of Some (Inl (Runtime_error e)) \<Rightarrow> Some (Inl (Exit 1)) | _ \<Rightarrow> r)"

text \<open>
  Everything before the solver is run: the options, and what is printed. \<open>numa\<close> is the text of
  numaInfo, which the library libnuma provides.
\<close>

definition version_text :: "string \<Rightarrow> string \<Rightarrow> string" where
  "version_text version svn =
     ''runsolver version '' @ version @ '' (svn: '' @ svn @ '') Copyright (C) 2010-2013 Olivier ROUSSEL'' @
     [newline, newline] @
     ''This program is distributed in the hope that it will be useful,'' @ [newline] @
     ''but WITHOUT ANY WARRANTY; without even the implied warranty of'' @ [newline] @
     ''MERCHANTABILITY or FITNESS FOR A PARTICULAR PURPOSE.  See the'' @ [newline] @
     ''GNU General Public License for more details.'' @ [newline] @ endl"

definition prepare ::
  "topology \<Rightarrow> string \<Rightarrow> string \<Rightarrow> string \<Rightarrow> string list \<Rightarrow> (option_code \<times> string) list \<Rightarrow> string list \<Rightarrow>
     main_state \<Rightarrow> (main_state \<times> string) run" where
  "prepare sysfs version svn numa argv opts command m =
     catch_exceptions
       (run_then (handle_options sysfs opts m) (\<lambda>m.
        if command = [] then Some (Inl (Exit 1))
        else
          run_then (Some (getAllocatedCoresByProcessorOrder sysfs (m_affinity m))) (\<lambda>cores.
          run_then (Some (if vsizeLimit m \<noteq> 0 then rs_setVSizeLimit (vsizeLimit m) (50 * 1024) (solver m)
                          else Inr (solver m))) (\<lambda>rs.
          let rs = (if memLimit m \<noteq> 0 then rs_setMemoryLimit (memLimit m) rs else rs) in
          returns (m\<lparr>solver := rs\<rparr>,
            version_text version svn @ numa @
            ''command line: '' @ concat (map (\<lambda>a. a @ '' '') argv) @ endl @ endl @
            ''running on '' @ dec_nat (length cores) @ '' cores: '' @ printAllocatedCores cores @
            [newline, newline] @ printLimits rs)))))"

section \<open>Properties\<close>

lemma handle_options_append:
  "handle_options sysfs (opts @ opts') m = run_then (handle_options sysfs opts m) (handle_options sysfs opts')"
proof (induction opts arbitrary: m)
  case (Cons opt opts)
  then show ?case
    by (cases "(handle_option sysfs opt m, handle_options sysfs opts)" rule: run_then.cases) (auto simp: returns_def)
qed (simp add: returns_def)

lemma catch_not_returns: "r \<noteq> returns x \<Longrightarrow> catch_exceptions r \<noteq> returns x"
  by (auto simp: catch_exceptions_def split: option.splits sum.splits fault.splits)

lemma signal_option:
  assumes "opt = Long 1007 \<or> opt = Long 1008"
  shows "\<exists>e. handle_option sysfs (opt, arg) m = Some (Inl (Runtime_error e))"
  using assms by (auto simp: handle_option_def try_solver_def setSignal_def setTimeStampingAddEOF_def)

text \<open>
  The options --add-eof and --sig can never be used: whatever the other options
  are, runsolver does not reach the launch of the solver when one of them is given, and if the
  options before it are accepted it ends with status 1.
\<close>

theorem add_eof_and_sig_unusable:
  assumes "opt = Long 1007 \<or> opt = Long 1008"
  shows "prepare sysfs version svn numa argv (opts @ (opt, arg) # opts') command m \<noteq> returns r \<and>
     (handle_options sysfs opts m = returns m' \<longrightarrow>
        prepare sysfs version svn numa argv (opts @ (opt, arg) # opts') command m = Some (Inl (Exit 1)))"
proof -
  let ?h = "handle_options sysfs (opts @ (opt, arg) # opts') m"
  have h: "?h \<noteq> returns u" for u
  proof
    assume "?h = returns u"
    then obtain x y where "handle_option sysfs (opt, arg) x = returns y"
      by (auto simp: handle_options_append return_iff)
    with signal_option [OF assms, of sysfs arg x] show False by auto
  qed
  have "prepare sysfs version svn numa argv (opts @ (opt, arg) # opts') command m \<noteq> returns r"
    unfolding prepare_def
  proof (rule catch_not_returns)
    show "run_then ?h k \<noteq> returns r" for k using h by (auto simp: return_iff)
  qed
  moreover have "prepare sysfs version svn numa argv (opts @ (opt, arg) # opts') command m = Some (Inl (Exit 1))"
    if "handle_options sysfs opts m = returns m'"
    using signal_option [OF assms, of sysfs arg m'] that
    by (auto simp: prepare_def catch_exceptions_def handle_options_append)
  ultimately show ?thesis by blast
qed

theorem add_eof_and_sig_unusable_witness:
  "\<forall>m r. prepare (\<lambda>_. None) ''3.4.0'' [] [] [] [(Long 1000, []), (Long 1007, [])] [''ls''] m \<noteq> returns r"
  using add_eof_and_sig_unusable [of "Long 1007" "\<lambda>_. None" "''3.4.0''" "[]" "[]" "[]" "[(Long 1000, [])]" "[]" "[]"]
  by simp

lemma scan_pair_dec: "scan_pair (dec_int a @ '','' @ dec_int b) = Some (a, b)"
proof -
  have "scan_int (dec_int a @ CHR '','' # dec_int b) = Some (a, CHR '','' # dec_int b)"
    by (rule scan_int_dec_int) (simp add: no_digit_first_def isdigit_def)
  moreover have "scan_int (dec_int b) = Some (b, [])"
    using scan_int_dec_int [of "[]" b] by (simp add: no_digit_first_def)
  ultimately show ?thesis by (simp add: scan_pair_def)
qed

lemma run_c_int:
  "run_then (Some (c_int i)) k =
     (if - (2 ^ 31) \<le> i \<and> i < 2 ^ 31 then k i else Some (Inl (Undefined ''int overflow'')))"
  by (simp add: c_int_def)

lemma uint_of_small: "0 \<le> k \<Longrightarrow> k < 2 ^ 64 \<Longrightarrow> uint (word_of_int k :: u64) = k"
  by (simp add: unsigned_of_int take_bit_int_eq_self)

text \<open>
  With 0 <= A < M, the option --output-limit A,M turns time stamping on and sets
  the sizes to A and M mebibytes when M is below 2048, so that the filter that is set up with
  them has a buffer; from 2048 on the multiplication overflows an int, which is undefined.
\<close>

theorem output_limit_range:
  assumes "0 \<le> a" and "a < mx" and "mx < 2 ^ 31"
  shows "(mx < 2048 \<longrightarrow> (\<exists>rs'. output_limit (dec_int a @ '','' @ dec_int mx) rs = returns rs' \<and> timeStamping rs' \<and>
       uint (limitedOutputActivateSize rs') = a * 2 ^ 20 \<and> uint (limitedOutputMaxSize rs') = mx * 2 ^ 20 \<and>
       0 < cb_bufferSize (cb_setup fd (limitedOutputActivateSize rs') (limitedOutputMaxSize rs') f))) \<and>
     (2048 \<le> mx \<longrightarrow> (\<exists>e. output_limit (dec_int a @ '','' @ dec_int mx) rs = Some (Inl (Undefined e))))"
proof (intro conjI impI)
  assume m: "mx < 2048"
  let ?rs = "rs\<lparr>timeStamping := True, limitedOutputActivateSize := word_of_int (a * 1024 * 1024),
    limitedOutputMaxSize := word_of_int (mx * 1024 * 1024)\<rparr>"
  have "c_int a = Inr a" "c_int mx = Inr mx" "c_int (a * 1024) = Inr (a * 1024)"
    "c_int (mx * 1024) = Inr (mx * 1024)" "c_int (a * 1024 * 1024) = Inr (a * 1024 * 1024)"
    "c_int (mx * 1024 * 1024) = Inr (mx * 1024 * 1024)" using assms m by (simp_all add: c_int_def)
  then have r: "output_limit (dec_int a @ '','' @ dec_int mx) rs = returns ?rs" using assms(2)
    by (simp only: output_limit_def scan_pair_dec option.case prod.case run_then.simps Let_def)
      (simp add: setTimeStamping_def setSolverOutputLimits_def returns_def)
  have u: "uint (limitedOutputActivateSize ?rs) = a * 2 ^ 20" "uint (limitedOutputMaxSize ?rs) = mx * 2 ^ 20"
    using assms m uint_of_small [of "a * 1024 * 1024"] uint_of_small [of "mx * 1024 * 1024"] by simp_all
  then have "limitedOutputActivateSize ?rs < limitedOutputMaxSize ?rs"
    using assms(2) unfolding word_less_def by (simp only:) simp
  then have "0 < limitedOutputMaxSize ?rs - limitedOutputActivateSize ?rs"
    by (metis eq_iff_diff_eq_0 less_irrefl word_neq_0_conv)
  then have "0 < cb_bufferSize (cb_setup fd (limitedOutputActivateSize ?rs) (limitedOutputMaxSize ?rs) f)"
    by (simp add: cb_setup_def)
  moreover have "timeStamping ?rs" by simp
  ultimately show "\<exists>rs'. output_limit (dec_int a @ '','' @ dec_int mx) rs = returns rs' \<and> timeStamping rs' \<and>
       uint (limitedOutputActivateSize rs') = a * 2 ^ 20 \<and> uint (limitedOutputMaxSize rs') = mx * 2 ^ 20 \<and>
       0 < cb_bufferSize (cb_setup fd (limitedOutputActivateSize rs') (limitedOutputMaxSize rs') f)"
    using r u by blast
next
  assume "2048 \<le> mx"
  with assms show "\<exists>e. output_limit (dec_int a @ '','' @ dec_int mx) rs = Some (Inl (Undefined e))"
    by (simp only: output_limit_def scan_pair_dec option.case prod.case run_c_int Let_def) auto
qed

theorem output_limit_range_witness:
  "\<forall>rs. (\<exists>rs'. output_limit (dec_int 1 @ '','' @ dec_int 15) rs = returns rs' \<and>
       uint (limitedOutputMaxSize rs') = 15728640) \<and>
     (\<exists>e. output_limit (dec_int 1 @ '','' @ dec_int 4096) rs = Some (Inl (Undefined e)))"
proof
  fix rs
  show "(\<exists>rs'. output_limit (dec_int 1 @ '','' @ dec_int 15) rs = returns rs' \<and>
       uint (limitedOutputMaxSize rs') = 15728640) \<and>
     (\<exists>e. output_limit (dec_int 1 @ '','' @ dec_int 4096) rs = Some (Inl (Undefined e)))"
    using output_limit_range [of 1 15 rs] output_limit_range [of 1 4096 rs] by auto
qed

end
