(* ===== verification/Launch.thy ===== *)
theory Launch
  imports Runsolver
begin

text \<open>
  RunSolver::run of runsolver.cc: the descriptors of runsolver and of the solver, the limits
  that are enforced, and the core that runsolver keeps for itself.
\<close>

section \<open>File descriptors\<close>

text \<open>
  What a descriptor refers to: one that runsolver inherited, a file opened by name, an end of
  a pipe, an end of a pseudo-terminal. A new descriptor is the lowest free one.
\<close>

datatype open_file = Inherited int | Named string | Pipe_read | Pipe_write | Pty_master | Pty_slave

type_synonym fd_table = "int \<Rightarrow> open_file option"

definition fd_limit :: nat where
  "fd_limit = 1024"

definition lowest_free :: "fd_table \<Rightarrow> int option" where
  "lowest_free fds = map_option int (List.find (\<lambda>n. fds (int n) = None) [0..<fd_limit])"

definition sys_open :: "open_file \<Rightarrow> fd_table \<Rightarrow> int \<times> fd_table" where
  "sys_open f fds = (case lowest_free fds of None \<Rightarrow> (- 1, fds) | Some n \<Rightarrow> (n, fds(n := Some f)))"

definition sys_close :: "int \<Rightarrow> fd_table \<Rightarrow> fd_table" where
  "sys_close n fds = fds(n := None)"

definition sys_dup2 :: "int \<Rightarrow> int \<Rightarrow> fd_table \<Rightarrow> int \<times> fd_table" where
  "sys_dup2 old new fds = (case fds old of None \<Rightarrow> (- 1, fds) | Some f \<Rightarrow> (new, fds(new := Some f)))"

text \<open>
  The error, if any, of opening a file; of each step of making a pseudo-terminal; the errors
  are texts of strerror. \<open>no_name\<close>: ptsname returns NULL.
\<close>

record launch_system = rlimit_system +
  open_failure :: "string \<Rightarrow> string option"
  pty_failure :: bool
  no_name :: "string option"
  slave_failure :: "string option"
  subreaper_failure :: bool

definition open_named :: "'a launch_system_scheme \<Rightarrow> string \<Rightarrow> string \<Rightarrow> fd_table \<Rightarrow> (int \<times> fd_table) result" where
  "open_named os what name fds =
     (case open_failure os name of
        Some e \<Rightarrow> Inl (Runtime_error (what @ e))
      | None \<Rightarrow> let (fd, fds) = sys_open (Named name) fds in
          if fd < 0 then Inl (Runtime_error (what @ ''Too many open files'')) else Inr (fd, fds))"

definition dup2_or_throw :: "string \<Rightarrow> int \<Rightarrow> int \<Rightarrow> fd_table \<Rightarrow> fd_table result" where
  "dup2_or_throw what old new fds =
     (let (err, fds) = sys_dup2 old new fds in
      if err < 0 then Inl (Runtime_error (what @ ''Bad file descriptor'')) else Inr fds)"

section \<open>Before the fork\<close>

text \<open>
  The members stdoutRedirFD and ptymaster, and what the time stamper reads from and writes to.
\<close>

record launch =
  fd_of :: fd_table
  redir_read :: int
  redir_write :: int
  ptymaster :: int

definition check_subreaper :: "'a launch_system_scheme \<Rightarrow> runsolver \<Rightarrow> runsolver result" where
  "check_subreaper os rs =
     (if subreaper_failure os then Inl (Exit 1) else Inr (on_watcher (setChildReaper True) rs))"

definition make_pty :: "'a launch_system_scheme \<Rightarrow> launch \<Rightarrow> launch result" where
  "make_pty os l =
     (let (fd, fds) = sys_open Pty_master (fd_of l) in
      if pty_failure os \<or> fd < 0 then Inl (Exit 1) else Inr (l\<lparr>fd_of := fds, ptymaster := fd\<rparr>))"

definition make_pipe :: "launch \<Rightarrow> launch" where
  "make_pipe l =
     (let (r, fds) = sys_open Pipe_read (fd_of l); (w, fds) = sys_open Pipe_write fds
      in l\<lparr>fd_of := fds, redir_read := r, redir_write := w\<rparr>)"

text \<open>The filter has the address 0. The result of pipe is not looked at.\<close>

definition start_stamping ::
  "'a launch_system_scheme \<Rightarrow> ts_world \<Rightarrow> runsolver \<Rightarrow> launch \<Rightarrow> (runsolver \<times> launch \<times> ts_world) result" where
  "start_stamping os world rs l =
     and_then (case outputRedirectionFilename rs of
         None \<Rightarrow> Inr (1, fd_of l)
       | Some name \<Rightarrow> open_named os ''open failed during output redirection: '' name (fd_of l)) (\<lambda>(fd, fds).
     and_then (if usePTY rs then make_pty os (l\<lparr>fd_of := fds\<rparr>) else Inr (make_pipe (l\<lparr>fd_of := fds\<rparr>))) (\<lambda>l.
     let from_solver = (if usePTY rs then ptymaster l else redir_read l);
         (rs, world) =
           (if limitedOutputMaxSize rs \<noteq> 0 then
              let f = cb_setup fd (limitedOutputActivateSize rs) (limitedOutputMaxSize rs) (limitedOutputSizeFilter rs)
              in (rs\<lparr>limitedOutputSizeFilter := f, tStamp := watch_filter from_solver 0 unnamed (tStamp rs)\<rparr>,
                  world\<lparr>filters := (filters world)(0 := Circular_filter f)\<rparr>)
            else (rs\<lparr>tStamp := watch_fd from_solver unnamed fd (tStamp rs)\<rparr>, world));
         (ts, world) = resetTimeStamp (tStamp rs) world
     in Inr (rs\<lparr>tStamp := ts\<rparr>, l, world)))"

section \<open>The child\<close>

definition enforce_all :: "limit list \<Rightarrow> rlimit_system \<Rightarrow> rlimit_system" where
  "enforce_all ls os = fold enforceLimit ls os"

definition redirect_input :: "'a launch_system_scheme \<Rightarrow> runsolver \<Rightarrow> fd_table \<Rightarrow> fd_table result" where
  "redirect_input os rs fds =
     (case inputRedirectionFilename rs of
        None \<Rightarrow> Inr fds
      | Some name \<Rightarrow>
          and_then (open_named os ''open failed during input redirection: '' name fds) (\<lambda>(fd, fds).
          and_then (dup2_or_throw ''dup2 failed during input redirection: '' fd 0 fds) (\<lambda>fds.
            Inr (sys_close fd fds))))"

definition redirect_output :: "'a launch_system_scheme \<Rightarrow> runsolver \<Rightarrow> fd_table \<Rightarrow> fd_table result" where
  "redirect_output os rs fds =
     (case outputRedirectionFilename rs of
        None \<Rightarrow> Inr fds
      | Some name \<Rightarrow>
          if timeStamping rs then Inr fds
          else
            and_then (open_named os ''open failed during output redirection: '' name fds) (\<lambda>(fd, fds).
            and_then (dup2_or_throw ''dup2 failed during output redirection: '' fd 1 fds) (\<lambda>fds.
            and_then (dup2_or_throw ''dup2 failed during output redirection: '' fd 2 fds) (\<lambda>fds.
              Inr (sys_close fd fds)))))"

definition to_pty :: "'a launch_system_scheme \<Rightarrow> fd_table \<Rightarrow> fd_table result" where
  "to_pty os fds =
     (case no_name os of
        Some e \<Rightarrow> Inl (Runtime_error (''Failed to get pty slave name:'' @ e))
      | None \<Rightarrow>
          (case slave_failure os of
             Some e \<Rightarrow> Inl (Runtime_error (''open of pty slave failed: '' @ e))
           | None \<Rightarrow>
               let (fd, fds) = sys_open Pty_slave fds in
               if fd < 0 then Inl (Runtime_error (''open of pty slave failed: Too many open files''))
               else
                 and_then (dup2_or_throw ''dup2 failed during output redirection: '' fd 1 fds) (\<lambda>fds.
                 and_then (dup2_or_throw ''dup2 failed during output redirection: '' fd 2 fds) (\<lambda>fds.
                   Inr (sys_close fd fds)))))"

definition to_pipe :: "launch \<Rightarrow> fd_table \<Rightarrow> fd_table" where
  "to_pipe l fds =
     (let fds = sys_close (redir_read l) fds;
          fds = snd (sys_dup2 (redir_write l) 1 fds);
          fds = sys_close (redir_write l) fds
      in snd (sys_dup2 1 2 fds))"

text \<open>
  The child up to execvp: its descriptors, the limits in force, and what it prints. When
  execvp fails it prints the command on cerr and exits with 127.
\<close>

definition child_setup ::
  "launch_system \<Rightarrow> runsolver \<Rightarrow> launch \<Rightarrow> (fd_table \<times> rlimit_system \<times> string) result" where
  "child_setup os rs l =
     (let rl = enforce_all (rs_limits rs) (rlimit_system.truncate os);
          (out, rl) = outputEnforcedLimit (StackSizeLimit_unset (raw_limit rs)) rl
      in and_then (redirect_input os rs (fd_of l)) (\<lambda>fds.
         and_then (redirect_output os rs fds) (\<lambda>fds.
         and_then (if timeStamping rs then if usePTY rs then to_pty os fds else Inr (to_pipe l fds) else Inr fds)
           (\<lambda>fds. Inr (fds, rl, out @ endl)))))"

section \<open>The parent\<close>

text \<open>
  The parent after the fork: it closes its standard input, moves to the last of its cores,
  closes the write end of the pipe, and hands the time stamper to the watcher. What follows is
  Watcher::watchPID.
\<close>

definition keep_last_core :: "nat list \<Rightarrow> nat list" where
  "keep_last_core cores = (if 1 < length cores then [last cores] else cores)"

definition parent_setup ::
  "topology \<Rightarrow> cpu_set \<Rightarrow> runsolver \<Rightarrow> launch \<Rightarrow> (runsolver \<times> fd_table \<times> cpu_set) result" where
  "parent_setup sysfs affinity rs l =
     and_then (getAllocatedCoresByProcessorOrder sysfs affinity) (\<lambda>cores.
       let fds = sys_close 0 (fd_of l);
           fds = (if timeStamping rs \<and> \<not> usePTY rs then sys_close (redir_write l) fds else fds);
           rs = (if timeStamping rs then on_watcher (setTimeStamper (tStamp rs)) rs else rs)
       in Inr (rs, fds, affinityMask (keep_last_core cores)))"

text \<open>run up to the start of the solver: what the child executes with, and the parent's state.\<close>

definition run_setup ::
  "launch_system \<Rightarrow> topology \<Rightarrow> cpu_set \<Rightarrow> ts_world \<Rightarrow> runsolver \<Rightarrow> launch \<Rightarrow>
     ((fd_table \<times> rlimit_system \<times> string) result \<times> (runsolver \<times> fd_table \<times> cpu_set) result) result" where
  "run_setup os sysfs affinity world rs l =
     and_then (check_subreaper os rs) (\<lambda>rs.
     and_then (if timeStamping rs then start_stamping os world rs l else Inr (rs, l, world)) (\<lambda>(rs, l, world).
       Inr (child_setup os rs l, parent_setup sysfs affinity rs l)))"

section \<open>Facts about descriptors\<close>

lemma lowest_free_Some:
  assumes "lowest_free fds = Some n"
  shows "fds n = None \<and> 0 \<le> n"
  using assms by (auto simp: lowest_free_def find_Some_iff)

lemma sys_open_free: "sys_open f fds = (n, fds') \<Longrightarrow> 0 \<le> n \<Longrightarrow> fds n = None \<and> fds' = fds(n := Some f)"
  by (auto simp: sys_open_def dest: lowest_free_Some split: option.splits)

lemma sys_open_room:
  assumes "fds k = None" and "0 \<le> k" and "k < int fd_limit"
  shows "0 \<le> fst (sys_open f fds)"
proof -
  have "List.find (\<lambda>n. fds (int n) = None) [0..<fd_limit] \<noteq> None"
    using assms unfolding find_None_iff by (auto intro!: exI [of _ "nat k"] simp: nat_less_iff)
  then show ?thesis by (auto simp: sys_open_def lowest_free_def)
qed

text \<open>Opening, duplicating and closing again leaves only the duplicate.\<close>

lemma redirect_effect:
  assumes "open_named os what name fds = Inr (fd, fds1)" and "dup2_or_throw what' fd k fds1 = Inr fds2"
    and "fds k \<noteq> None"
  shows "sys_close fd fds2 = fds(k := Some (Named name))"
proof -
  have o: "sys_open (Named name) fds = (fd, fds1)" "0 \<le> fd"
    using assms(1) by (auto simp: open_named_def split: option.splits prod.splits if_splits)
  then have f: "fds fd = None" "fds1 = fds(fd := Some (Named name))" by (auto dest: sys_open_free)
  moreover have "fd \<noteq> k" using f(1) assms(3) by auto
  moreover have "fds2 = fds1(k := Some (Named name))"
    using assms(2) f(2) o(2) by (auto simp: dup2_or_throw_def sys_dup2_def split: if_splits)
  ultimately show ?thesis by (auto simp: sys_close_def fun_eq_iff)
qed

lemma redirect_input_effect:
  assumes "redirect_input os rs fds = Inr fds'" and "fds 0 \<noteq> None"
  shows "\<forall>n. n \<noteq> 0 \<longrightarrow> fds' n = fds n" and "fds' 0 = fds 0 \<or> (\<exists>name. fds' 0 = Some (Named name))"
proof -
  have "fds' = fds \<or> (\<exists>name. fds' = fds(0 := Some (Named name)))"
  proof (cases "inputRedirectionFilename rs")
    case None
    with assms(1) show ?thesis by (simp add: redirect_input_def)
  next
    case (Some name)
    with assms(1) obtain fd f1 f2 where
      "open_named os ''open failed during input redirection: '' name fds = Inr (fd, f1)"
      "dup2_or_throw ''dup2 failed during input redirection: '' fd 0 f1 = Inr f2" "fds' = sys_close fd f2"
      by (auto simp: redirect_input_def return_iff)
    with redirect_effect [OF this(1,2) assms(2)] show ?thesis by blast
  qed
  then show "\<forall>n. n \<noteq> 0 \<longrightarrow> fds' n = fds n" and "fds' 0 = fds 0 \<or> (\<exists>name. fds' 0 = Some (Named name))" by auto
qed

text \<open>The table after the pipe is made: two new descriptors, not the standard ones.\<close>

lemma make_pipe_effect:
  assumes "fd_of l a = None" and "fd_of l b = None" and "0 \<le> a" and "a < b" and "b < int fd_limit"
  shows "\<exists>r w. make_pipe l = l\<lparr>fd_of := (fd_of l)(r := Some Pipe_read, w := Some Pipe_write),
       redir_read := r, redir_write := w\<rparr> \<and> r \<noteq> w \<and> fd_of l r = None \<and> fd_of l w = None"
proof -
  obtain r f1 where r: "sys_open Pipe_read (fd_of l) = (r, f1)" by (cases "sys_open Pipe_read (fd_of l)")
  have "0 \<le> r" using sys_open_room [of "fd_of l" a Pipe_read] assms r by simp
  with sys_open_free [OF r] have f1: "fd_of l r = None" "f1 = (fd_of l)(r := Some Pipe_read)" by auto
  obtain w f2 where w: "sys_open Pipe_write f1 = (w, f2)" by (cases "sys_open Pipe_write f1")
  define k where "k = (if r = a then b else a)"
  have "f1 k = None" "0 \<le> k" "k < int fd_limit" using f1(2) assms by (simp_all add: k_def)
  then have "0 \<le> w" using sys_open_room [where fds = f1 and k = k and f = Pipe_write] w by simp
  with sys_open_free [OF w] have f2: "f1 w = None" "f2 = f1(w := Some Pipe_write)" by auto
  with f1 have "r \<noteq> w" by auto
  with f1 f2 r w show ?thesis by (auto simp: make_pipe_def)
qed

definition no_pipe :: "fd_table \<Rightarrow> bool" where
  "no_pipe fds \<longleftrightarrow> (\<forall>n. fds n \<noteq> Some Pipe_read \<and> fds n \<noteq> Some Pipe_write)"

definition standard_open :: "fd_table \<Rightarrow> bool" where
  "standard_open fds \<longleftrightarrow> fds 0 \<noteq> None \<and> fds 1 \<noteq> None \<and> fds 2 \<noteq> None"

lemma start_stamping_effect:
  assumes "start_stamping os world rs l = Inr (rs', l', world')" and "\<not> usePTY rs"
    and "no_pipe (fd_of l)" and "standard_open (fd_of l)" and "\<forall>n\<ge>3. fd_of l n = None"
  shows "\<exists>g r w. l' = l\<lparr>fd_of := g(r := Some Pipe_read, w := Some Pipe_write), redir_read := r, redir_write := w\<rparr> \<and>
     r \<noteq> w \<and> r \<notin> {0, 1, 2} \<and> w \<notin> {0, 1, 2} \<and> no_pipe g \<and> standard_open g \<and>
     r \<in> ts_watcher (tStamp rs') \<and> timeStamping rs' = timeStamping rs \<and> \<not> usePTY rs' \<and>
     outputRedirectionFilename rs' = outputRedirectionFilename rs \<and>
     inputRedirectionFilename rs' = inputRedirectionFilename rs"
proof -
  obtain fd fds where fds: "(case outputRedirectionFilename rs of None \<Rightarrow> Inr (1, fd_of l)
       | Some name \<Rightarrow> open_named os ''open failed during output redirection: '' name (fd_of l)) = Inr (fd, fds)"
    using assms(1) by (auto simp: start_stamping_def return_iff)
  have g: "no_pipe fds \<and> standard_open fds \<and> (\<exists>a. \<forall>n\<ge>3. n \<noteq> a \<longrightarrow> fds n = None)"
  proof (cases "outputRedirectionFilename rs")
    case None
    with fds assms(3-5) show ?thesis by auto
  next
    case (Some name)
    with fds have "sys_open (Named name) (fd_of l) = (fd, fds)" "0 \<le> fd"
      by (auto simp: open_named_def split: option.splits prod.splits if_splits)
    from sys_open_free [OF this] assms(3-5) show ?thesis
      by (auto simp: no_pipe_def standard_open_def)
  qed
  then obtain a where a: "\<forall>n\<ge>3. n \<noteq> a \<longrightarrow> fds n = None" by blast
  obtain x y :: int where xy: "fds x = None" "fds y = None" "0 \<le> x" "x < y" "y < int fd_limit"
  proof (cases "a = 3 \<or> a = 4")
    case True
    with a show ?thesis by (intro that [of 5 6]) (auto simp: fd_limit_def)
  next
    case False
    with a show ?thesis by (intro that [of 3 4]) (auto simp: fd_limit_def)
  qed
  from make_pipe_effect [of "l\<lparr>fd_of := fds\<rparr>" x y] xy obtain r w where
    p: "make_pipe (l\<lparr>fd_of := fds\<rparr>) = l\<lparr>fd_of := fds(r := Some Pipe_read, w := Some Pipe_write),
       redir_read := r, redir_write := w\<rparr>" "r \<noteq> w" "fds r = None" "fds w = None" by auto
  then have "r \<notin> {0, 1, 2}" "w \<notin> {0, 1, 2}" using g by (auto simp: standard_open_def)
  moreover from assms(1,2) fds p(1) have "l' = l\<lparr>fd_of := fds(r := Some Pipe_read, w := Some Pipe_write),
       redir_read := r, redir_write := w\<rparr>" "r \<in> ts_watcher (tStamp rs')" "timeStamping rs' = timeStamping rs"
    "\<not> usePTY rs'" "outputRedirectionFilename rs' = outputRedirectionFilename rs"
    "inputRedirectionFilename rs' = inputRedirectionFilename rs"
    by (auto simp: start_stamping_def watch_filter_def watch_fd_def watch_entry_def resetTimeStamp_def
        Let_def split: prod.splits if_splits)
  ultimately show ?thesis using p(2) g by blast
qed

section \<open>Properties\<close>

text \<open>
  Property C9: when the output of the solver is stamped through a pipe, the solver starts with
  its standard output and its standard error on the pipe and has no other descriptor of it,
  whatever files its input and the output are redirected to; runsolver has the read end, which
  the time stamper watches, and no write end: so the time stamper sees the end of the file as
  soon as the solver and its descendants have closed the pipe.
\<close>

theorem solver_output_piped:
  assumes "run_setup os sysfs affinity world rs l = Inr (Inr (cfds, rl, out), Inr (rs', pfds, aff))"
    and "timeStamping rs" and "\<not> usePTY rs"
    and "no_pipe (fd_of l)" and "standard_open (fd_of l)" and "\<forall>n\<ge>3. fd_of l n = None"
  shows "(\<forall>n. cfds n = Some Pipe_write \<longleftrightarrow> n = 1 \<or> n = 2) \<and> (\<forall>n. cfds n \<noteq> Some Pipe_read) \<and>
     (\<forall>n. pfds n \<noteq> Some Pipe_write) \<and> (\<exists>r. pfds r = Some Pipe_read \<and> r \<in> ts_watcher (tStamp rs'))"
proof -
  let ?rs = "on_watcher (setChildReaper True) rs"
  obtain rs1 l1 world1 where s: "start_stamping os world ?rs l = Inr (rs1, l1, world1)"
    "child_setup os rs1 l1 = Inr (cfds, rl, out)" "parent_setup sysfs affinity rs1 l1 = Inr (rs', pfds, aff)"
    using assms(1,2) by (auto simp: run_setup_def check_subreaper_def return_iff on_watcher_def split: if_splits)
  have "\<not> usePTY ?rs" "timeStamping ?rs" using assms(2,3) by (simp_all add: on_watcher_def)
  from start_stamping_effect [OF s(1) this(1) assms(4-6)] this(2) obtain g r w where
    l1: "l1 = l\<lparr>fd_of := g(r := Some Pipe_read, w := Some Pipe_write), redir_read := r, redir_write := w\<rparr>"
      "r \<noteq> w" "r \<notin> {0, 1, 2}" "w \<notin> {0, 1, 2}" "no_pipe g" "standard_open g" "r \<in> ts_watcher (tStamp rs1)"
      "timeStamping rs1" "\<not> usePTY rs1" by auto
  let ?f = "g(r := Some Pipe_read, w := Some Pipe_write)"
  obtain f1 where f1: "redirect_input os rs1 ?f = Inr f1" "cfds = to_pipe l1 f1"
    using s(2) l1(1,8,9)
    by (auto simp: child_setup_def return_iff redirect_output_def split: option.splits prod.splits)
  have "?f 0 \<noteq> None" using l1(3,4,6) by (auto simp: standard_open_def)
  note i = redirect_input_effect [OF f1(1) this]
  have 0: "f1 0 \<noteq> Some Pipe_read" "f1 0 \<noteq> Some Pipe_write"
    using i(2) l1(3-5) by (auto simp: no_pipe_def)
  have n: "f1 n = ?f n" if "n \<noteq> 0" for n using i(1) that by blast
  have "f1 w = Some Pipe_write" using n [of w] l1(4) by auto
  then have c: "cfds = (f1(r := None, 1 := Some Pipe_write, w := None, 2 := Some Pipe_write))"
    using f1(2) l1(1-4) by (auto simp: to_pipe_def sys_close_def sys_dup2_def fun_eq_iff)
  have others: "f1 k \<noteq> Some Pipe_read \<and> f1 k \<noteq> Some Pipe_write" if "k \<noteq> r" "k \<noteq> w" for k
    using 0 n [of k] that l1(5) by (cases "k = 0") (auto simp: no_pipe_def)
  have "(\<forall>n. cfds n = Some Pipe_write \<longleftrightarrow> n = 1 \<or> n = 2) \<and> (\<forall>n. cfds n \<noteq> Some Pipe_read)"
    using others l1(2-4) unfolding c by auto
  moreover have "pfds = ?f(0 := None, w := None)" "tStamp rs' = tStamp rs1"
    using s(3) l1(1,8,9) by (auto simp: parent_setup_def return_iff sys_close_def on_watcher_def Let_def)
  ultimately show ?thesis using l1(2-5,7) by (auto simp: no_pipe_def)
qed

text \<open>A run with stamping whose output goes to a file; the descriptors 0 to 2 are open.\<close>

definition demo_launch :: launch_system where
  "demo_launch = rlimit_system.extend demo_limits
     (launch_system.fields (\<lambda>_. None) False None None False)"

definition demo_fds :: launch where
  "demo_fds = \<lparr>fd_of = \<lambda>n. if 0 \<le> n \<and> n < 3 then Some (Inherited n) else None,
     redir_read = 0, redir_write = 0, ptymaster = 0\<rparr>"

definition demo_settings :: "runsolver \<Rightarrow> runsolver" where
  "demo_settings rs = rs\<lparr>timeStamping := True, usePTY := False, rs_limits := [],
     inputRedirectionFilename := None, outputRedirectionFilename := Some ''solver.out'',
     limitedOutputMaxSize := 0\<rparr>"

lemma lowest_free_eq:
  assumes "fds (int n) = None" and "\<And>i. i < n \<Longrightarrow> fds (int i) \<noteq> None" and "n < fd_limit"
  shows "lowest_free fds = Some (int n)"
proof -
  have "List.find (\<lambda>n. fds (int n) = None) [0..<fd_limit] = Some n"
    unfolding find_Some_iff using assms by (auto intro!: exI [of _ n])
  then show ?thesis by (simp add: lowest_free_def)
qed

lemma demo_launch_runs:
  "\<exists>cfds rl out rs' pfds aff. run_setup demo_launch (\<lambda>_. None) {} world (demo_settings rs) demo_fds =
     Inr (Inr (cfds, rl, out), Inr (rs', pfds, aff))"
proof -
  let ?t = "fd_of demo_fds"
  have "lowest_free ?t = Some (int 3)"
    by (rule lowest_free_eq) (auto simp: demo_fds_def fd_limit_def)
  then have o: "open_named demo_launch what ''solver.out'' ?t = Inr (3, ?t(3 := Some (Named ''solver.out'')))" for what
    by (simp add: open_named_def sys_open_def demo_launch_def launch_system.defs rlimit_system.defs demo_limits_def)
  let ?u = "?t(3 := Some (Named ''solver.out''))"
  have "lowest_free ?u = Some (int 4)"
    by (rule lowest_free_eq) (auto simp: demo_fds_def fd_limit_def)
  moreover have "lowest_free (?u(4 := Some Pipe_read)) = Some (int 5)"
    by (rule lowest_free_eq) (auto simp: demo_fds_def fd_limit_def)
  ultimately have p: "make_pipe (demo_fds\<lparr>fd_of := ?u\<rparr>) = demo_fds\<lparr>fd_of := ?u(4 := Some Pipe_read, 5 := Some Pipe_write),
      redir_read := 4, redir_write := 5\<rparr>"
    by (simp add: make_pipe_def sys_open_def)
  have cores: "getAllocatedCoresByProcessorOrder (\<lambda>_. None) {} = Inr []"
    unfolding getAllocatedCoresByProcessorOrder_def
    by (rule processor_order_loop_idle) simp_all
  show ?thesis
    using o p cores
    by (auto simp: run_setup_def check_subreaper_def start_stamping_def child_setup_def redirect_input_def
        redirect_output_def parent_setup_def demo_settings_def on_watcher_def Let_def split: prod.splits)
      (simp add: demo_launch_def launch_system.defs rlimit_system.defs)
qed

theorem solver_output_piped_witness:
  "\<forall>world rs. \<exists>cfds rl out rs' pfds aff.
     run_setup demo_launch (\<lambda>_. None) {} world (demo_settings rs) demo_fds =
       Inr (Inr (cfds, rl, out), Inr (rs', pfds, aff)) \<and>
     cfds 1 = Some Pipe_write \<and> cfds 2 = Some Pipe_write \<and> (\<forall>n. pfds n \<noteq> Some Pipe_write)"
proof (intro allI, goal_cases)
  case (1 world rs)
  obtain cfds rl out rs' pfds aff where r:
    "run_setup demo_launch (\<lambda>_. None) {} world (demo_settings rs) demo_fds =
       Inr (Inr (cfds, rl, out), Inr (rs', pfds, aff))"
    using demo_launch_runs [of world rs] by blast
  have "timeStamping (demo_settings rs)" "\<not> usePTY (demo_settings rs)" "no_pipe (fd_of demo_fds)"
    "standard_open (fd_of demo_fds)" "\<forall>n\<ge>3. fd_of demo_fds n = None"
    by (simp_all add: demo_settings_def demo_fds_def no_pipe_def standard_open_def)
  from solver_output_piped [OF r this] r show ?case by blast
qed

text \<open>
  The CPU time limit that the kernel enforces on the solver comes 30 seconds after
  the one at which the watcher stops it, whatever limits were set before.
\<close>

theorem kernel_cpu_limit_later:
  assumes "rs_setCPULimit sec rs = Inr rs'" and "0 \<le> sec"
    and "\<And>r. \<not> get_fails os r" and "\<And>r rl. \<not> set_fails os r rl"
  shows "limitCPUTime (rs_watcher rs') = flt (of_int sec) \<and>
     uint (rlim_cur (in_force (enforce_all (rs_limits rs') os) rlimit_cpu)) = sec + 30"
proof -
  have b: "sec + 30 < 2 ^ 31" using assms(1) by (auto simp: rs_setCPULimit_def return_iff c_int_def Let_def split: if_splits)
  then have rs': "rs' = addLimit (HardCPULimit (raw_limit rs) (word_of_int (sec + 30)))
      (addLimit (SoftCPULimit (raw_limit rs) (word_of_int sec)) (on_watcher (setCPULimit sec) rs))"
    using assms(1,2) by (auto simp: rs_setCPULimit_def return_iff c_int_def Let_def on_watcher_def addLimit_def split: if_splits)
  define before where "before = enforce_all (rs_limits rs @ [SoftCPULimit (raw_limit rs) (word_of_int sec)]) os"
  have keep: "(\<forall>r. \<not> get_fails o' r) \<and> (\<forall>r rl. \<not> set_fails o' r rl) \<longrightarrow>
      (\<forall>r. \<not> get_fails (enforce_all ls o') r) \<and> (\<forall>r rl. \<not> set_fails (enforce_all ls o') r rl)" for ls o'
    by (induction ls arbitrary: o') (simp_all add: enforce_all_def enforceLimit_def Let_def)
  have f: "\<not> get_fails before r" "\<not> set_fails before r rl" for r rl
    using keep [of os "rs_limits rs @ [SoftCPULimit (raw_limit rs) (word_of_int sec)]"] assms(3,4)
    by (simp_all add: before_def)
  have "enforce_all (rs_limits rs') os = enforceLimit (HardCPULimit (raw_limit rs) (word_of_int (sec + 30))) before"
    unfolding rs' before_def by (simp add: addLimit_def on_watcher_def enforce_all_def)
  then have "rlim_cur (in_force (enforce_all (rs_limits rs') os) rlimit_cpu) = word_of_int (sec + 30)"
    using f by (simp add: enforceLimit_def HardCPULimit_def setLimit_def base_limit_def rlimit_cpu_def Let_def)
  moreover have "uint (word_of_int (sec + 30) :: u64) = sec + 30"
    using assms(2) b by (intro uint_of_small) simp_all
  moreover have "limitCPUTime (rs_watcher rs') = flt (of_int sec)"
    unfolding rs' by (simp add: addLimit_def on_watcher_def setCPULimit_def)
  ultimately show ?thesis by simp
qed

theorem kernel_cpu_limit_later_witness:
  "\<forall>rs. \<exists>rs'. rs_setCPULimit 100 rs = Inr rs' \<and>
     uint (rlim_cur (in_force (enforce_all (rs_limits rs') demo_limits) rlimit_cpu)) = 130"
proof
  fix rs
  obtain rs' where r: "rs_setCPULimit 100 rs = Inr rs'" by (simp add: rs_setCPULimit_def c_int_def Let_def)
  from kernel_cpu_limit_later [OF r, of demo_limits] r
  show "\<exists>rs'. rs_setCPULimit 100 rs = Inr rs' \<and>
     uint (rlim_cur (in_force (enforce_all (rs_limits rs') demo_limits) rlimit_cpu)) = 130"
    by (auto simp: demo_limits_def)
qed

end
