(* ===== verification/Aeatk.thy ===== *)
theory Aeatk
  imports Runsolver
begin

text \<open>
  aeatk.c of runsolver-3.3.4-patched: the CPU time of the solver that is sent to a port of the
  local machine, and the core that is chosen by the number of a concurrent task. Both are
  controlled by environment variables; \<open>env\<close> is the result of getenv.
\<close>

section \<open>State\<close>

text \<open>
  A double that strtod may return. Numbers are decimal, with fraction and exponent; the
  hexadecimal form is not read.
\<close>

datatype c_double = Finite rat | Infinite bool | Not_a_number

definition lower :: "char \<Rightarrow> char" where
  "lower c = (if 65 \<le> code_of c \<and> code_of c \<le> 90 then char_of (code_of c + 32) else c)"

definition scan_exponent :: "string \<Rightarrow> int" where
  "scan_exponent s =
     (case s of
        [] \<Rightarrow> 0
      | c # r \<Rightarrow> if lower c = CHR ''e'' \<and> r \<noteq> [] \<and> \<not> isspace (hd r)
          then case scan_int r of None \<Rightarrow> 0 | Some (v, _) \<Rightarrow> v else 0)"

definition c_strtod :: "string \<Rightarrow> c_double" where
  "c_strtod s =
     (let s = dropWhile isspace s;
          minus = (s \<noteq> [] \<and> hd s = CHR ''-'');
          s = (if s \<noteq> [] \<and> (minus \<or> hd s = CHR ''+'') then tl s else s);
          ds = takeWhile isdigit s; r = dropWhile isdigit s;
          point = (r \<noteq> [] \<and> hd r = CHR ''.'');
          fs = (if point then takeWhile isdigit (tl r) else []);
          r = (if point then dropWhile isdigit (tl r) else r);
          v = of_nat (digits_value (ds @ fs)) / 10 ^ length fs * 10 powi scan_exponent r
      in if map lower (take 3 s) = ''inf'' then Infinite minus
         else if map lower (take 3 s) = ''nan'' then Not_a_number
         else if ds @ fs = [] then Finite 0
         else Finite (dbl (if minus then - v else v)))"

text \<open>The comparisons \<open>d < 1\<close> and \<open>t > d\<close>; both are false for a value that is not a number.\<close>

fun below_one :: "c_double \<Rightarrow> bool" where
  "below_one (Finite d) \<longleftrightarrow> d < 1"
| "below_one (Infinite neg) \<longleftrightarrow> neg"
| "below_one Not_a_number \<longleftrightarrow> False"

fun exceeds :: "int \<Rightarrow> c_double \<Rightarrow> bool" where
  "exceeds t (Finite d) \<longleftrightarrow> d < dbl (of_int t)"
| "exceeds t (Infinite neg) \<longleftrightarrow> neg"
| "exceeds t Not_a_number \<longleftrightarrow> False"

text \<open>
  The static variables of writeCPUTimeToSocket, with their initial values. The strings of the
  environment do not change, so that they need no variables. The address is the port that was
  put into servaddr.
\<close>

record aeatk =
  noMessageDisplay :: int
  updateFreqDbl :: c_double
  lastUpdate :: int
  sockfd :: int
  servaddr :: int

definition aeatk_init :: aeatk where
  "aeatk_init = \<lparr>noMessageDisplay = 0, updateFreqDbl = Finite 1, lastUpdate = - 1, sockfd = - 1, servaddr = 0\<rparr>"

text \<open>What it does: a text on stdout, and a datagram to a port through a socket. The socket may be
  -1, when it could not be made; then nothing is sent.\<close>

datatype aeatk_event = Said string | Datagram int int string

section \<open>writeCPUTimeToSocket\<close>

text \<open>
  The arguments \<open>sock\<close>, \<open>t1\<close> and \<open>t2\<close> are what socket and the two calls of time return in this
  call. The time becomes an int when it is stored. The buffer has 100 bytes.
\<close>

definition said_once :: "string \<Rightarrow> aeatk \<Rightarrow> aeatk_event list \<times> aeatk" where
  "said_once msg a =
     (if noMessageDisplay a = 0 then ([Said msg], a\<lparr>noMessageDisplay := noMessageDisplay a + 1\<rparr>) else ([], a))"

definition aeatk_socket :: "int \<Rightarrow> int \<Rightarrow> aeatk \<Rightarrow> aeatk" where
  "aeatk_socket sock port a = (if sockfd a = - 1 then a\<lparr>sockfd := sock, servaddr := port\<rparr> else a)"

definition read_frequency :: "string option \<Rightarrow> aeatk \<Rightarrow> aeatk" where
  "read_frequency updateFreq a =
     (case updateFreq of
        None \<Rightarrow> a
      | Some s \<Rightarrow>
          let d = c_strtod s
          in a\<lparr>updateFreqDbl := if below_one d then Finite 1 else d\<rparr>)"

definition c_double_text :: "c_double \<Rightarrow> string" where
  "c_double_text d =
     (case d of Finite x \<Rightarrow> fixed 3 x | Infinite m \<Rightarrow> if m then ''-inf'' else ''inf'' | Not_a_number \<Rightarrow> ''nan'')"

definition send_time :: "int \<Rightarrow> int \<Rightarrow> rat \<Rightarrow> aeatk \<Rightarrow> (aeatk_event list \<times> aeatk) result" where
  "send_time port t2 cpu a =
     (let a = a\<lparr>lastUpdate := sint (word_of_int t2 :: i32)\<rparr>;
          buf = fixed 6 cpu @ [newline]
      in if 100 \<le> length buf then Inl (Undefined ''buf'')
         else
           let (said, a) =
             (if 2 \<le> noMessageDisplay a
              then ([Said (''[AEATK] Sending CPUTime updates to 127.0.0.1 on port '' @ dec_int port @
                     '' every '' @ c_double_text (updateFreqDbl a) @ '' seconds, last time '' @
                     fixed 3 cpu @ '' '' @ [newline, newline])],
                    a\<lparr>noMessageDisplay := noMessageDisplay a + 1\<rparr>)
              else ([], a))
           in Inr (said @ [Datagram (sockfd a) (servaddr a) buf], a))"

definition writeCPUTimeToSocket ::
  "(string \<Rightarrow> string option) \<Rightarrow> int \<Rightarrow> int \<Rightarrow> int \<Rightarrow> rat \<Rightarrow> aeatk \<Rightarrow> (aeatk_event list \<times> aeatk) result" where
  "writeCPUTimeToSocket env sock t1 t2 cpu a =
     (case env ''AEATK_PORT'' of
        None \<Rightarrow>
          Inr (said_once (''[AEATK] No environment variable \"AEATK_PORT\" detected not sending updates'' @
            [newline, newline]) a)
      | Some portstr \<Rightarrow>
          let port = c_atoi portstr in
          if port < 1024 \<or> 65535 < port then
            Inr (said_once (''[AEATK] Invalid port set in \"AEATK_PORT\" must be in [1024, 65535]'' @
              [newline, newline]) a)
          else
            let a = aeatk_socket sock port a;
                a = read_frequency (env ''AEATK_CPU_TIME_FREQUENCY'') a
            in if exceeds (t1 - lastUpdate a) (updateFreqDbl a) then send_time port t2 cpu a else Inr ([], a))"

section \<open>updateCores\<close>

text \<open>
  The new affinity and the text. \<open>refused\<close>: sched_setaffinity fails. A core number is an index into
  the list of cores in the order of their processors.
\<close>

definition c_strtoul :: "string \<Rightarrow> u64" where
  "c_strtoul s = (case scan_int s of None \<Rightarrow> 0 | Some (v, _) \<Rightarrow> ulong_of v)"

definition updateCores ::
  "(string \<Rightarrow> string option) \<Rightarrow> topology \<Rightarrow> (cpu_set \<Rightarrow> bool) \<Rightarrow> cpu_set \<Rightarrow> (cpu_set \<times> string) result" where
  "updateCores env sysfs refused affinity =
     (if env ''AEATK_SET_TASK_AFFINITY'' \<noteq> Some ''1'' then
        Inr (affinity, ''[AEATK] No environment variable \"AEATK_SET_TASK_AFFINITY\" detected, cores will be treated normally'' @
          [newline, newline])
      else
        case env ''AEATK_CONCURRENT_TASK_ID'' of
          None \<Rightarrow>
            Inr (affinity, ''[AEATK] No environment variable \"AEATK_CONCURRENT_TASK_ID\" detected, cores are treated normally'' @
              [newline, newline])
        | Some taskstr \<Rightarrow>
            let taskid = unat (ucast (c_strtoul taskstr) :: u32) in
            and_then (getAllocatedCoresByProcessorOrder sysfs affinity) (\<lambda>cores2.
              if length cores2 \<le> taskid then Inl (Exit 1)
              else
                let mask = affinityMask [cores2 ! taskid] in
                if refused mask then Inl (Exit 1)
                else Inr (mask,
                  ''[AEATK] This version of runsolver restricts subprocesses to only one core when \"AEATK_CONCURRENT_TASK_ID\" is set.'' @
                  [newline])))"

section \<open>Sequences of calls\<close>

type_synonym aeatk_call = "int \<times> int \<times> int \<times> rat"

fun aeatk_calls ::
  "(string \<Rightarrow> string option) \<Rightarrow> aeatk_call list \<Rightarrow> aeatk \<Rightarrow> (aeatk_event list list \<times> aeatk) result" where
  "aeatk_calls env [] a = Inr ([], a)"
| "aeatk_calls env ((sock, t1, t2, cpu) # cs) a =
     and_then (writeCPUTimeToSocket env sock t1 t2 cpu a) (\<lambda>(ev, a).
     and_then (aeatk_calls env cs a) (\<lambda>(evs, a). Inr (ev # evs, a)))"

definition port_of :: "(string \<Rightarrow> string option) \<Rightarrow> int option" where
  "port_of env = (case env ''AEATK_PORT'' of None \<Rightarrow> None
     | Some s \<Rightarrow> if 1024 \<le> c_atoi s \<and> c_atoi s \<le> 65535 then Some (c_atoi s) else None)"

definition interval_of :: "(string \<Rightarrow> string option) \<Rightarrow> c_double" where
  "interval_of env = (case env ''AEATK_CPU_TIME_FREQUENCY'' of None \<Rightarrow> Finite 1
     | Some s \<Rightarrow> if below_one (c_strtod s) then Finite 1 else c_strtod s)"

definition sends :: "aeatk_event list \<Rightarrow> bool" where
  "sends ev \<longleftrightarrow> (\<exists>e\<in>set ev. case e of Datagram _ _ _ \<Rightarrow> True | Said _ \<Rightarrow> False)"

text \<open>The two readings of the clock in the calls that send, in their order.\<close>

definition send_times :: "aeatk_call list \<Rightarrow> aeatk_event list list \<Rightarrow> (int \<times> int) list" where
  "send_times cs evs =
     map (\<lambda>((_, t1, t2, _), ev). (t1, t2)) (filter (\<lambda>(c, ev). sends ev) (zip cs evs))"

definition clock_readings :: "aeatk_call list \<Rightarrow> int list" where
  "clock_readings cs = concat (map (\<lambda>(_, t1, t2, _). [t1, t2]) cs)"

text \<open>The state between calls: a message at most once, and one address.\<close>

definition aeatk_ok :: "(string \<Rightarrow> string option) \<Rightarrow> aeatk \<Rightarrow> bool" where
  "aeatk_ok env a \<longleftrightarrow> (noMessageDisplay a = 0 \<or> noMessageDisplay a = 1) \<and>
     (updateFreqDbl a = Finite 1 \<or> updateFreqDbl a = interval_of env) \<and>
     (sockfd a \<noteq> - 1 \<longrightarrow> port_of env = Some (servaddr a))"

lemma exceeds_mono: "exceeds t d \<Longrightarrow> t \<le> t' \<Longrightarrow> exceeds t' d"
  using fl_mono [of "of_int t" "of_int t'" 53] by (cases d) auto

lemma aeatk_init_ok: "aeatk_ok env aeatk_init"
  by (simp add: aeatk_ok_def aeatk_init_def)

text \<open>One call: when it sends, what it sends, and the state after it.\<close>

lemma read_frequency_interval:
  assumes "aeatk_ok env a"
  shows "updateFreqDbl (read_frequency (env ''AEATK_CPU_TIME_FREQUENCY'') (aeatk_socket sock port a)) = interval_of env"
  using assms
  by (auto simp: aeatk_ok_def read_frequency_def aeatk_socket_def interval_of_def Let_def split: option.splits)

lemma call_without_port:
  assumes "port_of env = None" and "writeCPUTimeToSocket env sock t1 t2 cpu a = Inr (ev, a')" and "aeatk_ok env a"
  shows "\<not> sends ev \<and> aeatk_ok env a' \<and> lastUpdate a' = lastUpdate a \<and>
     int (length ev) = noMessageDisplay a' - noMessageDisplay a"
  using assms
  by (auto simp: port_of_def writeCPUTimeToSocket_def said_once_def sends_def aeatk_ok_def Let_def
      split: option.splits if_splits)

lemma call_with_port:
  assumes port: "port_of env = Some p" and run: "writeCPUTimeToSocket env sock t1 t2 cpu a = Inr (ev, a')"
    and ok: "aeatk_ok env a"
  shows "aeatk_ok env a' \<and> noMessageDisplay a' = noMessageDisplay a \<and>
     (if exceeds (t1 - lastUpdate a) (interval_of env)
      then ev = [Datagram (sockfd a') p (fixed 6 cpu @ [newline])] \<and> lastUpdate a' = sint (word_of_int t2 :: i32)
      else ev = [] \<and> lastUpdate a' = lastUpdate a)"
proof -
  from port obtain s where s: "env ''AEATK_PORT'' = Some s" "c_atoi s = p" "\<not> (p < 1024 \<or> 65535 < p)"
    by (auto simp: port_of_def split: option.splits if_splits)
  define b where "b = read_frequency (env ''AEATK_CPU_TIME_FREQUENCY'') (aeatk_socket sock p a)"
  have b: "updateFreqDbl b = interval_of env" "servaddr b = p" "noMessageDisplay b = noMessageDisplay a"
    "lastUpdate b = lastUpdate a" "aeatk_ok env b"
    using ok port read_frequency_interval [OF ok, of sock p]
    by (auto simp: b_def read_frequency_def aeatk_socket_def aeatk_ok_def Let_def split: option.splits)
  from ok have "\<not> 2 \<le> noMessageDisplay a" by (auto simp: aeatk_ok_def)
  with run s b show ?thesis
    by (auto simp: writeCPUTimeToSocket_def send_time_def aeatk_ok_def Let_def simp flip: b_def split: if_splits)
qed

lemma aeatk_calls_Cons:
  "aeatk_calls env ((sock, t1, t2, cpu) # cs) a = Inr (evs, a') \<longleftrightarrow>
     (\<exists>ev b evs'. writeCPUTimeToSocket env sock t1 t2 cpu a = Inr (ev, b) \<and>
        aeatk_calls env cs b = Inr (evs', a') \<and> evs = ev # evs')"
  by (auto simp: return_iff)

lemma call_keeps_ok:
  "writeCPUTimeToSocket env sock t1 t2 cpu a = Inr (ev, b) \<Longrightarrow> aeatk_ok env a \<Longrightarrow> aeatk_ok env b"
  using call_without_port [of env sock t1 t2 cpu a ev b] call_with_port [of env _ sock t1 t2 cpu a ev b]
  by (cases "port_of env") auto

text \<open>What a sequence of calls does, without and with a port.\<close>

lemma calls_without_port:
  assumes "port_of env = None" and "aeatk_calls env cs a = Inr (evs, a')" and "aeatk_ok env a"
  shows "int (length (concat evs)) = noMessageDisplay a' - noMessageDisplay a \<and> (\<forall>ev\<in>set evs. \<not> sends ev) \<and>
     aeatk_ok env a'"
  using assms(2,3)
proof (induction cs arbitrary: a evs)
  case (Cons c cs)
  obtain sock t1 t2 cpu where c: "c = (sock, t1, t2, cpu)" by (cases c)
  from Cons.prems(1) obtain ev b evs' where w: "writeCPUTimeToSocket env sock t1 t2 cpu a = Inr (ev, b)"
    and r: "aeatk_calls env cs b = Inr (evs', a')" and evs: "evs = ev # evs'"
    unfolding c aeatk_calls_Cons by blast
  from call_without_port [OF assms(1) w Cons.prems(2)] Cons.IH [OF r] show ?case by (auto simp: evs)
qed simp

lemma calls_with_port:
  assumes "port_of env = Some p" and "aeatk_calls env cs a = Inr (evs, a')" and "aeatk_ok env a"
  shows "list_all2 (\<lambda>(_, _, _, cpu) ev. \<forall>e\<in>set ev. \<exists>s. e = Datagram s p (fixed 6 cpu @ [newline])) cs evs"
  using assms(2,3)
proof (induction cs arbitrary: a evs)
  case (Cons c cs)
  obtain sock t1 t2 cpu where c: "c = (sock, t1, t2, cpu)" by (cases c)
  from Cons.prems(1) obtain ev b evs' where w: "writeCPUTimeToSocket env sock t1 t2 cpu a = Inr (ev, b)"
    and r: "aeatk_calls env cs b = Inr (evs', a')" and evs: "evs = ev # evs'"
    unfolding c aeatk_calls_Cons by blast
  from call_with_port [OF assms(1) w Cons.prems(2)] Cons.IH [OF r] show ?case
    by (auto simp: evs c split: if_splits)
qed simp

lemma spaced_from:
  assumes "aeatk_calls env cs a = Inr (evs, a')" and "aeatk_ok env a" and "sorted (clock_readings cs)"
    and "\<forall>t\<in>set (clock_readings cs). lastUpdate a \<le> t \<and> 0 \<le> t \<and> t < 2 ^ 31"
  shows "sorted_wrt (\<lambda>(_, s2) (t1, _). exceeds (t1 - s2) (interval_of env)) (send_times cs evs) \<and>
     (\<forall>(t1, _)\<in>set (send_times cs evs). exceeds (t1 - lastUpdate a) (interval_of env))"
  using assms
proof (induction cs arbitrary: a evs)
  case Nil
  then show ?case by (simp add: send_times_def)
next
  case (Cons c cs)
  obtain sock t1 t2 cpu where c: "c = (sock, t1, t2, cpu)" by (cases c)
  from Cons.prems(1) obtain ev b evs' where
    w: "writeCPUTimeToSocket env sock t1 t2 cpu a = Inr (ev, b)" and r: "aeatk_calls env cs b = Inr (evs', a')"
    and evs: "evs = ev # evs'"
    unfolding c aeatk_calls_Cons by blast
  have t: "lastUpdate a \<le> t1" "t1 \<le> t2" "0 \<le> t2" "t2 < 2 ^ 31" "\<forall>t\<in>set (clock_readings cs). t2 \<le> t"
    "sorted (clock_readings cs)"
    using Cons.prems(3,4) c by (auto simp: clock_readings_def)
  have times: "send_times (c # cs) evs = (if sends ev then [(t1, t2)] else []) @ send_times cs evs'"
    by (simp add: send_times_def c evs)
  have b: "aeatk_ok env b \<and> (if sends ev then exceeds (t1 - lastUpdate a) (interval_of env) \<and> lastUpdate b = t2
      else lastUpdate b = lastUpdate a)"
  proof (cases "port_of env")
    case None
    from call_without_port [OF None w Cons.prems(2)] show ?thesis by simp
  next
    case (Some p)
    have "sint (word_of_int t2 :: i32) = t2"
      using t(3,4) by (simp add: sint_of_int_i32)
    with call_with_port [OF Some w Cons.prems(2)] show ?thesis
      by (auto simp: sends_def split: if_splits)
  qed
  then have "\<forall>t\<in>set (clock_readings cs). lastUpdate b \<le> t \<and> 0 \<le> t \<and> t < 2 ^ 31"
    using t Cons.prems(4) c by (auto simp: clock_readings_def split: if_splits)
  note IH = Cons.IH [OF r conjunct1 [OF b] t(6) this]
  show ?case
  proof (cases "sends ev")
    case True
    have "exceeds (u - lastUpdate a) (interval_of env)" if m: "(u, v) \<in> set (send_times cs evs')" for u v
    proof (rule exceeds_mono)
      have "lastUpdate b = t2" using b True by simp
      with bspec [OF conjunct2 [OF IH] m] show "exceeds (u - t2) (interval_of env)" by simp
    qed (use t(1,2) in simp)
    with IH b True show ?thesis by (auto simp: times)
  next
    case False
    with IH b show ?thesis by (simp add: times)
  qed
qed

section \<open>Properties\<close>

text \<open>
  Property C26: datagrams are spaced. As long as the clock fits into an int and does not go back, two
  datagrams are more than the interval of the environment apart (more than a second when there is
  none or it is smaller), however often the function is called and whatever sockets it gets.
\<close>

theorem datagrams_spaced:
  assumes "aeatk_calls env cs aeatk_init = Inr (evs, a)" and "sorted (clock_readings cs)"
    and "\<forall>t\<in>set (clock_readings cs). 0 \<le> t \<and> t < 2 ^ 31"
  shows "sorted_wrt (\<lambda>(_, s2) (t1, _). exceeds (t1 - s2) (interval_of env)) (send_times cs evs)"
proof -
  have "\<forall>t\<in>set (clock_readings cs). lastUpdate aeatk_init \<le> t \<and> 0 \<le> t \<and> t < 2 ^ 31"
    using assms(3) by (fastforce simp: aeatk_init_def)
  from spaced_from [OF assms(1) aeatk_init_ok assms(2) this] show ?thesis by blast
qed

definition port_5000 :: "string \<Rightarrow> string option" where
  "port_5000 = [''AEATK_PORT'' \<mapsto> ''5000'', ''AEATK_CPU_TIME_FREQUENCY'' \<mapsto> ''2.5'']"

text \<open>Three calls, of which the second comes too early.\<close>

definition three_calls :: "aeatk_call list" where
  "three_calls = [(7, 1000, 1000, 1), (8, 1002, 1002, 2), (9, 1003, 1004, 3)]"

definition three_results :: "aeatk_event list list" where
  "three_results = [[Datagram 7 5000 (''1.000000'' @ [newline])], [], [Datagram 7 5000 (''3.000000'' @ [newline])]]"

lemma port_5000_values:
  "c_atoi ''5000'' = 5000" "c_strtod ''2.5'' = Finite (5 / 2)"
proof -
  have "scan_int ''5000'' = Some (5000, [])" by code_simp
  then show "c_atoi ''5000'' = 5000" by (simp add: c_atoi_def c_atol_def sint_of_int_i32)
  show "c_strtod ''2.5'' = Finite (5 / 2)" by code_simp
qed

lemma three_times: "fixed 6 1 = ''1.000000''" "fixed 6 3 = ''3.000000''"
proof -
  have digits: "digit_char 0 = CHR ''0''" "digit_char (Suc 0) = CHR ''1''" "digit_char 3 = CHR ''3''"
    "replicate 5 (CHR ''0'') = ''00000''" by code_simp+
  show "fixed 6 1 = ''1.000000''" "fixed 6 3 = ''3.000000''"
    using round_even_of_int [of 1000000] round_even_of_int [of 3000000]
    by (simp_all add: fixed_def Let_def pad_left_def dec_nat_small digits)
qed

lemma dbl_numeral: "numeral n < (2 :: int) ^ 53 \<Longrightarrow> dbl (numeral n) = numeral n"
  using fl_of_int [of "numeral n" 53] by simp

lemma three_calls_run:
  "aeatk_calls port_5000 three_calls aeatk_init = Inr (three_results,
     \<lparr>noMessageDisplay = 0, updateFreqDbl = Finite (5 / 2), lastUpdate = 1004, sockfd = 7, servaddr = 5000\<rparr>)"
  by (simp add: three_calls_def three_results_def port_5000_def aeatk_init_def writeCPUTimeToSocket_def
      port_5000_values aeatk_socket_def read_frequency_def send_time_def three_times dbl_numeral Let_def sint_of_int_i32)

theorem datagrams_spaced_witness:
  "sorted_wrt (\<lambda>(_, s2) (t1, _). exceeds (t1 - s2) (interval_of port_5000)) (send_times three_calls three_results) \<and>
   send_times three_calls three_results = [(1000, 1000), (1003, 1004)]"
proof
  show "sorted_wrt (\<lambda>(_, s2) (t1, _). exceeds (t1 - s2) (interval_of port_5000)) (send_times three_calls three_results)"
    by (rule datagrams_spaced [OF three_calls_run]) (simp_all add: three_calls_def clock_readings_def)
  show "send_times three_calls three_results = [(1000, 1000), (1003, 1004)]"
    by (simp add: send_times_def three_calls_def three_results_def sends_def)
qed

text \<open>
  With a valid port, every call sends the time it is given, and nothing else, to that
  port or does nothing; without one nothing is sent. One of two messages is printed at most once, so
  the message about the interval is never printed: its guard \<open>noMessageDisplay >= 2\<close> cannot hold.
\<close>

theorem only_datagrams:
  assumes "aeatk_calls env cs aeatk_init = Inr (evs, a)"
  shows "case port_of env of
      None \<Rightarrow> length (concat evs) \<le> 1 \<and> (\<forall>ev\<in>set evs. \<not> sends ev)
    | Some p \<Rightarrow> list_all2 (\<lambda>(_, _, _, cpu) ev. \<forall>e\<in>set ev. \<exists>s. e = Datagram s p (fixed 6 cpu @ [newline])) cs evs"
proof (cases "port_of env")
  case None
  note quiet = calls_without_port [OF None assms aeatk_init_ok]
  then have "int (length (concat evs)) = noMessageDisplay a" "noMessageDisplay a \<le> 1"
    by (auto simp: aeatk_ok_def aeatk_init_def)
  then have "length (concat evs) \<le> 1" by linarith
  with quiet show ?thesis by (simp add: None)
next
  case (Some p)
  from calls_with_port [OF Some assms aeatk_init_ok] show ?thesis by (simp add: Some)
qed

theorem only_datagrams_witness:
  "list_all2 (\<lambda>(_, _, _, cpu) ev. \<forall>e\<in>set ev. \<exists>s. e = Datagram s 5000 (fixed 6 cpu @ [newline]))
     three_calls three_results"
proof -
  have "port_of port_5000 = Some 5000" by (simp add: port_of_def port_5000_def port_5000_values)
  with only_datagrams [OF three_calls_run] show ?thesis by simp
qed

lemma sint_after_2038:
  assumes "2 ^ 31 \<le> t" and "t < 2 ^ 32"
  shows "sint (word_of_int t :: i32) = t - 2 ^ 32"
proof -
  have "(of_int t :: i32) = of_int (t - 2 ^ 32)" by simp
  moreover have "sint (of_int (t - 2 ^ 32) :: i32) = t - 2 ^ 32" using assms by (intro sint_of_int_i32) simp_all
  ultimately show ?thesis by (simp only:)
qed

text \<open>The task with number i, when sched_setaffinity succeeds.\<close>

definition task_env :: "string \<Rightarrow> string \<Rightarrow> string option" where
  "task_env taskstr = [''AEATK_SET_TASK_AFFINITY'' \<mapsto> ''1'', ''AEATK_CONCURRENT_TASK_ID'' \<mapsto> taskstr]"

definition task_number :: "string \<Rightarrow> nat" where
  "task_number taskstr = unat (ucast (c_strtoul taskstr) :: u32)"

lemma updateCores_task:
  assumes "package_topology sysfs ids M" and "M \<subseteq> {..<cpu_setsize}" and "\<forall>m. \<not> refused m"
  shows "case updateCores (task_env s) sysfs refused M of
      Inl f \<Rightarrow> card M \<le> task_number s \<and> f = Exit 1
    | Inr (m, _) \<Rightarrow> task_number s < card M \<and> m = {by_processor ids M cpu_setsize ! task_number s}"
proof -
  note all = by_processor_all [OF assms(1,2)]
  have card: "card M = length (by_processor ids M cpu_setsize)"
    using distinct_card [OF all(1)] all(2) by simp
  have "by_processor ids M cpu_setsize ! task_number s < cpu_setsize" if "task_number s < card M"
    using that assms(2) all(2) unfolding card by (metis lessThan_iff nth_mem subsetD)
  then show ?thesis
    by (auto simp: updateCores_def task_env_def allocated_cores_eq [OF assms(1,2)] card assms(3) affinityMask_def
        cpu_set_core_def Let_def simp flip: task_number_def)
qed

text \<open>
  The seconds since 1970 are kept in an int. Once they do not fit any more, the time of a
  datagram is stored as a negative number, and the next call sends again whatever the interval is
  (up to 2 ^ 32 seconds), even in the same second.
\<close>

theorem unspaced_after_2038:
  assumes "writeCPUTimeToSocket env sock t1 t2 cpu a = Inr (ev, b)" and "sends ev" and "aeatk_ok env a"
    and "2 ^ 31 \<le> t2" and "t2 < 2 ^ 32" and "t2 \<le> t3" and "exceeds (2 ^ 32) (interval_of env)"
    and "writeCPUTimeToSocket env sock' t3 t4 cpu' b = Inr (ev', b')"
  shows "sends ev'"
proof -
  obtain p where p: "port_of env = Some p"
    using call_without_port [OF _ assms(1,3)] assms(2) by (cases "port_of env") auto
  have last: "lastUpdate b = t2 - 2 ^ 32" "aeatk_ok env b"
    using call_with_port [OF p assms(1,3)] assms(2) sint_after_2038 [OF assms(4,5)]
    by (auto simp: sends_def split: if_splits)
  have "exceeds (t3 - lastUpdate b) (interval_of env)"
    by (rule exceeds_mono [OF assms(7)]) (use assms(6) last(1) in linarith)
  with call_with_port [OF p assms(8) last(2)] show ?thesis by (simp add: sends_def)
qed

theorem unspaced_after_2038_witness:
  "\<exists>ev b ev' b'. writeCPUTimeToSocket port_5000 7 2200000000 2200000000 1 aeatk_init = Inr (ev, b) \<and>
     writeCPUTimeToSocket port_5000 8 2200000000 2200000000 3 b = Inr (ev', b') \<and> sends ev'"
proof -
  let ?a = "\<lparr>noMessageDisplay = 0, updateFreqDbl = Finite (5 / 2), lastUpdate = - 2094967296, sockfd = 7, servaddr = 5000\<rparr>"
  note calls = port_5000_def writeCPUTimeToSocket_def port_5000_values aeatk_socket_def read_frequency_def
    send_time_def three_times dbl_numeral Let_def sint_after_2038
  have 1: "writeCPUTimeToSocket port_5000 7 2200000000 2200000000 1 aeatk_init =
      Inr ([Datagram 7 5000 (''1.000000'' @ [newline])], ?a)"
    by (simp add: calls aeatk_init_def)
  have 2: "writeCPUTimeToSocket port_5000 8 2200000000 2200000000 3 ?a =
      Inr ([Datagram 7 5000 (''3.000000'' @ [newline])], ?a)"
    by (simp add: calls)
  have "interval_of port_5000 = Finite (5 / 2)" by (simp add: interval_of_def port_5000_def port_5000_values)
  then have "exceeds (2 ^ 32) (interval_of port_5000)" by (simp add: dbl_numeral)
  then have "sends [Datagram 7 5000 (''3.000000'' @ [newline])]"
    by (intro unspaced_after_2038 [OF 1 _ aeatk_init_ok _ _ _ _ 2]) (simp_all add: sends_def)
  with 1 2 show ?thesis by blast
qed



end
