(* ===== verification/Runsolver_334.thy ===== *)
theory Runsolver_334
  imports Launch Aeatk Rooted_Sampling
begin

text \<open>
  runsolver.cc, version 3.3.4-patched: the object RunSolver, the options of the program, and the run
  up to the first look at the processes. The classes of limits, the reader of core lists, the time
  stamping of the output and the child before execvp are those of 3.4.0.
\<close>

section \<open>The class RunSolver\<close>

text \<open>
  The members that gather data are the sampler. The members that 3.4.0 has under the same names are
  in \<open>base\<close>; the watcher, which is an object of its own in 3.4.0 only, is not used there.
\<close>

record runsolver_334 =
  base :: runsolver
  r4_sampler :: sampler
  procHistory_334 :: "rooted_tree history"
  delayBeforeKill_334 :: int
  cleanupAll_334 :: bool
  varOutput_334 :: "string option"

definition on_base :: "(runsolver \<Rightarrow> runsolver) \<Rightarrow> runsolver_334 \<Rightarrow> runsolver_334" where
  "on_base f rs = rs\<lparr>base := f (base rs)\<rparr>"

definition try_base :: "(runsolver \<Rightarrow> runsolver result) \<Rightarrow> runsolver_334 \<Rightarrow> runsolver_334 result" where
  "try_base f rs = and_then (f (base rs)) (\<lambda>b. Inr (rs\<lparr>base := b\<rparr>))"

definition on_sampler :: "(sampler \<Rightarrow> sampler) \<Rightarrow> runsolver_334 \<Rightarrow> runsolver_334" where
  "on_sampler f rs = rs\<lparr>r4_sampler := f (r4_sampler rs)\<rparr>"

text \<open>
  The constructor, in memory \<open>raw\<close>. Neither the elapsed time nor the time of the last display is
  set. \<open>raw_tree_334\<close> is the memory of the first tree, \<open>own\<close> the process group of runsolver.
\<close>

definition construct_334 :: "rooted_tree \<Rightarrow> int \<Rightarrow> runsolver_334 \<Rightarrow> runsolver_334 result" where
  "construct_334 raw_tree_334 own raw =
     (let t = rt_construct own raw_tree_334;
          b = (base raw)\<lparr>rs_limits := [], watcher_file := None, inputRedirectionFilename := None,
             outputRedirectionFilename := None, timeStamping := False, usePTY := False,
             limitedOutputActivateSize := 0, limitedOutputMaxSize := 0,
             limitedOutputSizeFilter := cb_construct (limitedOutputSizeFilter (base raw))\<rparr>;
          s = (r4_sampler raw)\<lparr>sa_procTree := t, sa_lastProcTree := None, sa_cleanup := False,
             sa_listAllProcesses := {}, sampler.currentUserTime := 0, sampler.currentSystemTime := 0,
             sa_currentCPUTime := 0, sampler.lastUserTime := 0, sampler.lastSystemTime := 0, sampler.lastCPUTime := 0,
             lostUserTime := 0, lostSystemTime := 0, lostCPUTime := 0, sa_currentVSize := 0, sampler.lastVSize := 0,
             sa_maxVSize := 0, sa_limitCPUTime := 0, sa_limitWallClockTime := 0, sa_limitVSize := 0\<rparr>
      in and_then (push t (ph_construct raw_tree_334 10)) (\<lambda>(h, _).
        Inr (raw\<lparr>base := b, r4_sampler := s, procHistory_334 := h, delayBeforeKill_334 := 2, cleanupAll_334 := False,
          varOutput_334 := None\<rparr>)))"

definition setCPULimit_334 :: "int \<Rightarrow> runsolver_334 \<Rightarrow> runsolver_334 result" where
  "setCPULimit_334 sec rs =
     (let rs = on_sampler (\<lambda>s. s\<lparr>sa_limitCPUTime := flt (of_int sec)\<rparr>) rs;
          rs = on_base (\<lambda>b. addLimit (SoftCPULimit (raw_limit b) (word_of_int sec)) b) rs
      in and_then (c_int (sec + 30)) (\<lambda>hard.
           Inr (on_base (\<lambda>b. addLimit (HardCPULimit (raw_limit b) (word_of_int hard)) b) rs)))"

definition setWallClockLimit_334 :: "int \<Rightarrow> runsolver_334 \<Rightarrow> runsolver_334" where
  "setWallClockLimit_334 sec rs =
     on_base (\<lambda>b. addLimit (WallClockLimit (raw_limit b) (word_of_int sec)) b)
       (on_sampler (\<lambda>s. s\<lparr>sa_limitWallClockTime := flt (of_int sec)\<rparr>) rs)"

definition setMemLimit :: "int \<Rightarrow> int \<Rightarrow> runsolver_334 \<Rightarrow> runsolver_334 result" where
  "setMemLimit l reserve rs =
     (let rs = on_sampler (\<lambda>s. s\<lparr>sa_limitVSize := l\<rparr>) rs;
          rs = on_base (\<lambda>b. addLimit (SoftVSIZELimit (raw_limit b) (word_of_int l)) b) rs
      in and_then (c_long (l + reserve)) (\<lambda>hard.
           Inr (on_base (\<lambda>b. addLimit (HardVSIZELimit (raw_limit b) (word_of_int hard)) b) rs)))"

text \<open>The program is built without WATCHSYSCALLS.\<close>

definition watchSyscalls :: "runsolver_334 \<Rightarrow> runsolver_334 result" where
  "watchSyscalls rs = Inl (Runtime_error ''disabled function'')"

section \<open>The options\<close>

record main_334 =
  solver_334 :: runsolver_334
  memLimit_334 :: int
  affinity_334 :: cpu_set

definition on_solver_334 :: "(runsolver_334 \<Rightarrow> runsolver_334) \<Rightarrow> main_334 \<Rightarrow> main_334 run" where
  "on_solver_334 f m = returns (m\<lparr>solver_334 := f (solver_334 m)\<rparr>)"

definition try_solver_334 :: "(runsolver_334 \<Rightarrow> runsolver_334 run) \<Rightarrow> main_334 \<Rightarrow> main_334 run" where
  "try_solver_334 f m = run_then (f (solver_334 m)) (\<lambda>rs. returns (m\<lparr>solver_334 := rs\<rparr>))"

text \<open>
  The switch on one option. The list of cores of the option --cores is refused when the environment
  chooses the core; the one of --phys-cores is not.
\<close>

definition handle_option_334 ::
  "(string \<Rightarrow> string option) \<Rightarrow> topology \<Rightarrow> option_code \<times> string \<Rightarrow> main_334 \<Rightarrow> main_334 run" where
  "handle_option_334 env sysfs opt m =
     (let (optc, optarg) = opt in
      if optc = Short (CHR ''o'') then on_solver_334 (on_base (setOutputRedirection optarg)) m
      else if optc = Short (CHR ''i'') then on_solver_334 (on_base (setInputRedirection optarg)) m
      else if optc = Short (CHR ''w'') then on_solver_334 (on_base (setWatcherOutputFile optarg)) m
      else if optc = Short (CHR ''v'') then on_solver_334 (\<lambda>rs. rs\<lparr>varOutput_334 := Some optarg\<rparr>) m
      else if optc = Short (CHR ''M'') then
        run_then (Some (c_long (c_atol optarg * 1024))) (\<lambda>v. returns (m\<lparr>memLimit_334 := v\<rparr>))
      else if optc = Short (CHR ''C'') then try_solver_334 (\<lambda>rs. Some (setCPULimit_334 (c_atoi optarg) rs)) m
      else if optc = Short (CHR ''W'') then on_solver_334 (setWallClockLimit_334 (c_atoi optarg)) m
      else if optc = Short (CHR ''S'') then
        run_then (Some (c_int (c_atoi optarg * 1024))) (\<lambda>v.
          on_solver_334 (on_base (\<lambda>b. addLimit (StackSizeLimit (raw_limit b) (word_of_int v)) b)) m)
      else if optc = Short (CHR ''d'') then on_solver_334 (\<lambda>rs. rs\<lparr>delayBeforeKill_334 := c_atoi optarg\<rparr>) m
      else if optc = Short (CHR ''O'') then
        try_solver_334 (\<lambda>rs. run_then (output_limit optarg (base rs)) (\<lambda>b. returns (rs\<lparr>base := b\<rparr>))) m
      else if optc = Long 1000 then on_solver_334 (on_base (setTimeStamping True)) m
      else if optc = Long 1001 then try_solver_334 (\<lambda>rs. Some (watchSyscalls rs)) m
      else if optc = Long 1002 then on_solver_334 (on_base (setUsePTY True)) m
      else if optc = Long 1003 then on_solver_334 (on_sampler (\<lambda>s. s\<lparr>sa_cleanup := True\<rparr>)) m
      else if optc = Long 1004 then on_solver_334 (\<lambda>rs. rs\<lparr>cleanupAll_334 := True\<rparr>) m
      else if optc = Long 1005 then
        if env ''AEATK_SET_TASK_AFFINITY'' = Some ''1'' then Some (Inl (Exit 1))
        else run_then (selectCores sysfs optarg False) (\<lambda>c. returns (m\<lparr>affinity_334 := c\<rparr>))
      else if optc = Long 1006 then
        run_then (selectCores sysfs optarg True) (\<lambda>c. returns (m\<lparr>affinity_334 := c\<rparr>))
      else if optc = Long 1007 then try_solver_334 (\<lambda>rs. Some (try_base (setTimeStampingAddEOF True) rs)) m
      else Some (Inl (Exit 1)))"

fun handle_options_334 ::
  "(string \<Rightarrow> string option) \<Rightarrow> topology \<Rightarrow> (option_code \<times> string) list \<Rightarrow> main_334 \<Rightarrow> main_334 run" where
  "handle_options_334 env sysfs [] m = returns m"
| "handle_options_334 env sysfs (opt # opts) m =
     run_then (handle_option_334 env sysfs opt m) (handle_options_334 env sysfs opts)"

definition copyright_334 :: "string \<Rightarrow> string \<Rightarrow> string" where
  "copyright_334 version svn =
     ''runsolver Copyright (C) 2010-2013 Olivier ROUSSEL'' @ [newline, newline] @
     ''This is runsolver version '' @ version @ '' (svn: '' @ svn @ '') [AEATK2]'' @ [newline, newline] @
     ''This program is distributed in the hope that it will be useful,'' @ [newline] @
     ''but WITHOUT ANY WARRANTY; without even the implied warranty of'' @ [newline] @
     ''MERCHANTABILITY or FITNESS FOR A PARTICULAR PURPOSE.  See the'' @ [newline] @
     ''GNU General Public License for more details.'' @ [newline] @ endl"

text \<open>main up to the run: what it prints, and the object with the affinity of the process.\<close>

definition prepare_334 ::
  "(string \<Rightarrow> string option) \<Rightarrow> topology \<Rightarrow> (cpu_set \<Rightarrow> bool) \<Rightarrow> string \<Rightarrow> string \<Rightarrow> string list \<Rightarrow>
     (option_code \<times> string) list \<Rightarrow> string list \<Rightarrow> main_334 \<Rightarrow> (main_334 \<times> string) run" where
  "prepare_334 env sysfs refused version svn argv opts command m =
     catch_exceptions
       (run_then (handle_options_334 env sysfs opts m) (\<lambda>m.
        if command = [] then Some (Inl (Exit 1))
        else
          run_then (Some (updateCores env sysfs refused (affinity_334 m))) (\<lambda>(c, said).
          run_then (Some (getAllocatedCoresByProcessorOrder sysfs c)) (\<lambda>cores.
          run_then (Some (if memLimit_334 m \<noteq> 0 then setMemLimit (memLimit_334 m) (50 * 1024) (solver_334 m)
                          else Inr (solver_334 m))) (\<lambda>rs.
          returns (m\<lparr>solver_334 := rs, affinity_334 := c\<rparr>,
            copyright_334 version svn @ ''command line: '' @ concat (map (\<lambda>a. a @ '' '') argv) @ endl @ endl @
            said @ ''running on '' @ dec_nat (length cores) @ '' cores: '' @ printAllocatedCores cores @
            [newline, newline] @ printLimits (base rs)))))))"

section \<open>The run up to the first look at the processes\<close>

text \<open>
  The parent after the fork: its standard input is closed, it moves to the last of its cores, and
  the tree of the solver is read and displayed for the first time. \<open>os\<close> is the state of /proc.
\<close>

definition first_look ::
  "u64 \<Rightarrow> 'a proc_system_scheme \<Rightarrow> int \<Rightarrow> sampler \<Rightarrow> (sample_event list \<times> sampler) run" where
  "first_look ticks os pid s =
     (let t = setElapsedTime_334 0 (setDefaultRootPID pid (sa_procTree s)) in
      run_then (readProcesses_334 os t) (\<lambda>(t, evs).
      run_then (if sa_cleanup s then lift_option (listProcesses_334 (sa_listAllProcesses s) t)
                else returns (sa_listAllProcesses s, t)) (\<lambda>(l, t).
      run_then (lift_option (dumpProcessTree_334 ticks t)) (\<lambda>(d, t).
        returns (map Shown evs @ [Shown (Print d)],
          s\<lparr>sa_childpid := pid, sa_procTree := t, sa_listAllProcesses := l\<rparr>)))))"

definition parent_334 ::
  "u64 \<Rightarrow> 'a proc_system_scheme \<Rightarrow> topology \<Rightarrow> cpu_set \<Rightarrow> int \<Rightarrow> runsolver_334 \<Rightarrow> launch \<Rightarrow>
     (runsolver_334 \<times> fd_table \<times> cpu_set \<times> sample_event list) run" where
  "parent_334 ticks os sysfs affinity pid rs l =
     run_then (Some (getAllocatedCoresByProcessorOrder sysfs affinity)) (\<lambda>cores.
     let fds = sys_close 0 (fd_of l);
         fds = (if timeStamping (base rs) \<and> \<not> usePTY (base rs) then sys_close (redir_write l) fds else fds)
     in run_then (first_look ticks os pid (r4_sampler rs)) (\<lambda>(ev, s).
        returns (rs\<lparr>r4_sampler := s\<rparr>, fds, affinityMask (keep_last_core cores), ev)))"

text \<open>
  run up to the start of the threads: what the child executes with, and the state of the parent,
  when fork gives \<open>pid\<close>. The flags of the threads are in \<open>Stop_Threads\<close>.
\<close>

definition run_334 ::
  "launch_system \<Rightarrow> u64 \<Rightarrow> 'a proc_system_scheme \<Rightarrow> topology \<Rightarrow> cpu_set \<Rightarrow> ts_world \<Rightarrow> int \<Rightarrow> runsolver_334 \<Rightarrow> launch \<Rightarrow>
     ((fd_table \<times> rlimit_system \<times> string) result \<times> (runsolver_334 \<times> fd_table \<times> cpu_set \<times> sample_event list) run) run" where
  "run_334 ls ticks os sysfs affinity world pid rs l =
     run_then (Some (if timeStamping (base rs) then start_stamping ls world (base rs) l else Inr (base rs, l, world)))
       (\<lambda>(b, l, world).
        if pid < 0 then Some (Inl (Exit 127))
        else returns (child_setup ls b l, parent_334 ticks os sysfs affinity pid (rs\<lparr>base := b\<rparr>) l))"

section \<open>The same options in both versions\<close>

text \<open>
  What both versions keep: \<open>same_settings\<close> leaves out the members that 3.4.0 has alone (the limit on
  memory, the watchdog, the binary summary) and the state of the watcher besides the settings.
\<close>

definition same_settings :: "main_state \<Rightarrow> main_334 \<Rightarrow> bool" where
  "same_settings m m4 \<longleftrightarrow>
     solver m = (base (solver_334 m4))\<lparr>rs_watcher := rs_watcher (solver m)\<rparr> \<and>
     vsizeLimit m = memLimit_334 m4 \<and> m_affinity m = affinity_334 m4 \<and>
     limitCPUTime (rs_watcher (solver m)) = sa_limitCPUTime (r4_sampler (solver_334 m4)) \<and>
     limitWallClockTime (rs_watcher (solver m)) = sa_limitWallClockTime (r4_sampler (solver_334 m4)) \<and>
     limitVSize (rs_watcher (solver m)) = sa_limitVSize (r4_sampler (solver_334 m4)) \<and>
     delayBeforeKill (rs_watcher (solver m)) = delayBeforeKill_334 (solver_334 m4) \<and>
     varOutputFilename (rs_watcher (solver m)) = varOutput_334 (solver_334 m4) \<and>
     cleanupSolverOwnIPCQueues (rs_watcher (solver m)) = sa_cleanup (r4_sampler (solver_334 m4)) \<and>
     cleanupAllIPCQueues (rs_watcher (solver m)) = cleanupAll_334 (solver_334 m4)"

definition shared_option :: "option_code \<Rightarrow> bool" where
  "shared_option c \<longleftrightarrow> c \<in> Short ` set ''oiwvMCWSdO'' \<union> {Long 1000, Long 1002, Long 1003, Long 1004, Long 1005, Long 1006}"

fun same_outcome :: "('a \<Rightarrow> 'b \<Rightarrow> bool) \<Rightarrow> 'a run \<Rightarrow> 'b run \<Rightarrow> bool" where
  "same_outcome R None None \<longleftrightarrow> True"
| "same_outcome R (Some (Inl e)) (Some (Inl f)) \<longleftrightarrow> e = f"
| "same_outcome R (Some (Inr x)) (Some (Inr y)) \<longleftrightarrow> R x y"
| "same_outcome R _ _ \<longleftrightarrow> False"

lemma same_outcome_returns [simp]: "same_outcome R (returns x) (returns y) \<longleftrightarrow> R x y"
  by (simp add: returns_def)

lemma same_outcome_then:
  assumes "same_outcome R m m4" and "\<And>x y. R x y \<Longrightarrow> same_outcome S (k x) (k4 y)"
  shows "same_outcome S (run_then m k) (run_then m4 k4)"
  using assms by (cases "(R, m, m4)" rule: same_outcome.cases) auto

lemma same_outcome_refl: "(\<And>x. R x x) \<Longrightarrow> same_outcome R m m"
  by (cases "(R, m, m)" rule: same_outcome.cases) auto

text \<open>The settings of the class do not depend on the watcher in it.\<close>

lemma settings_frame:
  "setOutputRedirection f (b\<lparr>rs_watcher := w\<rparr>) = (setOutputRedirection f b)\<lparr>rs_watcher := w\<rparr>"
  "setInputRedirection f (b\<lparr>rs_watcher := w\<rparr>) = (setInputRedirection f b)\<lparr>rs_watcher := w\<rparr>"
  "setWatcherOutputFile f (b\<lparr>rs_watcher := w\<rparr>) = (setWatcherOutputFile f b)\<lparr>rs_watcher := w\<rparr>"
  "setTimeStamping x (b\<lparr>rs_watcher := w\<rparr>) = (setTimeStamping x b)\<lparr>rs_watcher := w\<rparr>"
  "setUsePTY x (b\<lparr>rs_watcher := w\<rparr>) = (setUsePTY x b)\<lparr>rs_watcher := w\<rparr>"
  "addLimit l (b\<lparr>rs_watcher := w\<rparr>) = (addLimit l b)\<lparr>rs_watcher := w\<rparr>"
  by (simp_all add: setOutputRedirection_def setInputRedirection_def setWatcherOutputFile_def setTimeStamping_def
      setUsePTY_def addLimit_def)

lemma watcher_frame:
  "rs_watcher (setOutputRedirection f b) = rs_watcher b" "rs_watcher (setInputRedirection f b) = rs_watcher b"
  "rs_watcher (setWatcherOutputFile f b) = rs_watcher b" "rs_watcher (setTimeStamping x b) = rs_watcher b"
  "rs_watcher (setUsePTY x b) = rs_watcher b" "rs_watcher (addLimit l b) = rs_watcher b"
  by (simp_all add: setOutputRedirection_def setInputRedirection_def setWatcherOutputFile_def setTimeStamping_def
      setUsePTY_def addLimit_def)

lemma output_limit_frame:
  "output_limit s (b\<lparr>rs_watcher := w\<rparr>) = run_then (output_limit s b) (\<lambda>b. returns (b\<lparr>rs_watcher := w\<rparr>))"
  by (auto simp: output_limit_def setTimeStamping_def setSolverOutputLimits_def c_int_def returns_def Let_def
      split: option.split)

lemma run_exhaust:
  obtains (endless) "r = None" | (fault) e where "r = Some (Inl e)" | (returned) x where "r = returns x"
  by (cases r; cases "the r") (auto simp: returns_def)

text \<open>One option, given what both versions have before it.\<close>

lemma option_agrees:
  assumes "same_settings m m4" and "shared_option c" and "env ''AEATK_SET_TASK_AFFINITY'' \<noteq> Some ''1''"
  shows "same_outcome same_settings (handle_option sysfs (c, arg) m) (handle_option_334 env sysfs (c, arg) m4)"
proof -
  define w where "w = rs_watcher (solver m)"
  have s: "solver m = (base (solver_334 m4))\<lparr>rs_watcher := w\<rparr>" using assms(1) by (simp add: same_settings_def w_def)
  note rest = assms(1) [unfolded same_settings_def, THEN conjunct2, folded w_def]
  note frame = settings_frame watcher_frame on_solver_def on_solver_334_def on_base_def on_watcher_def
    handle_option_def handle_option_334_def same_settings_def on_sampler_def
  consider "c = Short (CHR ''o'')" | "c = Short (CHR ''i'')" | "c = Short (CHR ''w'')" | "c = Short (CHR ''v'')"
    | "c = Short (CHR ''M'')" | "c = Short (CHR ''C'')" | "c = Short (CHR ''W'')" | "c = Short (CHR ''S'')"
    | "c = Short (CHR ''d'')" | "c = Short (CHR ''O'')" | "c = Long 1000" | "c = Long 1002" | "c = Long 1003"
    | "c = Long 1004" | "c = Long 1005" | "c = Long 1006"
    using assms(2) by (auto simp: shared_option_def)
  then show ?thesis
  proof cases
    case 1
    with rest s show ?thesis by (simp add: frame)
  next
    case 2
    with rest s show ?thesis by (simp add: frame)
  next
    case 3
    with rest s show ?thesis by (simp add: frame)
  next
    case 4
    with rest s show ?thesis by (simp add: frame setVarOutputFile_def)
  next
    case 5
    with rest s show ?thesis by (simp add: frame c_long_def)
  next
    case 6
    with rest s show ?thesis
      by (simp add: frame try_solver_def try_solver_334_def rs_setCPULimit_def setCPULimit_334_def setCPULimit_def c_int_def Let_def)
  next
    case 7
    with rest s show ?thesis
      by (simp add: frame rs_setWallClockLimit_def setWallClockLimit_334_def setWallClockLimit_def)
  next
    case 8
    with rest s show ?thesis by (simp add: frame c_int_def)
  next
    case 9
    with rest s show ?thesis by (simp add: frame setDelayBeforeKill_def)
  next
    case 10
    with rest s show ?thesis
      by (cases "output_limit arg (base (solver_334 m4))" rule: run_exhaust)
        (simp_all add: frame try_solver_def try_solver_334_def output_limit_frame)
  next
    case 11
    with rest s show ?thesis by (simp add: frame)
  next
    case 12
    with rest s show ?thesis by (simp add: frame)
  next
    case 13
    with rest s show ?thesis by (simp add: frame setCleanupSolverOwnIPCQueues_def)
  next
    case 14
    with rest s show ?thesis by (simp add: frame setCleanupAllIPCQueues_def)
  next
    case 15
    with rest s assms(3) show ?thesis by (cases "selectCores sysfs arg False" rule: run_exhaust) (simp_all add: frame)
  next
    case 16
    with rest s show ?thesis by (cases "selectCores sysfs arg True" rule: run_exhaust) (simp_all add: frame)
  qed
qed

text \<open>The limit on memory, which the old version does not have.\<close>

definition keeps_memLimit :: "main_state \<Rightarrow> main_state run \<Rightarrow> bool" where
  "keeps_memLimit m r \<longleftrightarrow> (\<forall>m'. r = returns m' \<longrightarrow> memLimit m' = memLimit m)"

lemma keeps_memLimit_cases:
  "keeps_memLimit m (on_solver f m)" "keeps_memLimit m (try_solver g m)" "keeps_memLimit m (Some (Inl e))"
  "keeps_memLimit m (run_then l (\<lambda>v. returns (m\<lparr>vsizeLimit := v\<rparr>)))"
  "keeps_memLimit m (run_then r (\<lambda>v. on_solver (h v) m))"
  "keeps_memLimit m (run_then t (\<lambda>c. returns (m\<lparr>m_affinity := c\<rparr>)))"
  "keeps_memLimit m (returns (m\<lparr>watchdogDelay := d\<rparr>))"
  by (auto simp: keeps_memLimit_def on_solver_def try_solver_def return_iff)

lemma keeps_memLimit_if:
  "(b \<Longrightarrow> keeps_memLimit m r) \<Longrightarrow> (\<not> b \<Longrightarrow> keeps_memLimit m r') \<Longrightarrow> keeps_memLimit m (if b then r else r')"
  by simp

lemma option_keeps_memLimit:
  assumes "c \<noteq> Short (CHR ''R'')"
  shows "keeps_memLimit m (handle_option sysfs (c, arg) m)"
proof -
  have "c = Short (CHR ''R'') \<Longrightarrow> keeps_memLimit m r" for r using assms by simp
  then show ?thesis
    unfolding handle_option_def Let_def prod.case by (intro keeps_memLimit_if keeps_memLimit_cases)
qed

lemma same_outcome_conj:
  "same_outcome R m m4 \<Longrightarrow> (\<And>x. m = returns x \<Longrightarrow> P x) \<Longrightarrow> same_outcome (\<lambda>x y. R x y \<and> P x) m m4"
  by (cases "(R, m, m4)" rule: same_outcome.cases) (auto simp: returns_def)

definition same_options :: "main_state \<Rightarrow> main_334 \<Rightarrow> bool" where
  "same_options m m4 \<longleftrightarrow> same_settings m m4 \<and> memLimit m = 0"

lemma options_agree:
  assumes "same_options m m4" and "\<forall>opt\<in>set opts. shared_option (fst opt)"
    and "env ''AEATK_SET_TASK_AFFINITY'' \<noteq> Some ''1''"
  shows "same_outcome same_options (handle_options sysfs opts m) (handle_options_334 env sysfs opts m4)"
  using assms(1,2)
proof (induction opts arbitrary: m m4)
  case Nil
  then show ?case by simp
next
  case (Cons opt opts)
  obtain c arg where opt: "opt = (c, arg)" by (cases opt)
  have c: "shared_option c" "c \<noteq> Short (CHR ''R'')" using Cons.prems(2) by (auto simp: opt shared_option_def)
  have "same_outcome (\<lambda>x y. same_settings x y \<and> memLimit x = 0)
      (handle_option sysfs (c, arg) m) (handle_option_334 env sysfs (c, arg) m4)"
    using Cons.prems(1) option_keeps_memLimit [OF c(2)]
    by (intro same_outcome_conj option_agrees c(1) assms(3)) (auto simp: same_options_def keeps_memLimit_def)
  then have "same_outcome same_options (handle_option sysfs opt m) (handle_option_334 env sysfs opt m4)"
    by (simp add: same_options_def [abs_def] opt)
  then show ?case
    using Cons.prems(2) Cons.IH by (auto intro!: same_outcome_then)
qed

lemma same_outcome_catch: "same_outcome R m m4 \<Longrightarrow> same_outcome R (catch_exceptions m) (catch_exceptions m4)"
  by (cases "(R, m, m4)" rule: same_outcome.cases) (auto simp: catch_exceptions_def split: fault.split)

lemma memory_agrees:
  assumes "same_settings m m4"
  shows "same_outcome (\<lambda>rs rs4. same_settings (m\<lparr>solver := rs\<rparr>) (m4\<lparr>solver_334 := rs4\<rparr>))
    (Some (rs_setVSizeLimit l r (solver m))) (Some (setMemLimit l r (solver_334 m4)))"
proof -
  define w where "w = rs_watcher (solver m)"
  have s: "solver m = (base (solver_334 m4))\<lparr>rs_watcher := w\<rparr>" using assms by (simp add: same_settings_def w_def)
  note rest = assms [unfolded same_settings_def, THEN conjunct2, folded w_def]
  then show ?thesis
    using s by (simp add: rs_setVSizeLimit_def setMemLimit_def settings_frame watcher_frame on_base_def on_watcher_def
        on_sampler_def same_settings_def setVSizeLimit_def c_long_def Let_def)
qed

section \<open>Properties\<close>

text \<open>
  Property C11: with options that both versions have, and no core chosen by the environment, both
  versions come to the same settings: limits, files, time stamping, delay, cleanup and cores. Where
  one ends with an error or an exit, or does not return, the other does so too.
\<close>

theorem versions_prepare_alike:
  assumes "same_options m m4" and "\<forall>opt\<in>set opts. shared_option (fst opt)"
    and "env ''AEATK_SET_TASK_AFFINITY'' \<noteq> Some ''1''"
  shows "same_outcome (\<lambda>(x, _) (y, _). same_settings x y)
    (prepare sysfs v svn numa argv opts command m) (prepare_334 env sysfs refused v4 svn4 argv opts command m4)"
proof -
  have step: "same_outcome (\<lambda>(x, _) (y, _). same_settings x y)
     (if command = [] then Some (Inl (Exit 1))
      else run_then (Some (getAllocatedCoresByProcessorOrder sysfs (m_affinity x))) (\<lambda>cores.
        run_then (Some (if vsizeLimit x \<noteq> 0 then rs_setVSizeLimit (vsizeLimit x) (50 * 1024) (solver x) else Inr (solver x)))
          (k cores)))
     (if command = [] then Some (Inl (Exit 1))
      else run_then (Some (updateCores env sysfs refused (affinity_334 y))) (\<lambda>(c, said).
        run_then (Some (getAllocatedCoresByProcessorOrder sysfs c)) (\<lambda>cores.
        run_then (Some (if memLimit_334 y \<noteq> 0 then setMemLimit (memLimit_334 y) (50 * 1024) (solver_334 y)
                        else Inr (solver_334 y))) (k4 c said cores))))"
    if xy: "same_options x y" and k: "\<And>cores rs rs4 said. same_settings (x\<lparr>solver := rs\<rparr>) (y\<lparr>solver_334 := rs4\<rparr>) \<Longrightarrow>
        same_outcome (\<lambda>(x, _) (y, _). same_settings x y) (k cores rs) (k4 (affinity_334 y) said cores rs4)" for x y k k4
  proof (cases "command = []")
    case False
    have same: "same_settings x y" "vsizeLimit x = memLimit_334 y" "m_affinity x = affinity_334 y"
      using xy by (simp_all add: same_options_def same_settings_def)
    have up: "\<exists>said. updateCores env sysfs refused (affinity_334 y) = Inr (affinity_334 y, said)"
      using assms(3) by (simp add: updateCores_def)
    then obtain said where up: "updateCores env sysfs refused (affinity_334 y) = Inr (affinity_334 y, said)" ..
    have "same_outcome (\<lambda>rs rs4. same_settings (x\<lparr>solver := rs\<rparr>) (y\<lparr>solver_334 := rs4\<rparr>))
        (Some (if vsizeLimit x \<noteq> 0 then rs_setVSizeLimit (vsizeLimit x) (50 * 1024) (solver x) else Inr (solver x)))
        (Some (if memLimit_334 y \<noteq> 0 then setMemLimit (memLimit_334 y) (50 * 1024) (solver_334 y) else Inr (solver_334 y)))"
      using memory_agrees [OF same(1)] same by simp
    then have "same_outcome (\<lambda>(x, _) (y, _). same_settings x y)
        (run_then (Some (if vsizeLimit x \<noteq> 0 then rs_setVSizeLimit (vsizeLimit x) (50 * 1024) (solver x) else Inr (solver x))) (k cores))
        (run_then (Some (if memLimit_334 y \<noteq> 0 then setMemLimit (memLimit_334 y) (50 * 1024) (solver_334 y) else Inr (solver_334 y)))
          (k4 (affinity_334 y) said cores))" for cores
      by (rule same_outcome_then) (rule k)
    then show ?thesis using False
      by (cases "getAllocatedCoresByProcessorOrder sysfs (affinity_334 y)") (simp_all add: up same(3))
  qed simp
  have "same_outcome same_options (handle_options sysfs opts m) (handle_options_334 env sysfs opts m4)"
    by (rule options_agree [where env = env]) (use assms in auto)
  then show ?thesis
    unfolding prepare_def prepare_334_def
    by (intro same_outcome_catch, rule same_outcome_then, intro step)
      (auto simp: same_options_def same_settings_def)
qed

text \<open>The main state of 3.4.0 that has the settings of the other, in a watcher \<open>w\<close>.\<close>

definition as_main :: "watcher \<Rightarrow> main_334 \<Rightarrow> main_state" where
  "as_main w m4 =
     (let rs4 = solver_334 m4; s = r4_sampler rs4 in
      \<lparr>solver = (base rs4)\<lparr>rs_watcher := w\<lparr>limitCPUTime := sa_limitCPUTime s, limitWallClockTime := sa_limitWallClockTime s,
         limitVSize := sa_limitVSize s, delayBeforeKill := delayBeforeKill_334 rs4, varOutputFilename := varOutput_334 rs4,
         cleanupSolverOwnIPCQueues := sa_cleanup s, cleanupAllIPCQueues := cleanupAll_334 rs4\<rparr>\<rparr>,
       vsizeLimit = memLimit_334 m4, memLimit = 0, watchdogDelay = 0, m_affinity = affinity_334 m4\<rparr>)"

lemma as_main_same: "same_options (as_main w m4) m4"
  by (simp add: same_options_def same_settings_def as_main_def Let_def)

theorem versions_prepare_alike_witness:
  "\<forall>w m4. same_outcome (\<lambda>(x, _) (y, _). same_settings x y)
     (prepare two_packages ''3.4.0'' [] [] [''runsolver''] [(Short (CHR ''C''), ''100''), (Long 1000, [])] [''ls''] (as_main w m4))
     (prepare_334 (\<lambda>_. None) two_packages (\<lambda>_. False) ''3.3.4'' [] [''runsolver'']
        [(Short (CHR ''C''), ''100''), (Long 1000, [])] [''ls''] m4)"
proof (intro allI versions_prepare_alike as_main_same, goal_cases)
  case 1
  show ?case by (simp add: shared_option_def)
qed simp

text \<open>
  After --timestamp the option --add-eof has its effect in 3.3.4, whereas 3.4.0 does not get past
  it, as its case goes on with the one of --sig.
\<close>

theorem add_eof_versions:
  "(\<exists>m4'. handle_options_334 env sysfs [(Long 1000, []), (Long 1007, [])] m4 = returns m4' \<and>
      addEOFLine (tStamp (base (solver_334 m4')))) \<and>
   handle_options sysfs [(Long 1000, []), (Long 1007, [])] m = Some (Inl (Runtime_error ''unimplemented''))"
  by (simp add: handle_option_334_def handle_option_def on_solver_334_def on_solver_def try_solver_334_def
      try_solver_def try_base_def on_base_def setTimeStamping_def setTimeStampingAddEOF_def addEOF_def setSignal_def
      returns_def)

lemma catch_returns: "catch_exceptions r = returns x \<Longrightarrow> r = returns x"
  by (rule ccontr) (simp add: catch_not_returns)

lemma returned_case: "Some r = returns x \<longleftrightarrow> r = Inr x"
  by (simp add: returns_def)

text \<open>
  When the environment chooses the core, --cores is refused, and a run that gets past the options
  has at most one core, whatever --phys-cores selected.
\<close>

theorem environment_chooses_core:
  assumes "env ''AEATK_SET_TASK_AFFINITY'' = Some ''1''" and "env ''AEATK_CONCURRENT_TASK_ID'' = Some s"
  shows "handle_option_334 env sysfs (Long 1005, arg) m = Some (Inl (Exit 1)) \<and>
     (prepare_334 env sysfs refused v svn argv opts command m = returns (m', txt) \<longrightarrow> (\<exists>c. affinity_334 m' \<subseteq> {c}))"
proof
  show "handle_option_334 env sysfs (Long 1005, arg) m = Some (Inl (Exit 1))"
    using assms(1) by (simp add: handle_option_334_def)
  show "prepare_334 env sysfs refused v svn argv opts command m = returns (m', txt) \<longrightarrow> (\<exists>c. affinity_334 m' \<subseteq> {c})"
  proof
    assume "prepare_334 env sysfs refused v svn argv opts command m = returns (m', txt)"
    then obtain a c said where "updateCores env sysfs refused a = Inr (c, said)" "affinity_334 m' = c"
      by (auto simp: prepare_334_def returned_case return_iff Let_def dest!: catch_returns split: if_splits)
    with assms show "\<exists>c. affinity_334 m' \<subseteq> {c}"
      by (auto simp: updateCores_def affinityMask_def cpu_set_core_def return_iff Let_def split: if_splits)
  qed
qed

theorem environment_chooses_core_witness:
  "\<forall>m. handle_option_334 (task_env ''0'') two_packages (Long 1005, ''0-3'') m = Some (Inl (Exit 1))"
  using environment_chooses_core [of "task_env ''0''" "''0''"] by (simp add: task_env_def)

end
