(* ===== verification/Command_Line.thy ===== *)
theory Command_Line
  imports Runsolver_334 Rooted_Report
begin

text \<open>
  The command line of both versions: getopt_long of the C library as far as runsolver uses it, with
  the tables of options of the two files runsolver.cc, and main from the words of the command line on.
\<close>

section \<open>getopt_long\<close>

text \<open>
  The string of short options begins with a plus sign in both versions: the scan ends at the first
  word that is no option. The plus sign is left out here. In a table of long options an entry has a
  name, whether it takes an argument, and the code that is returned for it.
\<close>

type_synonym long_option = "string \<times> bool \<times> option_code"

fun nonoption :: "string \<Rightarrow> bool" where
  "nonoption (c # d # w) \<longleftrightarrow> c \<noteq> CHR ''-''"
| "nonoption w \<longleftrightarrow> True"

text \<open>Whether the short option takes an argument, if it is one.\<close>

definition short_arg :: "string \<Rightarrow> char \<Rightarrow> bool option" where
  "short_arg optstring c =
     (if c = CHR '':'' \<or> c = CHR '';'' then None
      else case dropWhile (\<lambda>d. d \<noteq> c) optstring of
        [] \<Rightarrow> None
      | _ # r \<Rightarrow> Some (r \<noteq> [] \<and> hd r = CHR '':''))"

text \<open>
  A long option may be cut as long as all entries that begin with what is left mean the same; a
  name that is an entry itself is that entry.
\<close>

definition long_match :: "long_option list \<Rightarrow> string \<Rightarrow> (bool \<times> option_code) option" where
  "long_match table name =
     (case List.find (\<lambda>p. fst p = name) table of
        Some p \<Rightarrow> Some (snd p)
      | None \<Rightarrow>
          (case filter (\<lambda>p. take (length name) (fst p) = name) table of
             [] \<Rightarrow> None
           | p # ps \<Rightarrow> if list_all (\<lambda>q. snd q = snd p) ps then Some (snd p) else None))"

text \<open>One long option, after its two dashes: its code with its argument, and the words behind it.\<close>

definition long_option :: "long_option list \<Rightarrow> string \<Rightarrow> string list \<Rightarrow> (option_code \<times> string) \<times> string list" where
  "long_option table w args =
     (case long_match table (takeWhile (\<lambda>c. c \<noteq> CHR ''='') w) of
        None \<Rightarrow> ((Mistake, []), args)
      | Some (has_arg, code) \<Rightarrow>
          (case dropWhile (\<lambda>c. c \<noteq> CHR ''='') w of
             _ # v \<Rightarrow> if has_arg then ((code, v), args) else ((Mistake, []), args)
           | [] \<Rightarrow>
               if \<not> has_arg then ((code, []), args)
               else case args of [] \<Rightarrow> ((Mistake, []), []) | a # args \<Rightarrow> ((code, a), args)))"

definition prepend :: "'a \<Rightarrow> 'a list \<times> 'b \<Rightarrow> 'a list \<times> 'b" where
  "prepend x r = (x # fst r, snd r)"

definition words_size :: "string list \<Rightarrow> nat" where
  "words_size args = sum_list (map (\<lambda>a. length a + 1) args)"

lemma words_size_simps [simp]: "words_size [] = 0" "words_size (a # args) = length a + 1 + words_size args"
  by (simp_all add: words_size_def)

lemma long_option_size: "words_size (snd (long_option table w args)) \<le> words_size args"
  by (auto simp: long_option_def split: option.split list.split)

text \<open>\<open>nextchar\<close> is the rest of a word of short options.\<close>

function getopt_long ::
  "string \<Rightarrow> long_option list \<Rightarrow> string \<Rightarrow> string list \<Rightarrow> (option_code \<times> string) list \<times> string list" where
  "getopt_long optstring table (c # nextchar) args =
     (case short_arg optstring c of
        None \<Rightarrow> prepend (Mistake, []) (getopt_long optstring table nextchar args)
      | Some False \<Rightarrow> prepend (Short c, []) (getopt_long optstring table nextchar args)
      | Some True \<Rightarrow>
          if nextchar \<noteq> [] then prepend (Short c, nextchar) (getopt_long optstring table [] args)
          else case args of
            [] \<Rightarrow> ([(Mistake, [])], [])
          | a # args \<Rightarrow> prepend (Short c, a) (getopt_long optstring table [] args))"
| "getopt_long optstring table [] [] = ([], [])"
| "getopt_long optstring table [] (a # args) =
     (if nonoption a then ([], a # args)
      else if a = ''--'' then ([], args)
      else if hd (tl a) = CHR ''-'' then
        prepend (fst (long_option table (drop 2 a) args))
          (getopt_long optstring table [] (snd (long_option table (drop 2 a) args)))
      else getopt_long optstring table (tl a) args)"
  by pat_completeness auto

termination
proof (relation "measure (\<lambda>(_, _, w, args). length w + words_size args)", goal_cases)
  case (6 optstring table a args)
  then show ?case using long_option_size [of table "drop 2 a" args] by simp
next
  case (7 optstring table a args)
  then show ?case by (cases a) auto
qed auto

section \<open>The tables and main\<close>

text \<open>The short options are the same in both versions.\<close>

definition short_options :: string where
  "short_options = ''o:w:v:C:W:M:S:O:d:h''"

definition longopts :: "long_option list" where
  "longopts =
     [(''cpu-limit'', True, Short (CHR ''C'')), (''wall-clock-limit'', True, Short (CHR ''W'')),
      (''mem-limit'', True, Short (CHR ''M'')), (''vsize-limit'', True, Short (CHR ''V'')),
      (''rss-swap-limit'', True, Short (CHR ''R'')), (''stack-limit'', True, Short (CHR ''S'')),
      (''output-limit'', True, Short (CHR ''O'')), (''input'', True, Short (CHR ''i'')),
      (''delay'', True, Short (CHR ''d'')), (''help'', False, Short (CHR ''h'')),
      (''watcher-data'', True, Short (CHR ''w'')), (''var'', True, Short (CHR ''v'')),
      (''solver-data'', True, Short (CHR ''o'')), (''timestamp'', False, Long 1000),
      (''use-pty'', False, Long 1002), (''cleanup-own-ipc-queues'', False, Long 1003),
      (''cleanup-all-ipc-queues'', False, Long 1004), (''cores'', True, Long 1005),
      (''phys-cores'', True, Long 1006), (''add-eof'', False, Long 1007), (''sig'', True, Long 1008),
      (''bin-var'', True, Long 1009), (''version'', False, Long 1010), (''watchdog'', True, Long 1011)]"

definition longopts_334 :: "long_option list" where
  "longopts_334 =
     [(''cpu-limit'', True, Short (CHR ''C'')), (''wall-clock-limit'', True, Short (CHR ''W'')),
      (''mem-limit'', True, Short (CHR ''M'')), (''stack-limit'', True, Short (CHR ''S'')),
      (''output-limit'', True, Short (CHR ''O'')), (''input'', True, Short (CHR ''i'')),
      (''delay'', True, Short (CHR ''d'')), (''help'', False, Short (CHR ''h'')),
      (''watcher-data'', True, Short (CHR ''w'')), (''var'', True, Short (CHR ''v'')),
      (''solver-data'', True, Short (CHR ''o'')), (''timestamp'', False, Long 1000),
      (''watch-syscalls'', False, Long 1001), (''use-pty'', False, Long 1002),
      (''cleanup-own-ipc-queues'', False, Long 1003), (''cleanup-all-ipc-queues'', False, Long 1004),
      (''cores'', True, Long 1005), (''phys-cores'', True, Long 1006), (''add-eof'', False, Long 1007)]"

text \<open>
  main up to the run of the solver: the state, what is printed, and the command of the solver. The
  local variables that hold limits and delays are 0 before.
\<close>

definition main_340 ::
  "topology \<Rightarrow> string \<Rightarrow> string \<Rightarrow> string \<Rightarrow> string list \<Rightarrow> runsolver \<Rightarrow> cpu_set \<Rightarrow> (main_state \<times> string \<times> string list) run" where
  "main_340 sysfs version svn numa argv rs affinity =
     (let m = \<lparr>solver = rs, vsizeLimit = 0, memLimit = 0, watchdogDelay = 0, m_affinity = affinity\<rparr>;
          (opts, command) = getopt_long short_options longopts [] (tl argv)
      in run_then (prepare sysfs version svn numa argv opts command m) (\<lambda>(m, printed). returns (m, printed, command)))"

definition start_334 ::
  "(string \<Rightarrow> string option) \<Rightarrow> topology \<Rightarrow> (cpu_set \<Rightarrow> bool) \<Rightarrow> string \<Rightarrow> string \<Rightarrow> string list \<Rightarrow> runsolver_334 \<Rightarrow>
     cpu_set \<Rightarrow> (main_334 \<times> string \<times> string list) run" where
  "start_334 env sysfs refused version svn argv rs affinity =
     (let m = \<lparr>solver_334 = rs, memLimit_334 = 0, affinity_334 = affinity\<rparr>;
          (opts, command) = getopt_long short_options longopts_334 [] (tl argv)
      in run_then (prepare_334 env sysfs refused version svn argv opts command m) (\<lambda>(m, printed).
           returns (m, printed, command)))"

text \<open>The thread of the watchdog, which main starts if the delay is not 0; the delay is unsigned for sleep.\<close>

definition watchdog :: "int \<Rightarrow> int \<Rightarrow> event list" where
  "watchdog self delay =
     [Print (''Starting watchdog thread'' @ endl), Pause (unat (word_of_int delay :: u32) * 1000000000),
      Print (''watchdog killed runsolver after '' @ dec_int delay @ '' seconds.'' @ endl), Kill self 6]"

text \<open>
  What the child writes to its standard error when execvp fails (with the text of the error), and
  what run prints after \<open>Watcher::watchPID\<close>.
\<close>

definition exec_failed :: "string \<Rightarrow> string list \<Rightarrow> string" where
  "exec_failed e cmd =
     ''exec failed: '' @ e @ [newline] @ ''Solver command line was: '' @ concat (map (\<lambda>w. w @ '' '') cmd) @ [newline] @ endl"

definition end_of_run :: "bool \<Rightarrow> rusage \<Rightarrow> string" where
  "end_of_run stamping r =
     (if stamping then ''??? join timestamper begins'' @ endl @ ''??? join timestamper ends'' @ endl else []) @
     ''??? end of timestamper thread'' @ endl @ self_text r @ ''The end'' @ endl"

section \<open>Spellings of options\<close>

inductive spells :: "string \<Rightarrow> long_option list \<Rightarrow> option_code \<times> string \<Rightarrow> string list \<Rightarrow> bool" for optstring table where
  short_joined: "short_arg optstring c = Some True \<Longrightarrow> c \<noteq> CHR ''-'' \<Longrightarrow> arg \<noteq> [] \<Longrightarrow>
    spells optstring table (Short c, arg) [CHR ''-'' # c # arg]"
| short_apart: "short_arg optstring c = Some True \<Longrightarrow> c \<noteq> CHR ''-'' \<Longrightarrow>
    spells optstring table (Short c, arg) [[CHR ''-'', c], arg]"
| short_flag: "short_arg optstring c = Some False \<Longrightarrow> c \<noteq> CHR ''-'' \<Longrightarrow>
    spells optstring table (Short c, []) [[CHR ''-'', c]]"
| long_joined: "long_match table n = Some (True, code) \<Longrightarrow> CHR ''='' \<notin> set n \<Longrightarrow>
    spells optstring table (code, arg) [''--'' @ n @ ''='' @ arg]"
| long_apart: "long_match table n = Some (True, code) \<Longrightarrow> CHR ''='' \<notin> set n \<Longrightarrow> n \<noteq> [] \<Longrightarrow>
    spells optstring table (code, arg) [''--'' @ n, arg]"
| long_flag: "long_match table n = Some (False, code) \<Longrightarrow> CHR ''='' \<notin> set n \<Longrightarrow> n \<noteq> [] \<Longrightarrow>
    spells optstring table (code, []) [''--'' @ n]"

text \<open>What getopt_long gives for the words of one option.\<close>

lemma before_equals:
  assumes "CHR ''='' \<notin> set n"
  shows "takeWhile (\<lambda>c. c \<noteq> CHR ''='') n = n" "dropWhile (\<lambda>c. c \<noteq> CHR ''='') n = []"
    "takeWhile (\<lambda>c. c \<noteq> CHR ''='') (n @ CHR ''='' # v) = n"
    "dropWhile (\<lambda>c. c \<noteq> CHR ''='') (n @ CHR ''='' # v) = CHR ''='' # v"
  using assms by (induction n) auto

lemma getopt_spelled:
  assumes "spells optstring table opt words"
  shows "getopt_long optstring table [] (words @ args) = prepend opt (getopt_long optstring table [] args)"
  using assms
proof cases
  case (long_joined n code arg)
  then show ?thesis by (simp add: long_option_def before_equals)
next
  case (long_apart n code arg)
  then show ?thesis by (simp add: long_option_def before_equals)
next
  case (long_flag n code)
  then show ?thesis by (simp add: long_option_def before_equals)
qed auto

lemma getopt_spelled_list:
  assumes "list_all2 (spells optstring table) opts words"
  shows "getopt_long optstring table [] (concat words @ args) =
    (opts @ fst (getopt_long optstring table [] args), snd (getopt_long optstring table [] args))"
  using assms by induction (simp_all add: getopt_spelled prepend_def)

lemma getopt_command:
  assumes "command = [] \<or> nonoption (hd command)"
  shows "getopt_long optstring table [] command = ([], command)"
  using assms by (cases command) auto

section \<open>Properties\<close>



text \<open>The words that the wrapper puts before the command of the solver.\<close>

definition wrapper_line :: "string \<Rightarrow> int \<Rightarrow> int \<Rightarrow> string \<Rightarrow> string \<Rightarrow> string list \<Rightarrow> string list" where
  "wrapper_line prog mem cutoff watcher_name solver_name command =
     [prog, ''-M'', dec_int mem, ''-C'', dec_int cutoff, ''-w'', watcher_name, ''-o'', solver_name] @ command"

lemma wrapper_options:
  assumes "command = [] \<or> nonoption (hd command)"
  shows "getopt_long short_options longopts [] (tl (wrapper_line prog mem cutoff wlog slog command)) =
    ([(Short (CHR ''M''), dec_int mem), (Short (CHR ''C''), dec_int cutoff), (Short (CHR ''w''), wlog), (Short (CHR ''o''), slog)],
     command)"
proof -
  have l: "list_all2 (spells short_options longopts)
     [(Short (CHR ''M''), dec_int mem), (Short (CHR ''C''), dec_int cutoff), (Short (CHR ''w''), wlog), (Short (CHR ''o''), slog)]
     [[''-M'', dec_int mem], [''-C'', dec_int cutoff], [''-w'', wlog], [''-o'', slog]]"
    unfolding list_all2_Cons list_all2_Nil
    by (intro conjI short_apart TrueI) (simp_all add: short_arg_def short_options_def)
  show ?thesis
    using getopt_spelled_list [OF l, of command] getopt_command [OF assms] by (simp add: wrapper_line_def)
qed

lemma atol_dec: "- (2 ^ 63) \<le> i \<Longrightarrow> i < 2 ^ 63 \<Longrightarrow> c_atol (dec_int i) = i"
  using scan_int_dec_int [of "[]" i] by (simp add: c_atol_def no_digit_first_def)

lemma atoi_dec: "- (2 ^ 31) \<le> i \<Longrightarrow> i < 2 ^ 31 \<Longrightarrow> c_atoi (dec_int i) = i"
  by (simp add: c_atoi_def atol_dec sint_of_int_i32)

lemma wrapper_settings:
  assumes "0 < mem" and "mem * 1024 + 51200 < 2 ^ 63" and "0 \<le> cutoff" and "cutoff < 2 ^ 31"
    and "command \<noteq> []" and "nonoption (hd command)" and "getAllocatedCoresByProcessorOrder sysfs affinity = Inr cores"
  shows "if cutoff + 30 < 2 ^ 31
    then \<exists>m printed. main_340 sysfs version svn numa (wrapper_line prog mem cutoff wlog slog command) rs affinity =
        returns (m, printed, command) \<and> m_affinity m = affinity \<and>
      solver m = rs\<lparr>rs_watcher := (rs_watcher rs)\<lparr>limitCPUTime := flt (of_int cutoff), limitVSize := mem * 1024\<rparr>,
        watcher_file := Some wlog, outputRedirectionFilename := Some slog,
        rs_limits := rs_limits rs @ [SoftCPULimit (raw_limit rs) (word_of_int cutoff),
          HardCPULimit (raw_limit rs) (word_of_int (cutoff + 30)),
          SoftVSIZELimit (raw_limit rs) (word_of_int (mem * 1024)),
          HardVSIZELimit (raw_limit rs) (word_of_int (mem * 1024 + 51200))]\<rparr>
    else main_340 sysfs version svn numa (wrapper_line prog mem cutoff wlog slog command) rs affinity =
      Some (Inl (Undefined ''int overflow''))"
proof -
  have "- (2 ^ 63) \<le> mem * 1024" "- (2 ^ 31) \<le> cutoff" "- (2 ^ 31) \<le> cutoff + 30" "- (2 ^ 63) \<le> mem * 1024 + 51200"
    "mem * 1024 < 2 ^ 63" "- (2 ^ 63) \<le> mem" "mem < 2 ^ 63" "mem \<noteq> 0"
    using assms(1-4) by auto
  note bounds = this assms(2,4)
  let ?w = "(rs_watcher rs)\<lparr>limitCPUTime := flt (of_int cutoff)\<rparr>"
  let ?soft = "SoftCPULimit (raw_limit rs) (word_of_int cutoff)"
  let ?hard = "HardCPULimit (raw_limit rs) (word_of_int (cutoff + 30))"
  let ?set = "rs\<lparr>rs_watcher := ?w, rs_limits := rs_limits rs @ [?soft, ?hard], watcher_file := Some wlog,
    outputRedirectionFilename := Some slog\<rparr>"
  let ?opts = "[(Short (CHR ''M''), dec_int mem), (Short (CHR ''C''), dec_int cutoff), (Short (CHR ''w''), wlog),
    (Short (CHR ''o''), slog)]"
  have opts: "handle_options sysfs ?opts \<lparr>solver = rs, vsizeLimit = 0, memLimit = 0, watchdogDelay = 0, m_affinity = affinity\<rparr> =
    (if cutoff + 30 < 2 ^ 31
     then returns \<lparr>solver = ?set, vsizeLimit = mem * 1024, memLimit = 0, watchdogDelay = 0, m_affinity = affinity\<rparr>
     else Some (Inl (Undefined ''int overflow'')))"
    using bounds
    by (simp add: handle_option_def atol_dec atoi_dec c_long_def c_int_def on_solver_def try_solver_def rs_setCPULimit_def
        setWatcherOutputFile_def setOutputRedirection_def addLimit_def on_watcher_def setCPULimit_def returns_def Let_def)
  have vsize: "rs_setVSizeLimit (mem * 1024) 51200 x = Inr (x\<lparr>rs_watcher := (rs_watcher x)\<lparr>limitVSize := mem * 1024\<rparr>,
      rs_limits := rs_limits x @ [SoftVSIZELimit (raw_limit x) (word_of_int (mem * 1024)),
        HardVSIZELimit (raw_limit x) (word_of_int (mem * 1024 + 51200))]\<rparr>)" for x
    using bounds by (simp add: rs_setVSizeLimit_def c_long_def on_watcher_def setVSizeLimit_def addLimit_def Let_def)
  have prepared: "\<exists>printed. prepare sysfs version svn numa argv ?opts command
      \<lparr>solver = rs, vsizeLimit = 0, memLimit = 0, watchdogDelay = 0, m_affinity = affinity\<rparr> =
    (if cutoff + 30 < 2 ^ 31
     then returns (\<lparr>solver = ?set\<lparr>rs_watcher := ?w\<lparr>limitVSize := mem * 1024\<rparr>,
      rs_limits := rs_limits rs @ [?soft, ?hard, SoftVSIZELimit (raw_limit rs) (word_of_int (mem * 1024)),
        HardVSIZELimit (raw_limit rs) (word_of_int (mem * 1024 + 51200))]\<rparr>,
        vsizeLimit = mem * 1024, memLimit = 0, watchdogDelay = 0, m_affinity = affinity\<rparr>, printed)
     else Some (Inl (Undefined ''int overflow'')))" for argv
    unfolding prepare_def opts using assms(1,5,7) by (simp add: vsize catch_exceptions_def returns_def)
  show ?thesis
    using prepared [of "wrapper_line prog mem cutoff wlog slog command"]
    by (auto simp: main_340_def wrapper_options [OF disjI2 [OF assms(6)]] simp del: handle_options.simps)
qed

text \<open>
  Property C21: with the command line of the wrapper, runsolver gets exactly its limits and files,
  and the command of the solver. The wrapper cuts its limit on the time to 2 ^ 31 - 1 seconds, but
  from 2 ^ 31 - 30 on the hard limit, which is half a minute above it, overflows an int.
\<close>

theorem wrapper_command_line:
  assumes "0 < mem" and "mem * 1024 + 51200 < 2 ^ 63" and "0 \<le> cutoff" and "cutoff < 2 ^ 31"
    and "command \<noteq> []" and "nonoption (hd command)" and "getAllocatedCoresByProcessorOrder sysfs affinity = Inr cores"
  shows "if cutoff + 30 < 2 ^ 31
    then \<exists>m printed. main_340 sysfs version svn numa (wrapper_line prog mem cutoff wlog slog command) rs affinity =
        returns (m, printed, command) \<and> m_affinity m = affinity \<and>
      solver m = rs\<lparr>rs_watcher := (rs_watcher rs)\<lparr>limitCPUTime := flt (of_int cutoff), limitVSize := mem * 1024\<rparr>,
        watcher_file := Some wlog, outputRedirectionFilename := Some slog,
        rs_limits := rs_limits rs @ [SoftCPULimit (raw_limit rs) (word_of_int cutoff),
          HardCPULimit (raw_limit rs) (word_of_int (cutoff + 30)),
          SoftVSIZELimit (raw_limit rs) (word_of_int (mem * 1024)),
          HardVSIZELimit (raw_limit rs) (word_of_int (mem * 1024 + 51200))]\<rparr>
    else main_340 sysfs version svn numa (wrapper_line prog mem cutoff wlog slog command) rs affinity =
      Some (Inl (Undefined ''int overflow''))"
  by (rule wrapper_settings [OF assms])

theorem wrapper_command_line_witness:
  "\<forall>rs. \<exists>m printed. main_340 two_packages ''3.4.0'' [] [] (wrapper_line ''runsolver'' 3072 300 ''log'' ''out'' [''minisat'', ''-no-pre'']) rs
     {1, 2, 3, 6} = returns (m, printed, [''minisat'', ''-no-pre'']) \<and> limitVSize (rs_watcher (solver m)) = 3145728"
proof
  fix rs
  have "getAllocatedCoresByProcessorOrder two_packages {1, 2, 3, 6} = Inr (by_processor two_packages_ids {1, 2, 3, 6} cpu_setsize)"
    by (rule allocated_cores_eq [OF two_packages_topology]) (auto simp: cpu_setsize_def)
  from wrapper_command_line [OF _ _ _ _ _ _ this, of 3072 300 "[''minisat'', ''-no-pre'']" "''3.4.0''" "[]" "[]" "''runsolver''" "''log''" "''out''" rs]
  show "\<exists>m printed. main_340 two_packages ''3.4.0'' [] [] (wrapper_line ''runsolver'' 3072 300 ''log'' ''out'' [''minisat'', ''-no-pre'']) rs
     {1, 2, 3, 6} = returns (m, printed, [''minisat'', ''-no-pre'']) \<and> limitVSize (rs_watcher (solver m)) = 3145728"
    by auto
qed

lemma enforce_hard:
  assumes "resource l = r" and "0 \<le> r" and "\<not> get_fails os r" and "\<And>v. \<not> set_fails os r v"
  shows "enforceLimit l os = os\<lparr>in_force := (in_force os)
    (r := (in_force os r)\<lparr>rlim_cur := push_bit (l_scale l) (limit_value l)\<rparr>)\<rparr>"
  using assms by (simp add: enforceLimit_def Let_def)

lemma enforce_fake: "resource l < 0 \<Longrightarrow> enforceLimit l os = os"
  by (simp add: enforceLimit_def)

lemma redirect_output_effect:
  assumes "redirect_output os rs fds = Inr fds'" and "outputRedirectionFilename rs = Some name" and "\<not> timeStamping rs"
    and "standard_open fds"
  shows "fds' = fds(1 := Some (Named name), 2 := Some (Named name))"
proof -
  obtain fd f1 where o: "open_named os ''open failed during output redirection: '' name fds = Inr (fd, f1)"
    using assms(1-3) by (auto simp: redirect_output_def return_iff)
  then have s: "sys_open (Named name) fds = (fd, f1)" "0 \<le> fd"
    by (auto simp: open_named_def split: option.splits prod.splits if_splits)
  then have f: "fds fd = None" "f1 = fds(fd := Some (Named name))" by (auto dest: sys_open_free)
  then have "fd \<noteq> 1" "fd \<noteq> 2" using assms(4) by (auto simp: standard_open_def)
  with assms(1-3) o have "fds' = (f1(1 := Some (Named name), 2 := Some (Named name)))(fd := None)"
    by (simp add: redirect_output_def dup2_or_throw_def sys_dup2_def sys_close_def f(2))
  with f \<open>fd \<noteq> 1\<close> \<open>fd \<noteq> 2\<close> show ?thesis by (auto simp: fun_eq_iff)
qed

text \<open>
  Property C5: what the wrapper's command line comes to when nothing fails: the solver runs as the
  command that was given, with its standard output and its standard error in the file that was
  given and all other descriptors as they were; the kernel limits its CPU time to half a minute and
  its address space to 50 MiB more than what the wrapper asked for; the watcher has the exact limits.
\<close>

theorem wrapper_launch:
  assumes "main_340 sysfs version svn numa (wrapper_line prog mem cutoff wlog slog command) (rs_construct w raw) affinity =
      returns (m, printed, command')"
    and "run_setup os sysfs affinity world (solver m) l = Inr (Inr (cfds, rl, out), Inr (rs', pfds, aff))"
    and "0 < mem" and "mem * 1048576 + 52428800 < 2 ^ 64" and "0 \<le> cutoff" and "cutoff < 2 ^ 31"
    and "command \<noteq> []" and "nonoption (hd command)" and "standard_open (fd_of l)"
    and "\<forall>r. \<not> get_fails os r" and "\<forall>r v. \<not> set_fails os r v"
  shows "command' = command \<and> cfds = (fd_of l)(1 := Some (Named slog), 2 := Some (Named slog)) \<and>
    uint (rlim_cur (in_force rl rlimit_cpu)) = cutoff + 30 \<and>
    uint (rlim_cur (in_force rl rlimit_as)) = (mem + 50) * 1048576 \<and>
    limitCPUTime (rs_watcher rs') = flt (of_int cutoff) \<and> limitVSize (rs_watcher rs') = mem * 1024"
proof -
  let ?rs = "rs_construct w raw"
  obtain cores where cores: "getAllocatedCoresByProcessorOrder sysfs affinity = Inr cores"
    using assms(2) by (auto simp: run_setup_def parent_setup_def return_iff)
  have mem: "mem * 1024 + 51200 < 2 ^ 63" using assms(4) by simp
  note settings = wrapper_settings [OF assms(3) mem assms(5-8) cores, of version svn numa prog wlog slog ?rs]
  have cutoff: "cutoff + 30 < 2 ^ 31" using settings assms(1) by (auto simp: returns_def split: if_splits)
  with settings assms(1) have command: "command' = command"
    and solver: "solver m = ?rs\<lparr>rs_watcher := (rs_watcher ?rs)\<lparr>limitCPUTime := flt (of_int cutoff), limitVSize := mem * 1024\<rparr>,
        watcher_file := Some wlog, outputRedirectionFilename := Some slog,
        rs_limits := rs_limits ?rs @ [SoftCPULimit (raw_limit ?rs) (word_of_int cutoff),
          HardCPULimit (raw_limit ?rs) (word_of_int (cutoff + 30)),
          SoftVSIZELimit (raw_limit ?rs) (word_of_int (mem * 1024)),
          HardVSIZELimit (raw_limit ?rs) (word_of_int (mem * 1024 + 51200))]\<rparr>"
    by auto
  let ?s = "on_watcher (setChildReaper True) (solver m)"
  have plain: "\<not> timeStamping ?s" "inputRedirectionFilename ?s = None" "outputRedirectionFilename ?s = Some slog"
    "limitCPUTime (rs_watcher ?s) = flt (of_int cutoff)" "limitVSize (rs_watcher ?s) = mem * 1024"
    by (simp_all add: solver on_watcher_def rs_construct_def setChildReaper_def)
  let ?t = "rlimit_system.truncate os"
  let ?cpu = "(in_force os rlimit_cpu)\<lparr>rlim_cur := word_of_int (cutoff + 30)\<rparr>"
  let ?as = "(in_force os rlimit_as)\<lparr>rlim_cur := push_bit 10 (word_of_int (mem * 1024 + 51200))\<rparr>"
  let ?e = "?t\<lparr>in_force := (in_force os)(rlimit_cpu := ?cpu, rlimit_as := ?as)\<rparr>"
  have enforced: "enforce_all (rs_limits ?s) ?t = ?e"
    using assms(10,11)
    by (simp add: solver on_watcher_def rs_construct_def enforce_all_def enforce_fake enforce_hard SoftCPULimit_def
        HardCPULimit_def SoftVSIZELimit_def HardVSIZELimit_def setLimit_def base_limit_def rlimit_system.defs
        rlimit_cpu_def rlimit_as_def fun_upd_twist)
  obtain f where f: "redirect_output os ?s (fd_of l) = Inr f" "cfds = f" "rs' = ?s" "rl = ?e"
    using assms(2,10) plain enforced
    by (auto simp: run_setup_def check_subreaper_def child_setup_def redirect_input_def parent_setup_def return_iff
        outputEnforcedLimit_def getEnforcedLimit_def StackSizeLimit_unset_def base_limit_def rlimit_stack_def
        rlimit_system.defs Let_def split: if_splits)
  have "push_bit 10 (word_of_int (mem * 1024 + 51200)) = (word_of_int ((mem + 50) * 1048576) :: u64)"
    by (simp add: push_bit_eq_mult algebra_simps)
  moreover have "uint (word_of_int ((mem + 50) * 1048576) :: u64) = (mem + 50) * 1048576"
    using assms(3,4) by (intro uint_of_small) simp_all
  ultimately have bytes: "uint (push_bit 10 (word_of_int (mem * 1024 + 51200)) :: u64) = (mem + 50) * 1048576"
    by simp
  have "uint (word_of_int (cutoff + 30) :: u64) = cutoff + 30"
    using assms(5) cutoff by (intro uint_of_small) simp_all
  with bytes plain f redirect_output_effect [OF f(1) plain(3,1) assms(9)] show ?thesis
    by (simp add: command rlimit_cpu_def rlimit_as_def)
qed

theorem wrapper_launch_witness:
  "\<forall>w raw world. \<exists>m printed cfds rl out p.
     main_340 two_packages ''3.4.0'' [] [] (wrapper_line ''runsolver'' 3072 300 ''log'' ''out'' [''minisat'']) (rs_construct w raw)
       {1, 2, 3, 6} = returns (m, printed, [''minisat'']) \<and>
     run_setup demo_launch two_packages {1, 2, 3, 6} world (solver m) demo_fds = Inr (Inr (cfds, rl, out), Inr p) \<and>
     cfds 1 = Some (Named ''out'') \<and> uint (rlim_cur (in_force rl rlimit_as)) = 3273654272"
proof (intro allI)
  fix w raw world
  have cores: "getAllocatedCoresByProcessorOrder two_packages {1, 2, 3, 6} = Inr (by_processor two_packages_ids {1, 2, 3, 6} cpu_setsize)"
    by (rule allocated_cores_eq [OF two_packages_topology]) (auto simp: cpu_setsize_def)
  obtain m printed where m: "main_340 two_packages ''3.4.0'' [] [] (wrapper_line ''runsolver'' 3072 300 ''log'' ''out'' [''minisat''])
      (rs_construct w raw) {1, 2, 3, 6} = returns (m, printed, [''minisat''])"
    and set: "\<not> timeStamping (solver m)" "inputRedirectionFilename (solver m) = None" "outputRedirectionFilename (solver m) = Some ''out''"
    using wrapper_settings [OF _ _ _ _ _ _ cores, of 3072 300 "[''minisat'']" "''3.4.0''" "[]" "[]" "''runsolver''" "''log''" "''out''"
        "rs_construct w raw"] by (auto simp: rs_construct_def)
  let ?t = "fd_of demo_fds"
  have "lowest_free ?t = Some (int 3)" by (rule lowest_free_eq) (auto simp: demo_fds_def fd_limit_def)
  then have "open_named demo_launch what ''out'' ?t = Inr (3, ?t(3 := Some (Named ''out'')))" for what
    by (simp add: open_named_def sys_open_def demo_launch_def launch_system.defs rlimit_system.defs demo_limits_def)
  moreover let ?s = "on_watcher (setChildReaper True) (solver m)"
  have s: "\<not> timeStamping ?s" "inputRedirectionFilename ?s = None" "outputRedirectionFilename ?s = Some ''out''"
    using set by (simp_all add: on_watcher_def)
  ultimately have "\<exists>f. redirect_output demo_launch ?s ?t = Inr f"
    by (simp add: redirect_output_def dup2_or_throw_def sys_dup2_def)
  then obtain f where "redirect_output demo_launch ?s ?t = Inr f" ..
  with s have "\<exists>c. child_setup demo_launch ?s demo_fds = Inr c"
    by (simp add: child_setup_def redirect_input_def split: prod.splits)
  moreover have "\<exists>q. parent_setup two_packages {1, 2, 3, 6} ?s demo_fds = Inr q"
    using cores by (simp add: parent_setup_def Let_def)
  moreover have "\<not> subreaper_failure demo_launch" by (simp add: demo_launch_def launch_system.defs rlimit_system.defs)
  ultimately obtain cfds rl out p where r:
    "run_setup demo_launch two_packages {1, 2, 3, 6} world (solver m) demo_fds = Inr (Inr (cfds, rl, out), Inr p)"
    using s(1) by (auto simp: run_setup_def check_subreaper_def)
  obtain rs' pfds aff where p: "p = (rs', pfds, aff)" by (cases p)
  have "standard_open ?t" "\<forall>r. \<not> get_fails demo_launch r" "\<forall>r v. \<not> set_fails demo_launch r v"
    by (simp_all add: standard_open_def demo_fds_def demo_launch_def launch_system.defs rlimit_system.defs demo_limits_def)
  from wrapper_launch [OF m r [unfolded p] _ _ _ _ _ _ this] m r
  show "\<exists>m printed cfds rl out p.
     main_340 two_packages ''3.4.0'' [] [] (wrapper_line ''runsolver'' 3072 300 ''log'' ''out'' [''minisat'']) (rs_construct w raw)
       {1, 2, 3, 6} = returns (m, printed, [''minisat'']) \<and>
     run_setup demo_launch two_packages {1, 2, 3, 6} world (solver m) demo_fds = Inr (Inr (cfds, rl, out), Inr p) \<and>
     cfds 1 = Some (Named ''out'') \<and> uint (rlim_cur (in_force rl rlimit_as)) = 3273654272"
    by (cases p) auto
qed


end
