(* ===== verification/Page_Maps.thy ===== *)
theory Page_Maps
  imports Core_Selection Syscall_Watchers
begin

text \<open>
  server/server.cc: an experiment beside runsolver that counts the pages of processes from
  /proc/pid/maps and /proc/pid/pagemap. The class \<open>MemoryUsage\<close>; its main only calls it.
\<close>

unbundle bit_operations_syntax

section \<open>The constructor\<close>

text \<open>boost::split at points, and the text on the release of the kernel.\<close>

fun split_points :: "string \<Rightarrow> string list" where
  "split_points [] = [[]]"
| "split_points (c # s) =
     (if c = CHR ''.'' then [] # split_points s
      else case split_points s of [] \<Rightarrow> [[c]] | w # ws \<Rightarrow> (c # w) # ws)"

definition release_text :: "string \<Rightarrow> string result" where
  "release_text release =
     (case split_points release of
        a # b # _ \<Rightarrow> Inr (''rel='' @ a @ ''.'' @ b @ endl)
      | _ \<Rightarrow> Inl (Undefined ''ver[1]''))"

section \<open>One line of maps\<close>

text \<open>A number in base 16: an optional sign, an optional prefix and digits.\<close>

definition ishex :: "char \<Rightarrow> bool" where
  "ishex c \<longleftrightarrow> (case hex_value c of Inl _ \<Rightarrow> False | Inr _ \<Rightarrow> True)"

definition hex_digit_value :: "char \<Rightarrow> nat" where
  "hex_digit_value c = (case hex_value c of Inl _ \<Rightarrow> 0 | Inr v \<Rightarrow> v)"

definition hex_number :: "string \<Rightarrow> nat" where
  "hex_number cs = foldl (\<lambda>a c. 16 * a + hex_digit_value c) 0 cs"

definition in_hex :: "nat \<Rightarrow> istream \<Rightarrow> nat \<times> istream" where
  "in_hex old i =
     (case sentry i of
        (i, False) \<Rightarrow> (old, i)
      | (i, True) \<Rightarrow>
          let minus = (hd (rest i) = CHR ''-'');
              r = (if minus \<or> hd (rest i) = CHR ''+'' then tl (rest i) else rest i);
              r = (if take 2 r = ''0x'' \<or> take 2 r = ''0X'' then drop 2 r else r);
              ds = takeWhile ishex r;
              r = dropWhile ishex r;
              v = hex_number ds;
              i = i\<lparr>rest := r, eofbit := (r = [])\<rparr>
          in if ds = [] then (0, i\<lparr>failbit := True\<rparr>)
             else if 2 ^ 64 \<le> v then (2 ^ 64 - 1, i\<lparr>failbit := True\<rparr>)
             else (if minus \<and> v \<noteq> 0 then 2 ^ 64 - v else v, i))"

definition in_char :: "istream \<Rightarrow> istream" where
  "in_char i =
     (case sentry i of
        (i, False) \<Rightarrow> i
      | (i, True) \<Rightarrow> i\<lparr>rest := tl (rest i)\<rparr>)"

text \<open>The blanks before the name of a mapped file, but no newline.\<close>

function skip_padding :: "istream \<Rightarrow> istream" where
  "skip_padding i =
     (case in_peek i of
        (None, i') \<Rightarrow> i'
      | (Some c, i') \<Rightarrow> if isspace c \<and> c \<noteq> newline then skip_padding (snd (in_get i')) else i')"
  by pat_completeness auto
termination
  by (relation "measure (length \<circ> rest)") (auto simp: in_peek_def in_get_def split: if_splits list.splits)

declare skip_padding.simps [simp del]

record area =
  a_beg :: u64
  a_end :: u64
  a_perm :: string
  a_path :: string

text \<open>
  One turn of the loop up to its exit. Once an extraction has failed, getline leaves the cleared
  path as it is, and the loop ends; so the values before a turn do not matter.
\<close>

definition read_area :: "istream \<Rightarrow> (area \<times> istream) option" where
  "read_area i =
     (let (b, i) = in_hex 0 i;
          (e, i) = in_hex 0 (in_char i);
          (perm, i) = in_word [] i;
          (tmp, i) = in_word [] i;
          (tmp, i) = in_word [] i;
          (inode, i) = in_unsigned 64 0 i;
          (path, i) = in_getline [] (skip_padding i)
      in if failbit i \<and> path = [] then None
         else Some (\<lparr>a_beg = of_nat b, a_end = of_nat e, a_perm = perm, a_path = path\<rparr>, i))"

section \<open>Counting pages\<close>

record page_counts =
  unmappedPages :: u64
  ramPages :: u64
  swapPages :: u64
  sharedPages :: u64
  pagesList :: "u64 set"

definition frame_of :: "u64 \<Rightarrow> u64" where
  "frame_of desc = desc AND (push_bit 55 1 - 1)"

definition count_page :: "u64 \<Rightarrow> page_counts \<Rightarrow> page_counts" where
  "count_page desc n =
     (let pfn = frame_of desc in
      if pfn \<noteq> 0 then
        if pfn \<in> pagesList n then n\<lparr>sharedPages := sharedPages n + 1\<rparr>
        else let n = n\<lparr>pagesList := insert pfn (pagesList n)\<rparr> in
          if bit desc 62 then n\<lparr>swapPages := swapPages n + 1\<rparr> else n\<lparr>ramPages := ramPages n + 1\<rparr>
      else n\<lparr>unmappedPages := unmappedPages n + 1\<rparr>)"

definition page_text :: "u64 \<Rightarrow> u64 \<Rightarrow> string" where
  "page_text p desc =
     hex_nat (unat p) @ '' -> '' @ (if bit desc 63 then ''Present '' else []) @ (if bit desc 62 then ''Swp '' else []) @
     (if bit desc 61 then ''Map '' else []) @ (if bit desc 56 then ''Excl '' else []) @
     (if bit desc 55 then ''SoftD '' else []) @ '' '' @ hex_nat (unat (drop_bit 57 desc AND 15)) @ '' '' @
     hex_nat (unat (frame_of desc)) @ endl"

text \<open>
  A pagemap file: the error, if any, of lseek to a position, and what read gives at a position: a
  descriptor of eight bytes, the end of the file, or an error with its text.
\<close>

datatype page_read = Page u64 | No_more | Read_error string

record pagemap =
  pm_seek :: "int \<Rightarrow> string option"
  pm_read :: "int \<Rightarrow> page_read"

text \<open>
  The loop over the pages of an area. A failing read leaves the descriptor of the page before (the
  first one what the memory held). The address wraps around.
\<close>

partial_function (option) page_loop ::
  "u64 \<Rightarrow> pagemap \<Rightarrow> u64 \<Rightarrow> u64 \<Rightarrow> int \<Rightarrow> u64 \<Rightarrow> page_counts \<Rightarrow> string \<Rightarrow> (page_counts \<times> int \<times> string) option" where
  "page_loop pagesize pm e p pos desc n out =
     (if p < e then
        case pm_read pm pos of
          No_more \<Rightarrow> Some (n\<lparr>ramPages := ramPages n + (e - p) div pagesize\<rparr>, pos, out)
        | Page d \<Rightarrow> page_loop pagesize pm e (p + pagesize) (pos + 8) d (count_page d n) (out @ page_text p d)
        | Read_error t \<Rightarrow>
            page_loop pagesize pm e (p + pagesize) pos desc (count_page desc n)
              (out @ ''error reading page description (res=-1): '' @ t @ [newline] @ page_text p desc)
      else Some (n, pos, out))"

definition area_text :: "u64 \<Rightarrow> area \<Rightarrow> string" where
  "area_text pagesize a =
     dec_nat (unat ((a_end a - a_beg a) div pagesize)) @ [tab] @ hex_nat (unat (a_beg a)) @ ''-'' @
     hex_nat (unat (a_end a)) @ ''  '' @ a_perm a @ '' path='' @ a_path a @ endl"

definition kilobytes :: "u64 \<Rightarrow> u64 \<Rightarrow> string" where
  "kilobytes pagesize k = dec_nat (unat (k * (pagesize div 1024))) @ ''KB''"

definition area_total :: "u64 \<Rightarrow> area \<Rightarrow> page_counts \<Rightarrow> page_counts \<Rightarrow> string" where
  "area_total pagesize a before n =
     ''=> total='' @ dec_nat (unat ((a_end a - a_beg a) div 1024)) @ ''KB'' @
     '' unmapped='' @ kilobytes pagesize (unmappedPages n - unmappedPages before) @
     '' ram='' @ kilobytes pagesize (ramPages n - ramPages before) @
     '' swap='' @ kilobytes pagesize (swapPages n - swapPages before) @
     '' shared='' @ kilobytes pagesize (sharedPages n - sharedPages before) @ endl"

text \<open>One area: \<open>raw\<close> is the memory of the descriptor; the pagemap may not be readable.\<close>

definition count_area ::
  "u64 \<Rightarrow> u64 \<Rightarrow> pagemap option \<Rightarrow> area \<Rightarrow> int \<Rightarrow> page_counts \<Rightarrow> string \<Rightarrow> (page_counts \<times> int \<times> string) option" where
  "count_area raw pagesize pagemap a pos n out =
     (let out = out @ area_text pagesize a in
      Option.bind
        (case pagemap of
           None \<Rightarrow> Some (n, pos, out)
         | Some pm \<Rightarrow>
             let want = uint (8 * (a_beg a div pagesize));
                 (pos, out) = (case pm_seek pm want of
                   None \<Rightarrow> (want, out)
                 | Some t \<Rightarrow> (pos, out @ ''lseek failed:'' @ t @ endl))
             in page_loop pagesize pm (a_end a) (a_beg a) pos raw n out)
        (\<lambda>(n', pos, out). Some (n', pos, out @ area_total pagesize a n n')))"

lemma in_hex_le: "length (rest (snd (in_hex old i))) \<le> length (rest i)"
proof -
  define r where "r = dropWhile isspace (rest i)"
  have r: "length r \<le> length (rest i)" by (simp add: r_def length_dropWhile_le)
  have "length (dropWhile ishex r) \<le> length (rest i)" "length (dropWhile ishex (tl r)) \<le> length (rest i)"
    "length (dropWhile ishex (drop 2 r)) \<le> length (rest i)" "length (dropWhile ishex (drop 2 (tl r))) \<le> length (rest i)"
    using r by (auto intro: le_trans [OF length_dropWhile_le])
  then show ?thesis
    by (auto simp: in_hex_def sentry_def Let_def r_def split: prod.splits bool.splits if_splits)
qed

lemma in_char_le: "length (rest (in_char i)) \<le> length (rest i)"
  using length_dropWhile_le [of isspace "rest i"] by (auto simp: in_char_def sentry_def Let_def split: prod.splits)

lemma skip_padding_le: "length (rest (skip_padding i)) \<le> length (rest i)"
proof (induction i rule: skip_padding.induct)
  case (1 i)
  obtain p i' where p: "in_peek i = (p, i')" by (cases "in_peek i")
  have r: "rest i' = rest i" using in_peek_rest [of i] p by simp
  show ?case
  proof (cases "\<exists>c. p = Some c \<and> isspace c \<and> c \<noteq> newline")
    case True
    then have "skip_padding i = skip_padding (snd (in_get i'))" using p by (auto simp: skip_padding.simps [of i])
    moreover have "length (rest (skip_padding (snd (in_get i')))) \<le> length (rest (snd (in_get i')))"
      using "1.IH" p True by auto
    ultimately show ?thesis using in_get_le [of i'] r by simp
  next
    case False
    then have "skip_padding i = i'" using p by (cases p) (auto simp: skip_padding.simps [of i])
    then show ?thesis using r by simp
  qed
qed

lemma in_word_failed: "failbit i \<Longrightarrow> failbit (snd (in_word old i))"
  by (simp add: in_word_def sentry_def good_def)

text \<open>What fails once stays failed.\<close>

lemma failed_stays:
  assumes "failbit i"
  shows "failbit (snd (in_hex old i))" "failbit (in_char i)" "failbit (snd (in_unsigned w old i))"
    "failbit (skip_padding i)" "in_getline p i = (p, i)"
  using assms
  by (simp_all add: in_hex_def in_char_def in_unsigned_def sentry_def good_def in_getline_def in_peek_def skip_padding.simps [of i])

lemma read_area_shorter:
  assumes "read_area i = Some (a, i')"
  shows "stream_measure i' < stream_measure i"
proof -
  define i1 where "i1 = snd (in_hex 0 i)"
  define i2 where "i2 = snd (in_hex 0 (in_char i1))"
  define i3 where "i3 = snd (in_word [] (snd (in_word [] (snd (in_word [] i2)))))"
  define i4 where "i4 = skip_padding (snd (in_unsigned 64 0 i3))"
  obtain path j where g: "in_getline [] i4 = (path, j)" by (cases "in_getline [] i4")
  have j: "\<not> (failbit j \<and> path = [])" "i' = j"
    using assms g by (auto simp: read_area_def i1_def i2_def i3_def i4_def Let_def split: prod.splits if_splits)
  have "good i"
  proof (rule ccontr)
    assume "\<not> good i"
    then have "failbit i1" by (simp add: i1_def in_hex_def sentry_def)
    then have "failbit i4" by (simp add: i4_def i3_def i2_def failed_stays in_word_failed)
    with g j show False by (simp add: failed_stays)
  qed
  moreover have "length (rest i4) \<le> length (rest i)"
    unfolding i1_def i2_def i3_def i4_def
    by (meson skip_padding_le in_unsigned_le in_word_le in_hex_le in_char_le le_trans)
  ultimately show ?thesis using getline_after [OF _ _ g] j by simp
qed

function area_loop ::
  "u64 \<Rightarrow> u64 \<Rightarrow> pagemap option \<Rightarrow> istream \<Rightarrow> int \<Rightarrow> page_counts \<Rightarrow> string \<Rightarrow> (page_counts \<times> string) option" where
  "area_loop raw pagesize pagemap i pos n out =
     (case read_area i of
        None \<Rightarrow> Some (n, out)
      | Some (a, i') \<Rightarrow>
          Option.bind (count_area raw pagesize pagemap a pos n out) (\<lambda>(n, pos, out).
            area_loop raw pagesize pagemap i' pos n out))"
  by pat_completeness auto
termination
  by (relation "measure (\<lambda>(_, _, _, i, _). stream_measure i)") (auto dest: read_area_shorter)

declare area_loop.simps [simp del]

section \<open>readMaps\<close>

text \<open>
  \<open>maps\<close> and \<open>pagemaps\<close> are the files of /proc: None when the file cannot be opened. The counters are 0
  at the beginning. When a file maps cannot be opened, the function returns false at once.
\<close>

fun read_pids ::
  "u64 \<Rightarrow> u64 \<Rightarrow> (int \<Rightarrow> string option) \<Rightarrow> (int \<Rightarrow> pagemap option) \<Rightarrow> int list \<Rightarrow> page_counts \<Rightarrow> string \<Rightarrow>
     (bool \<times> page_counts \<times> string) option" where
  "read_pids raw pagesize maps pagemaps [] n out = Some (True, n, out)"
| "read_pids raw pagesize maps pagemaps (pid # pids) n out =
     (case maps pid of
        None \<Rightarrow> Some (False, n, out)
      | Some t \<Rightarrow>
          let out = (if pagemaps pid = None then out @ ''access to /proc/'' @ dec_int pid @ ''/pagemap denied'' @ [newline] else out)
          in Option.bind (area_loop raw pagesize (pagemaps pid) (open_stream t) 0 n out) (\<lambda>(n, out).
               read_pids raw pagesize maps pagemaps pids n out))"

definition totals_text :: "u64 \<Rightarrow> page_counts \<Rightarrow> string" where
  "totals_text pagesize n =
     ''pagesList (size='' @ dec_nat (card (pagesList n)) @ ''):'' @ endl @
     ''unmapped='' @ kilobytes pagesize (unmappedPages n) @ [newline] @ ''ram='' @ kilobytes pagesize (ramPages n) @ [newline] @
     ''swap='' @ kilobytes pagesize (swapPages n) @ [newline] @ ''shared='' @ kilobytes pagesize (sharedPages n) @ [newline] @
     ''VSS=all='' @ kilobytes pagesize (ramPages n + unmappedPages n + swapPages n + sharedPages n) @ [newline] @
     ''RSS=ram+shared='' @ kilobytes pagesize (ramPages n + sharedPages n) @ [newline]"

definition no_pages :: page_counts where
  "no_pages = \<lparr>unmappedPages = 0, ramPages = 0, swapPages = 0, sharedPages = 0, pagesList = {}\<rparr>"

definition readMaps ::
  "u64 \<Rightarrow> u64 \<Rightarrow> (int \<Rightarrow> string option) \<Rightarrow> (int \<Rightarrow> pagemap option) \<Rightarrow> int list \<Rightarrow> (bool \<times> page_counts \<times> string) option" where
  "readMaps raw pagesize maps pagemaps pids =
     map_option (\<lambda>(ok, n, out). (ok, n, if ok then out @ totals_text pagesize n else out))
       (read_pids raw pagesize maps pagemaps pids no_pages [])"

section \<open>The counters\<close>

definition counted :: "page_counts \<Rightarrow> u64" where
  "counted n = unmappedPages n + ramPages n + swapPages n + sharedPages n"

definition frames_counted :: "page_counts \<Rightarrow> bool" where
  "frames_counted n \<longleftrightarrow> finite (pagesList n) \<and> ramPages n + swapPages n = of_nat (card (pagesList n))"

lemma count_page_effect:
  "counted (count_page d n) = counted n + 1" "pagesList (count_page d n) = pagesList n \<union> ({frame_of d} - {0})"
  "unmappedPages (count_page d n) = unmappedPages n + (if frame_of d = 0 then 1 else 0)"
  by (auto simp: counted_def count_page_def Let_def)

lemma frames_counted_page: "frames_counted n \<Longrightarrow> frames_counted (count_page d n)"
  by (auto simp: frames_counted_def count_page_def Let_def algebra_simps card_insert_if)

lemma count_pages_effect:
  "counted (fold count_page ds n) = counted n + of_nat (length ds)"
  "pagesList (fold count_page ds n) = pagesList n \<union> (frame_of ` set ds - {0})"
  "unmappedPages (fold count_page ds n) = unmappedPages n + of_nat (length (filter (\<lambda>d. frame_of d = 0) ds))"
  "frames_counted n \<Longrightarrow> frames_counted (fold count_page ds n)"
  by (induction ds arbitrary: n) (auto simp: count_page_effect frames_counted_page)

section \<open>Areas that can be read\<close>

text \<open>The descriptors \<open>ds\<close> of the pages of an area are where the loop looks for them.\<close>

definition readable :: "u64 \<Rightarrow> pagemap \<Rightarrow> area \<Rightarrow> u64 list \<Rightarrow> bool" where
  "readable pagesize pm a ds \<longleftrightarrow>
     unat (a_end a) = unat (a_beg a) + length ds * unat pagesize \<and>
     pm_seek pm (uint (8 * (a_beg a div pagesize))) = None \<and>
     list_all (\<lambda>k. pm_read pm (uint (8 * (a_beg a div pagesize)) + 8 * int k) = Page (ds ! k)) [0..<length ds]"

lemma page_loop_pages:
  assumes "unat e = unat p + length ds * unat pagesize" and "0 < pagesize"
    and "\<And>k. k < length ds \<Longrightarrow> pm_read pm (pos + 8 * int k) = Page (ds ! k)"
  shows "\<exists>pos' out'. page_loop pagesize pm e p pos desc n out = Some (fold count_page ds n, pos', out')"
  using assms(1,3)
proof (induction ds arbitrary: p pos desc n out)
  case Nil
  then have "e = p" by (simp add: unsigned_word_eqI)
  then show ?case by (subst page_loop.simps) simp
next
  case (Cons d ds)
  have size: "0 < unat pagesize" using assms(2) by (simp add: word_less_nat_alt)
  have "unat e < 2 ^ 64" using unsigned_less [of e] by simp
  then have next_p: "unat (p + pagesize) = unat p + unat pagesize"
    using Cons.prems(1) by (simp add: unat_word_ariths)
  have less: "p < e" using Cons.prems(1) size by (simp add: word_less_nat_alt)
  have "unat e = unat (p + pagesize) + length ds * unat pagesize" using Cons.prems(1) by (simp add: next_p)
  moreover have "pm_read pm (pos + 8 + 8 * int k) = Page (ds ! k)" if "k < length ds" for k
    using Cons.prems(2) [of "Suc k"] that by (simp add: algebra_simps)
  ultimately have "\<exists>pos' out'. page_loop pagesize pm e (p + pagesize) (pos + 8) d (count_page d n) (out @ page_text p d) =
      Some (fold count_page ds (count_page d n), pos', out')" by (rule Cons.IH)
  with less Cons.prems(2) [of 0] show ?case by (subst page_loop.simps) simp
qed

lemma count_area_pages:
  assumes "readable pagesize pm a ds" and "0 < pagesize"
  shows "\<exists>pos' out'. count_area raw pagesize (Some pm) a pos n out = Some (fold count_page ds n, pos', out')"
proof -
  let ?want = "uint (8 * (a_beg a div pagesize))"
  have "\<exists>pos' out'. page_loop pagesize pm (a_end a) (a_beg a) ?want raw n out = Some (fold count_page ds n, pos', out')" for out
    using assms(1) by (intro page_loop_pages assms(2)) (simp_all add: readable_def list_all_iff)
  then obtain pos' out' where "page_loop pagesize pm (a_end a) (a_beg a) ?want raw n (out @ area_text pagesize a) =
      Some (fold count_page ds n, pos', out')" by blast
  with assms(1) show ?thesis by (simp add: count_area_def readable_def)
qed

section \<open>The text of maps\<close>

text \<open>A line as the kernel prints it: addresses in base 16, possibly with leading zeros.\<close>

definition hexes :: "string \<Rightarrow> u64 \<Rightarrow> bool" where
  "hexes w v \<longleftrightarrow> w \<noteq> [] \<and> list_all ishex w \<and> hex_number w = unat v"

definition field_word :: "string \<Rightarrow> bool" where
  "field_word w \<longleftrightarrow> w \<noteq> [] \<and> plain_name w"

inductive kernel_line :: "area \<Rightarrow> string \<Rightarrow> bool" where
  "hexes b (a_beg a) \<Longrightarrow> hexes e (a_end a) \<Longrightarrow> field_word (a_perm a) \<Longrightarrow> field_word offset \<Longrightarrow>
    field_word dev \<Longrightarrow>
    inode < 2 ^ 64 \<Longrightarrow> newline \<notin> set (a_path a) \<Longrightarrow> a_path a = [] \<or> \<not> isspace (hd (a_path a)) \<Longrightarrow>
    kernel_line a (b @ ''-'' @ e @ '' '' @ a_perm a @ '' '' @ offset @ '' '' @ dev @ '' '' @ dec_nat inode @ '' '' @
      replicate pad (CHR '' '') @ a_path a @ [newline])"

lemma ishex_plain: "ishex c \<Longrightarrow> \<not> isspace c \<and> c \<noteq> CHR ''-'' \<and> c \<noteq> CHR ''+'' \<and> c \<noteq> CHR ''x'' \<and> c \<noteq> CHR ''X''"
  by (auto simp: ishex_def hex_value_def isspace_def split: if_splits)

lemma in_hex_word:
  assumes "hexes w v" and "c = CHR ''-'' \<or> c = CHR '' ''" and "s = w \<or> s = CHR '' '' # w"
  shows "in_hex old (open_stream (s @ c # r)) = (unat v, open_stream (c # r))"
proof -
  have w: "w \<noteq> []" "list_all ishex w" "hex_number w = unat v" using assms(1) by (simp_all add: hexes_def)
  have c: "\<not> ishex c" using assms(2) by (auto simp: ishex_def hex_value_def)
  from w(1,2) have first: "ishex (hd w)" by (cases w) auto
  have "dropWhile isspace (s @ c # r) = w @ c # r"
    using w first ishex_plain assms(3) by (cases w) (auto simp: isspace_def)
  then have "sentry (open_stream (s @ c # r)) = (open_stream (w @ c # r), True)"
    by (simp add: sentry_def) (simp add: open_stream_def)
  moreover have "takeWhile ishex (w @ c # r) = w" "dropWhile ishex (w @ c # r) = c # r"
    using w(2) c by (simp_all add: list_all_iff)
  moreover have "take 2 (w @ c # r) \<noteq> ''0x'' \<and> take 2 (w @ c # r) \<noteq> ''0X''"
    using w(1,2) assms(2) ishex_plain by (cases w; cases "tl w") auto
  moreover have "unat v < 2 ^ 64" using unsigned_less [of v] by simp
  ultimately show ?thesis
    using w first ishex_plain by (simp add: in_hex_def Let_def) (simp add: open_stream_def)
qed

lemma in_char_one: "\<not> isspace c \<Longrightarrow> in_char (open_stream (c # r)) = open_stream r"
  by (simp add: in_char_def sentry_def) (simp add: open_stream_def)

lemma in_word_blank:
  assumes "field_word w"
  shows "in_word old (open_stream (CHR '' '' # w @ CHR '' '' # r)) = (w, open_stream (CHR '' '' # r))"
proof -
  have w: "w \<noteq> []" "\<forall>c\<in>set w. \<not> isspace c" using assms by (simp_all add: field_word_def plain_name_def)
  then have "dropWhile isspace (CHR '' '' # w @ CHR '' '' # r) = w @ CHR '' '' # r" by (cases w) auto
  then have "sentry (open_stream (CHR '' '' # w @ CHR '' '' # r)) = (open_stream (w @ CHR '' '' # r), True)"
    by (simp add: sentry_def) (simp add: open_stream_def)
  moreover have "takeWhile (\<lambda>c. \<not> isspace c) (w @ CHR '' '' # r) = w"
    "dropWhile (\<lambda>c. \<not> isspace c) (w @ CHR '' '' # r) = CHR '' '' # r"
    using w(2) by simp_all
  ultimately show ?thesis by (simp add: in_word_def) (simp add: open_stream_def)
qed

lemma in_unsigned_blank:
  assumes "n < 2 ^ 64"
  shows "in_unsigned 64 old (open_stream (CHR '' '' # dec_nat n @ CHR '' '' # r)) = (n, open_stream (CHR '' '' # r))"
proof -
  have "sentry (open_stream (CHR '' '' # s)) = sentry (open_stream s)" for s
    by (simp add: sentry_def) (simp add: open_stream_def)
  then have "in_unsigned 64 old (open_stream (CHR '' '' # s)) = in_unsigned 64 old (open_stream s)" for s
    by (simp add: in_unsigned_def)
  then show ?thesis using in_unsigned_dec_nat [OF assms, of "CHR '' '' # r" old]
    by (simp add: no_digit_first_def isdigit_def) (simp add: open_stream_def)
qed

lemma skip_padding_blanks:
  assumes "r \<noteq> []" and "hd r = newline \<or> \<not> isspace (hd r)"
  shows "skip_padding (open_stream (replicate k (CHR '' '') @ r)) = open_stream r"
proof (induction k)
  case 0
  with assms show ?case by (cases r; subst skip_padding.simps) (auto simp: peek_open)
next
  case (Suc k)
  then show ?case
    by (subst skip_padding.simps) (simp add: peek_open get_open newline_def)
qed

lemma read_kernel_line:
  assumes "kernel_line a l"
  shows "read_area (open_stream (l @ r)) = Some (a, open_stream r)"
  using assms
proof cases
  case (1 b e offset dev inode pad)
  let ?path = "a_path a @ newline # r"
  have path: "skip_padding (open_stream (CHR '' '' # replicate pad (CHR '' '') @ ?path)) = open_stream ?path"
    using skip_padding_blanks [of ?path "Suc pad"] 1(9) by (cases "a_path a") auto
  have l: "l @ r = b @ CHR ''-'' # e @ CHR '' '' # a_perm a @ CHR '' '' # offset @ CHR '' '' # dev @ CHR '' '' #
      dec_nat inode @ CHR '' '' # replicate pad (CHR '' '') @ ?path"
    using 1(1) by simp
  have word: "of_nat (unat v) = v" for v :: u64 by simp
  have minus: "\<not> isspace (CHR ''-'')" by (simp add: isspace_def)
  show ?thesis
    unfolding l
    by (simp add: read_area_def in_hex_word [OF 1(2) disjI1 [OF refl] disjI1 [OF refl]] in_char_one minus
        in_hex_word [OF 1(3) disjI2 [OF refl] disjI1 [OF refl]] in_word_blank 1(4-6,8) in_unsigned_blank [OF 1(7)] path
        in_getline_line)
qed

lemma read_area_end: "read_area (open_stream []) = None"
proof -
  have e: "failbit (snd (in_hex 0 (open_stream [])))" by (simp add: in_hex_def sentry_def open_stream_def good_def)
  then show ?thesis
    by (simp add: read_area_def failed_stays in_word_failed split_beta)
qed

section \<open>Properties\<close>

lemma area_loop_lines:
  assumes "\<forall>(l, a, ds)\<in>set ls. kernel_line a l \<and> readable pagesize pm a ds" and "0 < pagesize"
  shows "\<exists>out'. area_loop raw pagesize (Some pm) (open_stream (concat (map fst ls))) pos n out =
    Some (fold count_page (concat (map (snd \<circ> snd) ls)) n, out')"
  using assms(1)
proof (induction ls arbitrary: pos n out)
  case Nil
  then show ?case by (simp add: area_loop.simps read_area_end)
next
  case (Cons x ls)
  obtain l a ds where x: "x = (l, a, ds)" by (cases x)
  have line: "kernel_line a l" "readable pagesize pm a ds" using Cons.prems by (simp_all add: x)
  obtain pos' out' where c: "count_area raw pagesize (Some pm) a pos n out = Some (fold count_page ds n, pos', out')"
    using count_area_pages [OF line(2) assms(2)] by blast
  have "\<exists>out''. area_loop raw pagesize (Some pm) (open_stream (concat (map fst ls))) pos' (fold count_page ds n) out' =
      Some (fold count_page (concat (map (snd \<circ> snd) ls)) (fold count_page ds n), out'')"
    using Cons.prems by (intro Cons.IH) simp
  then show ?case by (subst area_loop.simps) (simp add: x read_kernel_line [OF line(1)] c)
qed

text \<open>The lines of maps of a process, each with its area and the descriptors of its pages.\<close>

type_synonym mapping_lines = "(string \<times> area \<times> u64 list) list"

definition all_pages :: "(int \<Rightarrow> mapping_lines) \<Rightarrow> int list \<Rightarrow> u64 list" where
  "all_pages procs pids = concat (map (\<lambda>pid. concat (map (snd \<circ> snd) (procs pid))) pids)"

definition proc_files ::
  "u64 \<Rightarrow> (int \<Rightarrow> string option) \<Rightarrow> (int \<Rightarrow> pagemap option) \<Rightarrow> (int \<Rightarrow> mapping_lines) \<Rightarrow> int \<Rightarrow> bool" where
  "proc_files pagesize maps pagemaps procs pid \<longleftrightarrow>
     maps pid = Some (concat (map fst (procs pid))) \<and>
     (case pagemaps pid of None \<Rightarrow> False
      | Some pm \<Rightarrow> list_all (\<lambda>(l, a, ds). kernel_line a l \<and> readable pagesize pm a ds) (procs pid))"

lemma read_pids_pages:
  assumes "list_all (proc_files pagesize maps pagemaps procs) pids" and "0 < pagesize"
  shows "\<exists>out'. read_pids raw pagesize maps pagemaps pids n out = Some (True, fold count_page (all_pages procs pids) n, out')"
  using assms(1)
proof (induction pids arbitrary: n out)
  case Nil
  then show ?case by (simp add: all_pages_def)
next
  case (Cons pid pids)
  obtain pm where pm: "maps pid = Some (concat (map fst (procs pid)))" "pagemaps pid = Some pm"
    "\<forall>(l, a, ds)\<in>set (procs pid). kernel_line a l \<and> readable pagesize pm a ds"
    using Cons.prems by (auto simp: proc_files_def list_all_iff split: option.splits)
  obtain out' where l: "area_loop raw pagesize (Some pm) (open_stream (concat (map fst (procs pid)))) 0 n out =
      Some (fold count_page (concat (map (snd \<circ> snd) (procs pid))) n, out')"
    using area_loop_lines [OF pm(3) assms(2)] by blast
  then show ?case using Cons.IH [of "fold count_page (concat (map (snd \<circ> snd) (procs pid))) n" out'] Cons.prems pm(1,2)
    by (simp add: all_pages_def)
qed

text \<open>
  Property C36: when the files of all processes can be read, every page of every area is counted
  exactly once: as unmapped when its descriptor has no frame; the pages in memory and the swapped
  ones together are the different frames, and all others are shared. (All numbers modulo 2 ^ 64.)
\<close>

theorem pages_accounted:
  assumes "list_all (proc_files pagesize maps pagemaps procs) pids" and "0 < pagesize"
  shows "\<exists>n out. readMaps raw pagesize maps pagemaps pids = Some (True, n, out) \<and>
    unmappedPages n + ramPages n + swapPages n + sharedPages n = of_nat (length (all_pages procs pids)) \<and>
    unmappedPages n = of_nat (length (filter (\<lambda>d. frame_of d = 0) (all_pages procs pids))) \<and>
    ramPages n + swapPages n = of_nat (card (frame_of ` set (all_pages procs pids) - {0}))"
proof -
  let ?ds = "all_pages procs pids"
  obtain out where r: "read_pids raw pagesize maps pagemaps pids no_pages [] = Some (True, fold count_page ?ds no_pages, out)"
    using read_pids_pages [OF assms] by blast
  have "frames_counted no_pages" by (simp add: frames_counted_def no_pages_def)
  note e = count_pages_effect(1-3) [of ?ds no_pages] count_pages_effect(4) [OF this, of ?ds]
  then show ?thesis by (simp add: readMaps_def r frames_counted_def) (simp add: counted_def no_pages_def)
qed

definition demo_area :: area where
  "demo_area = \<lparr>a_beg = 4096, a_end = 12288, a_perm = ''r-xp'', a_path = ''/bin/x''\<rparr>"

definition demo_line :: string where
  "demo_line = ''1000'' @ ''-'' @ ''3000'' @ '' '' @ ''r-xp'' @ '' '' @ ''00000000'' @ '' '' @ ''08:02'' @ '' '' @ dec_nat 7 @ '' '' @
     replicate 3 (CHR '' '') @ ''/bin/x'' @ [newline]"

definition demo_pagemap :: pagemap where
  "demo_pagemap = \<lparr>pm_seek = \<lambda>_. None, pm_read = \<lambda>pos. if pos = 8 then Page 9223372036854775813 else Page 0\<rparr>"

lemma demo_line: "kernel_line demo_area demo_line"
  unfolding demo_line_def
  using kernel_line.intros [of "''1000''" demo_area "''3000''" "''00000000''" "''08:02''" 7 3]
  by (simp add: demo_area_def hexes_def ishex_def hex_value_def hex_number_def hex_digit_value_def field_word_def plain_name_def
      isspace_def newline_def)

lemma demo_readable: "readable 4096 demo_pagemap demo_area [9223372036854775813, 0]"
  by (simp add: readable_def demo_area_def demo_pagemap_def upt_rec)

theorem pages_accounted_witness:
  "\<exists>n out. readMaps 0 4096 (\<lambda>_. Some demo_line) (\<lambda>_. Some demo_pagemap) [12] = Some (True, n, out) \<and>
     unmappedPages n = 1 \<and> ramPages n + swapPages n = 1"
proof -
  let ?procs = "\<lambda>_::int. [(demo_line, demo_area, [9223372036854775813, 0 :: u64])]"
  have "list_all (proc_files 4096 (\<lambda>_. Some demo_line) (\<lambda>_. Some demo_pagemap) ?procs) [12]"
    by (simp add: proc_files_def demo_line demo_readable)
  moreover have "frame_of 9223372036854775813 = 5" "frame_of 0 = 0" by (simp_all add: frame_of_def)
  ultimately show ?thesis
    using pages_accounted [of 4096 "\<lambda>_. Some demo_line" "\<lambda>_. Some demo_pagemap" ?procs "[12]" 0]
    by (simp add: all_pages_def) blast
qed

text \<open>
  The bits that hold the frame of a present page hold the type and offset of the swap entry of a
  page that is swapped out. When both are the same number, the second page is counted as shared.
\<close>

theorem swap_entry_taken_for_frame:
  assumes "frame_of d = frame_of d'" and "frame_of d \<noteq> 0" and "\<not> bit d 62" and "bit d' 62" and "frame_of d \<notin> pagesList n"
  shows "swapPages (count_page d' (count_page d n)) = swapPages n \<and>
    sharedPages (count_page d' (count_page d n)) = sharedPages n + 1"
  using assms by (simp add: count_page_def Let_def)

theorem swap_entry_taken_for_frame_witness:
  "swapPages (count_page 4611686018427387909 (count_page 9223372036854775813 no_pages)) = 0"
  using swap_entry_taken_for_frame [of 9223372036854775813 4611686018427387909 no_pages]
  by (simp add: frame_of_def no_pages_def bit_iff_odd)

end
