(* ===== verification/Spec2Isabelle.thy ===== *)
theory Spec2Isabelle
  imports Vline_Splitter Process_History Stop_Runs Syscall_Names Rooted_Report Timer_Thread Command_Line Page_Maps
begin

text \<open>
  A model of runsolver, the C++ program under src/runsolver that GenericWrapper4AC uses to run a
  solver with limits on its CPU time, wall clock time and memory, to record what it used and to
  stop it with all its children. The repository holds two versions. The version that the
  wrapper uses is runsolver-3.4.0, and all its components are modelled. Of the older version,
  runsolver-3.3.4-patched, the parts are modelled that 3.4.0 does not have or has in another form:
  its threads and their stop protocol, its command line and launch, its process tree with one root,
  its sampling and final report, its tracer of system calls, and the reports to a socket that the
  AEATK framework reads.

  \<^bold>\<open>The program.\<close> \<open>main\<close> (runsolver.cc) reads the options into a \<open>RunSolver\<close> object and calls its
  \<open>run\<close>, which opens the pipe or pseudo terminal of the solver, forks, sets the limits in the
  child, and replaces the child by the solver. The parent then consists of three threads:
  \<^item> the main thread waits for the children of the process (\<open>Watcher::watchPID\<close>), and at the end
    prints and saves a summary;
  \<^item> the watcher thread (\<open>Watcher::watcherThread\<close>) samples /proc every tenth of a second into a
    tree of processes (ProcessTree.hh, ProcessData.hh), keeps a history of samples
    (ProcessHistory.hh), compares the sums with the limits, and stops the solver: SIGTERM, then a
    delay, then SIGKILL;
  \<^item> the time stamper thread (TimeStamper.hh) copies the output of the solver line by line, with
    a time stamp on each line, to a file or to the filter of CircularBufferFilter.hh, which
    keeps only the head and the tail of an output that is too long.

  \<^bold>\<open>Which theory models what\<close> (files under src/runsolver/runsolver-3.4.0/src):
  \<^item> \<open>Runsolver_Prelude\<close>: the outcomes of C++ code, loops over vectors, decimal numbers;
    \<open>Machine_Float\<close>: float and double; \<open>Printing\<close>: printf and ostream formats of numbers;
    \<open>Streams\<close>: istream and scanf; \<open>Std_Map\<close>: std::map.
  \<^item> \<open>Signal_Names\<close>: SignalNames.cc. \<open>Vline_Splitter\<close>: vlineSplitter.cc. \<open>Filters\<close>:
    CircularBufferFilter.hh. \<open>Timestamper\<close>: TimeStamper.hh. \<open>Cores\<close>: Cores.hh.
  \<^item> \<open>Process_Data\<close>, \<open>Process_Tree\<close>, \<open>Process_History\<close>: the headers of these names; the fields
    of the records are the members of the classes.
  \<^item> \<open>Watcher\<close>: the state and the operations of Watcher.hh. \<open>Watcher_Threads\<close>: what every
    operation keeps. \<open>Watcher_Runs\<close>: the interleaving of main thread and watcher thread as the
    step relation \<open>watch_step\<close>, and the properties of its runs. \<open>Watcher_Summary\<close>: the end of
    \<open>watchPID\<close> and ExecutionSummary.hh.
  \<^item> \<open>Resource_Limits\<close>, \<open>Runsolver\<close>, \<open>Core_Selection\<close>, \<open>Launch\<close>: runsolver.cc, namely the limits,
    the options and settings, \<open>selectCores\<close>, and \<open>run\<close> up to the start of the solver.
  \<^item> \<open>Command_Line\<close>: getopt_long with the tables of options of both versions, and main from the
    words of the command line on, for instance those that the Python wrapper writes.
  \<^item> \<open>Page_Maps\<close>: server/server.cc, an experiment beside the program that counts pages of memory.

  \<^bold>\<open>Theories of the older version\<close> (files under src/runsolver/runsolver-3.3.4-patched/src):
  \<^item> \<open>Stop_Threads\<close>: the flags that the threads of runsolver.cc share and what each thread does
    under a condition variable (\<open>stopSolver\<close>, the timer thread, the stopping thread, the signal
    thread, the main thread); \<open>Stop_Runs\<close>: their interleavings as a step relation.
  \<^item> \<open>Rooted_Tree\<close>: ProcessTree.hh and, where it differs, ProcessData.hh. \<open>Rooted_Sampling\<close>:
    \<open>readProcessData\<close> and \<open>displayProcessData\<close> of runsolver.cc. \<open>Aeatk\<close>: aeatk.c, which sends the
    CPU time of each sample and chooses a core by the number of the task.
  \<^item> \<open>Runsolver_334\<close>: the object of runsolver.cc, its options and settings, and \<open>run\<close> up to the
    start of the threads. \<open>Timer_Thread\<close>: the timer thread with its data, which the step relation
    of \<open>Stop_Threads\<close> abstracts from. \<open>Rooted_Report\<close>: the end of \<open>run\<close> and
    \<open>cleanupIPCMsgQueues\<close>.
  \<^item> \<open>Traced_System\<close>: what a tracer sees of a traced process (registers, words of its memory) and
    the effects of a watcher; \<open>Heap_Watcher\<close>: \<open>HeapSizeWatcher\<close>; \<open>Syscall_Watchers\<close>: ProcessList.hh
    and the watchers of processes, files and connections; \<open>Syscall_Tracer\<close>: the list of actions
    of a system call and the loop of \<open>SyscallsTracer\<close>, all of SyscallsTracer.hh.
    \<open>Syscall_Names\<close>: the table of SyscallNames.cc and its generator CreateSyscallsNames.cc.

  \<^bold>\<open>What the lemmas show.\<close> \<open>Filters\<close>: the interface \<open>output_sink\<close> (a writer that appends what it is
    given to what it stands for) with one interpretation for each sink, from a file descriptor to
    an entry of the time stamper, so that the results on writing carry over to sequences of
    writes; the filter writes the head, keeps the last bytes in its ring and reports the
    loss. \<open>Timestamper\<close>: every line of the solver comes out once, in order, behind its stamp.
    \<open>Process_Data\<close>: what the kernel prints into stat, statm and status is read back.
    \<open>Process_Tree\<close>: the recursions over the tree end on trees without cycles and are folds over
    the pre- and post-order of the tree; \<open>readProcesses\<close> finds exactly the descendants of the
    solver. \<open>Process_History\<close>: the arrays refine a list of cells, and each tree is freed once.
    \<open>Watcher_Runs\<close>: in every reachable state all pointers point to live trees, recorded maxima are
    maxima, and the stop protocol goes through its phases in order, in bounded time.
    \<open>Launch\<close>: the descriptors that are left in both processes. \<open>Command_Line\<close>: options are read back
    however they are spelled, the command of the solver stays as it is, and the wrapper's command line
    leads to exactly its limits. \<open>Stop_Runs\<close>: in every reachable
    state of the older threads one thread samples and the solver is signalled in order, runsolver
    comes to its end once the solver has ended, and where it does not. \<open>Rooted_Sampling\<close>: which limit asks for the stop, and that a reported time
    never falls. \<open>Rooted_Tree\<close>: where both versions read the same data. \<open>Syscall_Tracer\<close>: entering
    and leaving a call alternate for each traced process, every stop is continued, the tables are
    accessed in their bounds; \<open>Heap_Watcher\<close>: what the account of the heap is, and where it errs.
    \<open>Page_Maps\<close>: every page is counted once. \<open>Runsolver_334\<close>: options that both versions have lead to the same settings in both.
    \<open>Timer_Thread\<close>: the turns of the timer thread are steps of the protocol, and follow a fixed
    schedule of searches and displays. \<open>Rooted_Report\<close>: the times of the final report do not fall
    behind the last sample. \<open>Aeatk\<close>: datagrams are spaced by the interval, and different tasks get
    different cores. \<open>Syscall_Names\<close>: the generated look-up finds each listed number but 0.

  \<^bold>\<open>Modelling choices.\<close>
  \<^item> A partial C++ function is a function to \<open>'a result\<close>: a value or a \<open>fault\<close> (an access out of
    bounds, an overflow of a signed integer, an uncaught exception, an exit). A loop that may not
    end is a \<open>partial_function\<close> to \<open>'a option\<close>, or to \<open>'a run\<close> where it may also fail: \<open>None\<close> is a
    call that never returns. No fuel is used: that a call returns is proved as such.
  \<^item> Machine integers are words, or integers with the range check or the wrap-around written
    out. Floating point values are rationals rounded after each operation; their exponent is
    not bounded.
  \<^item> The operating system is an argument: the answers of write, read and select, the contents of
    /proc and /sys at the time they are read, the pids that wait returns, the results of getrlimit,
    dup2 and the other calls. What a property assumes of it is a hypothesis of the property, and
    has a witness. kill, nanosleep and the prints are recorded as events in their order.
  \<^item> The threads share their state under mutexes, or in variables that are read once for each
    decision; the model interleaves whole operations (a turn of the watcher loop, a signal to
    runsolver, the return of wait) in any order.
  \<^item> Pointers to process trees are addresses in a heap, so that a tree that is lost, freed twice
    or used after it was freed is visible.

  \<^bold>\<open>Not modelled.\<close> Of 3.4.0: the text of usage, \<open>numaInfo\<close> (a print of libnuma data),
  and Observer.hh (unused, does not compile). Of
  3.3.4-patched: CircularBufferFilter.hh, Cores.hh, ProcessHistory.hh and vlineSplitter.cc are
  literally those of 3.4.0, and TimeStamper.hh and SignalNames.cc are parts of the newer files, so
  that a second model would repeat the first; in runsolver.cc, the text of usage and the code under
  WATCHSYSCALLS, which the Makefile does not define (the tracer itself is modelled); the parser
  \<open>statData\<close> of ProcessData.hh, which nothing calls. The Python wrapper, the examples and the tests
  are outside this development.
\<close>

end
